(* ===== verification/Prelude.thy ===== *)
theory Prelude
  imports Main "HOL-Library.Word" "HOL-Library.Sublist"
begin

text \<open>
  Shared ground of the SkiffDB development: the types the Go sources use (byte strings,
  64-bit integers), the I/O errors a buffered reader reports, the line terminator of the
  RESP protocol, and the generic lemmas on lists and words that the component theories
  use. A Go \<^verbatim>\<open>string\<close> or \<^verbatim>\<open>[]byte\<close> is a list of \<^typ>\<open>char\<close> (a HOL character is a byte),
  a Go \<^verbatim>\<open>int\<close> or \<^verbatim>\<open>uint64\<close> is a 64-bit word: \<^verbatim>\<open>int\<close> is read with \<open>sint\<close>, \<^verbatim>\<open>uint64\<close> with
  \<open>uint\<close>.
\<close>

section \<open>Types\<close>

type_synonym bytes = string
type_synonym go_int = "64 word"
type_synonym uint64 = "64 word"

text \<open>
  What a read from a connection can report besides data: the end of the stream, a
  stream that ended in the middle of a fixed-length read, or any other transport error.
\<close>

datatype io_error = EOF | UnexpectedEOF | TransportError string

text \<open>
  How a call that returns a Go \<^verbatim>\<open>error\<close> ends: \<^verbatim>\<open>nil\<close>, an error, or a run-time panic, which no
  caller in the program recovers from.
\<close>

datatype panic = IndexOutOfRange | MakeSliceOutOfRange

datatype 'e status = Success | Failure 'e | Panic panic

text \<open>
  The run-time's limit on one allocation of a 64-bit platform (48 address bits):
  \<^verbatim>\<open>make\<close> panics when the length is negative or the memory asked for exceeds it. Running out
  of memory below that limit is not modelled.
\<close>

definition maxAlloc :: int where
  "maxAlloc = 2 ^ 48"

definition make_ok :: "int \<Rightarrow> go_int \<Rightarrow> bool" where
  "make_ok elem_size n \<longleftrightarrow> 0 \<le> sint n \<and> elem_size * sint n \<le> maxAlloc"

section \<open>Collections of facts\<close>

named_theorems resp_text \<open>unfolding rules of the RESP text builders\<close>
named_theorems parser_steps \<open>one-step rules of the RESP parser\<close>
named_theorems db_simps \<open>effect of one store operation on a lookup\<close>
named_theorems utf8_simps \<open>decoding and encoding of runes\<close>

section \<open>Byte strings\<close>

definition Separator :: bytes where
  "Separator = [CHR 0x0D, CHR 0x0A]"

abbreviation LF :: char where
  "LF \<equiv> CHR 0x0A"

definition HasSuffix :: "bytes \<Rightarrow> bytes \<Rightarrow> bool" where
  "HasSuffix s suf \<longleftrightarrow> length suf \<le> length s \<and> drop (length s - length suf) s = suf"

definition TrimSuffix :: "bytes \<Rightarrow> bytes \<Rightarrow> bytes" where
  "TrimSuffix s suf = (if HasSuffix s suf then take (length s - length suf) s else s)"

definition HasPrefix :: "bytes \<Rightarrow> bytes \<Rightarrow> bool" where
  "HasPrefix s pre \<longleftrightarrow> take (length pre) s = pre"

definition is_digit :: "char \<Rightarrow> bool" where
  "is_digit c \<longleftrightarrow> 48 \<le> (of_char c :: nat) \<and> (of_char c :: nat) \<le> 57"

lemma HasSuffix_append [simp]: "HasSuffix (s @ suf) suf"
  by (simp add: HasSuffix_def)

lemma TrimSuffix_append [simp]: "TrimSuffix (s @ suf) suf = s"
  by (simp add: TrimSuffix_def)

lemma HasSuffix_iff: "HasSuffix s suf \<longleftrightarrow> (\<exists>t. s = t @ suf)"
proof
  assume "HasSuffix s suf"
  then have "s = take (length s - length suf) s @ suf"
    unfolding HasSuffix_def by (metis append_take_drop_id)
  then show "\<exists>t. s = t @ suf" ..
qed auto

lemma HasPrefix_append [simp]: "HasPrefix (pre @ s) pre"
  by (simp add: HasPrefix_def)

lemma HasPrefix_iff: "HasPrefix s pre \<longleftrightarrow> (\<exists>t. s = pre @ t)"
  by (metis HasPrefix_append HasPrefix_def append_take_drop_id)

lemma length_Separator [simp]: "length Separator = 2"
  by (simp add: Separator_def)

lemma LF_not_digit [simp]: "\<not> is_digit LF"
  by (simp add: is_digit_def)

section \<open>Lists\<close>

lemma takeWhile_append_stop:
  "(\<And>x. x \<in> set xs \<Longrightarrow> P x) \<Longrightarrow> \<not> P y \<Longrightarrow> takeWhile P (xs @ y # ys) = xs"
  by (induction xs) auto

lemma dropWhile_append_stop:
  "(\<And>x. x \<in> set xs \<Longrightarrow> P x) \<Longrightarrow> \<not> P y \<Longrightarrow> dropWhile P (xs @ y # ys) = y # ys"
  by (induction xs) auto

lemma list_update_append_Cons [simp]: "(xs @ y # ys)[length xs := v] = xs @ v # ys"
  by (induction xs) auto

section \<open>Words\<close>

lemma sint_word_of_int_64:
  "- (2 ^ 63) \<le> i \<Longrightarrow> i < 2 ^ 63 \<Longrightarrow> sint (word_of_int i :: 64 word) = i"
  by (simp add: int_word_sint)

lemma sint_64_bounds: "- (2 ^ 63) \<le> sint (w :: 64 word)" "sint (w :: 64 word) < 2 ^ 63"
  using sint_range_size [of w] by (simp_all add: word_size)

lemma sint_eq_iff_64: "(a :: 64 word) = b \<longleftrightarrow> sint a = sint b"
  by (auto dest: arg_cong [where f = "word_of_int :: int \<Rightarrow> 64 word"])

end
