(* ===== verification/Strconv.thy ===== *)
theory Strconv
  imports Prelude
begin

text \<open>
  The decimal conversions of Go's \<^verbatim>\<open>strconv\<close> that the program uses: \<^verbatim>\<open>Itoa\<close> prints an
  \<^verbatim>\<open>int\<close> (also \<^verbatim>\<open>%d\<close> of \<^verbatim>\<open>fmt\<close>), \<^verbatim>\<open>Atoi\<close> reads one and reports an error on an empty or
  non-decimal text and on a value outside the 64-bit range. The lemmas give the round trip
  in both directions and the canonical form of printed numbers.
\<close>

section \<open>Printing\<close>

definition digit_char :: "nat \<Rightarrow> char" where
  "digit_char d = char_of (48 + d)"

fun show_nat :: "nat \<Rightarrow> string" where
  "show_nat n = (if n < 10 then [digit_char n] else show_nat (n div 10) @ [digit_char (n mod 10)])"

declare show_nat.simps [simp del]

definition show_int :: "int \<Rightarrow> string" where
  "show_int i = (if i < 0 then CHR ''-'' # show_nat (nat (- i)) else show_nat (nat i))"

definition Itoa :: "go_int \<Rightarrow> string" where
  "Itoa w = show_int (sint w)"

section \<open>Reading\<close>

definition digit_val :: "char \<Rightarrow> nat" where
  "digit_val c = of_char c - 48"

definition digits_val :: "string \<Rightarrow> nat" where
  "digits_val ds = foldl (\<lambda>n c. n * 10 + digit_val c) 0 ds"

definition parse_digits :: "string \<Rightarrow> nat option" where
  "parse_digits ds = (if ds \<noteq> [] \<and> list_all is_digit ds then Some (digits_val ds) else None)"

definition parse_int :: "string \<Rightarrow> int option" where
  "parse_int s =
     (case s of
        [] \<Rightarrow> None
      | c # cs \<Rightarrow>
          if c = CHR ''-'' then map_option (\<lambda>n. - int n) (parse_digits cs)
          else if c = CHR ''+'' then map_option int (parse_digits cs)
          else map_option int (parse_digits s))"

definition in_int64 :: "int \<Rightarrow> bool" where
  "in_int64 i \<longleftrightarrow> - (2 ^ 63) \<le> i \<and> i < 2 ^ 63"

definition Atoi :: "string \<Rightarrow> go_int option" where
  "Atoi s =
     (case parse_int s of
        None \<Rightarrow> None
      | Some i \<Rightarrow> if in_int64 i then Some (word_of_int i) else None)"

definition ParseUint64 :: "string \<Rightarrow> uint64 option" where
  "ParseUint64 s =
     (case parse_digits s of
        None \<Rightarrow> None
      | Some n \<Rightarrow> if n < 2 ^ 64 then Some (of_nat n) else None)"

section \<open>Digits\<close>

lemma of_char_digit_char: "d < 10 \<Longrightarrow> (of_char (digit_char d) :: nat) = 48 + d"
  by (simp add: digit_char_def)

lemma is_digit_digit_char [simp]: "d < 10 \<Longrightarrow> is_digit (digit_char d)"
  by (simp add: is_digit_def of_char_digit_char)

lemma digit_val_digit_char [simp]: "d < 10 \<Longrightarrow> digit_val (digit_char d) = d"
  by (simp add: digit_val_def of_char_digit_char)

lemma digit_val_less_10: "is_digit c \<Longrightarrow> digit_val c < 10"
  unfolding is_digit_def digit_val_def by linarith

lemma digits_val_snoc: "digits_val (ds @ [c]) = digits_val ds * 10 + digit_val c"
  by (simp add: digits_val_def)

lemma show_nat_digits: "list_all is_digit (show_nat n)"
proof (induction n rule: show_nat.induct)
  case (1 n)
  then show ?case by (subst show_nat.simps) simp
qed

lemma show_nat_not_Nil [simp]: "show_nat n \<noteq> []"
  by (subst show_nat.simps) simp

lemma digits_val_show_nat [simp]: "digits_val (show_nat n) = n"
proof (induction n rule: show_nat.induct)
  case (1 n)
  show ?case
  proof (cases "n < 10")
    case True
    then show ?thesis by (subst show_nat.simps) (simp add: digits_val_def)
  next
    case False
    with "1.IH" have "digits_val (show_nat (n div 10)) = n div 10" by simp
    with False show ?thesis
      by (subst show_nat.simps) (simp add: digits_val_snoc)
  qed
qed

lemma show_nat_inj: "show_nat m = show_nat n \<longleftrightarrow> m = n"
  by (metis digits_val_show_nat)

lemma parse_digits_show_nat [simp]: "parse_digits (show_nat n) = Some n"
  by (simp add: parse_digits_def show_nat_digits)

lemma set_show_nat_digit: "c \<in> set (show_nat n) \<Longrightarrow> is_digit c"
  using show_nat_digits [of n] by (auto simp: list_all_iff)

lemma minus_not_digit: "\<not> is_digit (CHR ''-'')" "\<not> is_digit (CHR ''+'')"
  by (simp_all add: is_digit_def)

lemma parse_int_show_nat: "parse_int (show_nat n) = Some (int n)"
proof -
  obtain c cs where eq: "show_nat n = c # cs"
    by (cases "show_nat n") auto
  then have "is_digit c" using set_show_nat_digit [of c n] by simp
  then have "c \<noteq> CHR ''-''" "c \<noteq> CHR ''+''" using minus_not_digit by auto
  with eq have "parse_int (show_nat n) = map_option int (parse_digits (show_nat n))"
    by (simp add: parse_int_def)
  then show ?thesis by simp
qed

lemma parse_int_show_int: "parse_int (show_int i) = Some i"
proof (cases "i < 0")
  case True
  then show ?thesis by (simp add: show_int_def parse_int_def)
next
  case False
  then show ?thesis by (simp add: show_int_def parse_int_show_nat)
qed

lemma set_show_int: "c \<in> set (show_int i) \<Longrightarrow> is_digit c \<or> c = CHR ''-''"
  by (auto simp: show_int_def set_show_nat_digit split: if_splits)

lemma show_int_not_Nil [simp]: "show_int i \<noteq> []"
  by (simp add: show_int_def)

section \<open>Round trips\<close>

lemma Atoi_show_int: "in_int64 i \<Longrightarrow> Atoi (show_int i) = Some (word_of_int i)"
  by (simp add: Atoi_def parse_int_show_int)

lemma in_int64_sint [simp]: "in_int64 (sint (w :: go_int))"
  by (simp add: in_int64_def sint_64_bounds [simplified])

lemma Atoi_Itoa [simp]: "Atoi (Itoa w) = Some w"
  by (simp add: Itoa_def Atoi_show_int)

lemma Atoi_show_nat: "n < 2 ^ 63 \<Longrightarrow> Atoi (show_nat n) = Some (word_of_nat n)"
  by (simp add: Atoi_def parse_int_show_nat in_int64_def)

lemma Itoa_inj: "Itoa v = Itoa w \<longleftrightarrow> v = w"
  by (metis Atoi_Itoa option.inject)

lemma Atoi_SomeD: "Atoi s = Some w \<Longrightarrow> \<exists>i. parse_int s = Some i \<and> in_int64 i \<and> sint w = i"
  by (auto simp: Atoi_def in_int64_def sint_word_of_int_64 split: option.splits if_splits)

lemma ParseUint64_show_nat: "n < 2 ^ 64 \<Longrightarrow> ParseUint64 (show_nat n) = Some (of_nat n)"
  by (simp add: ParseUint64_def)

end
