(* ===== verification/Parser.thy ===== *)
theory Parser
  imports RespUtil
begin

text \<open>
  The request parser of \<^verbatim>\<open>src/resp/parser.go\<close>. A \<open>reader\<close> is what the buffered reader over a
  connection still delivers: the bytes to come and the error it reports once they are used
  up. The parser keeps a \<open>ParserContext\<close>; each branch of \<^verbatim>\<open>ParseRESPCommand\<close> is one definition,
  and \<open>ParseRESPCommand\<close> dispatches on the context's state as the source's switch does.

  Lemmas: what one header line does, that every successful element consumes input (which gives
  the termination of the array loop), the context invariant, and the round trip with
  \<^verbatim>\<open>BuildArray\<close>.
\<close>

section \<open>The buffered reader\<close>

record reader =
  rbuf :: bytes
  rfail :: io_error

definition ReadBytes :: "char \<Rightarrow> reader \<Rightarrow> (io_error + bytes) \<times> reader" where
  "ReadBytes delim r =
     (case dropWhile (\<lambda>c. c \<noteq> delim) (rbuf r) of
        [] \<Rightarrow> (Inl (rfail r), r\<lparr>rbuf := []\<rparr>)
      | d # rest \<Rightarrow> (Inr (takeWhile (\<lambda>c. c \<noteq> delim) (rbuf r) @ [d]), r\<lparr>rbuf := rest\<rparr>))"

definition ReadFull :: "nat \<Rightarrow> reader \<Rightarrow> (io_error + bytes) \<times> reader" where
  "ReadFull n r =
     (if n \<le> length (rbuf r) then (Inr (take n (rbuf r)), r\<lparr>rbuf := drop n (rbuf r)\<rparr>)
      else (Inl (if rbuf r \<noteq> [] \<and> rfail r = EOF then UnexpectedEOF else rfail r), r\<lparr>rbuf := []\<rparr>))"

section \<open>Context and errors\<close>

datatype parser_state = CommandStart | BulkStringLen | BulkStringBody | ArrayState

record ParserContext =
  CmdArgs :: "bytes list option"
  index :: int
  bulkStrLen :: go_int
  state :: parser_state

datatype parse_error =
    ReadError io_error
  | CommandTooShort nat
  | ExpectingSeparator
  | BadLength bytes
  | InvalidArrayLength go_int
  | ExpectingArray bytes
  | ExpectingLongerArray bytes
  | UnknownTypePrefix char

definition Reset :: "ParserContext \<Rightarrow> ParserContext" where
  "Reset ctx = ctx\<lparr>bulkStrLen := -1, CmdArgs := None, index := -1, state := CommandStart\<rparr>"

definition InitParserContext :: ParserContext where
  "InitParserContext = \<lparr>CmdArgs = None, index = 0, bulkStrLen = 0, state = CommandStart\<rparr>"

definition initCmdArgs :: "go_int \<Rightarrow> ParserContext \<Rightarrow> parse_error status \<times> ParserContext" where
  "initCmdArgs len ctx =
     (if sint len < 0 then (Failure (InvalidArrayLength len), ctx)
      else if \<not> make_ok 16 len then (Panic MakeSliceOutOfRange, ctx)
      else (Success, ctx\<lparr>CmdArgs := Some (replicate (nat (sint len)) []), index := 0\<rparr>))"

definition setArg :: "bytes \<Rightarrow> ParserContext \<Rightarrow> parse_error status \<times> ParserContext" where
  "setArg arg ctx =
     (case CmdArgs ctx of
        None \<Rightarrow> (Failure (ExpectingArray arg), ctx)
      | Some args \<Rightarrow>
          if int (length args) \<le> index ctx then (Failure (ExpectingLongerArray arg), ctx)
          else if index ctx < 0 then (Panic IndexOutOfRange, ctx)
          else (Success, ctx\<lparr>CmdArgs := Some (args[nat (index ctx) := arg]), index := index ctx + 1\<rparr>))"

section \<open>Lines and bodies\<close>

definition readNextCmd :: "reader \<Rightarrow> (parse_error + bytes) \<times> reader" where
  "readNextCmd r =
     (case ReadBytes LF r of
        (Inl e, r') \<Rightarrow> (Inl (ReadError e), r')
      | (Inr cmd, r') \<Rightarrow>
          if length cmd < 4 then (Inl (CommandTooShort (length cmd)), r')
          else if \<not> HasSuffix cmd Separator then (Inl ExpectingSeparator, r')
          else (Inr (TrimSuffix cmd Separator), r'))"

definition readNextCmdFixedLength :: "go_int \<Rightarrow> reader \<Rightarrow> (parse_error status + bytes) \<times> reader" where
  "readNextCmdFixedLength len r =
     (if \<not> make_ok 1 (len + 2) then (Inl (Panic MakeSliceOutOfRange), r)
      else
        (case ReadFull (nat (sint (len + 2))) r of
           (Inl e, r') \<Rightarrow> (Inl (Failure (ReadError e)), r')
         | (Inr cmd, r') \<Rightarrow>
             if length cmd < 2 then (Inl (Failure (CommandTooShort (length cmd))), r')
             else if \<not> HasSuffix cmd Separator then (Inl (Failure ExpectingSeparator), r')
             else (Inr (TrimSuffix cmd Separator), r')))"

definition getLengthInHeader :: "bytes \<Rightarrow> go_int option" where
  "getLengthInHeader cmd = Atoi (tl cmd)"

definition readCommandStart :: "bytes \<Rightarrow> ParserContext \<Rightarrow> parse_error status \<times> ParserContext" where
  "readCommandStart cmd ctx =
     (case cmd of
        [] \<Rightarrow> (Panic IndexOutOfRange, ctx)
      | cmdType # _ \<Rightarrow>
          if cmdType = CHR ''$'' then
            (case getLengthInHeader cmd of
               None \<Rightarrow> (Failure (BadLength cmd), ctx)
             | Some len \<Rightarrow> (Success, ctx\<lparr>bulkStrLen := len, state := BulkStringBody\<rparr>))
          else if cmdType = CHR ''*'' then
            (case getLengthInHeader cmd of
               None \<Rightarrow> (Failure (BadLength cmd), ctx)
             | Some len \<Rightarrow>
                 (case initCmdArgs len ctx of
                    (Success, ctx') \<Rightarrow> (Success, ctx'\<lparr>state := ArrayState\<rparr>)
                  | other \<Rightarrow> other))
          else (Failure (UnknownTypePrefix cmdType), ctx))"

section \<open>The branches of the switch\<close>

type_synonym parse_result = "parse_error status \<times> reader \<times> ParserContext"

definition parse_body :: "reader \<Rightarrow> ParserContext \<Rightarrow> parse_result" where
  "parse_body r ctx =
     (case readNextCmdFixedLength (bulkStrLen ctx) r of
        (Inl st, r') \<Rightarrow> (st, r', ctx)
      | (Inr cmd, r') \<Rightarrow> (case setArg cmd ctx of (st, ctx') \<Rightarrow> (st, r', ctx')))"

definition parse_len :: "reader \<Rightarrow> ParserContext \<Rightarrow> parse_result" where
  "parse_len r ctx =
     (case readNextCmd r of
        (Inl e, r') \<Rightarrow> (Failure e, r', ctx)
      | (Inr cmd, r') \<Rightarrow>
          (case readCommandStart cmd ctx of
             (st, ctx') \<Rightarrow>
               if st \<noteq> Success \<or> sint (bulkStrLen ctx') \<le> 0 \<or> state ctx' \<noteq> BulkStringBody
               then (st, r', ctx')
               else parse_body r' ctx'))"

section \<open>Every element consumes input\<close>

lemma ReadBytes_rfail [simp]: "rfail (snd (ReadBytes d r)) = rfail r"
  by (simp add: ReadBytes_def split: list.splits)

lemma ReadFull_rfail [simp]: "rfail (snd (ReadFull n r)) = rfail r"
  by (simp add: ReadFull_def)

lemma readNextCmd_rfail [simp]: "rfail (snd (readNextCmd r)) = rfail r"
  by (auto simp: readNextCmd_def ReadBytes_def split: list.splits)

lemma readNextCmdFixedLength_rfail [simp]: "rfail (snd (readNextCmdFixedLength n r)) = rfail r"
  by (auto simp: readNextCmdFixedLength_def ReadFull_def)

lemma length_dropWhile_Cons: "dropWhile P xs = y # ys \<Longrightarrow> length ys < length xs"
  by (metis Suc_le_eq length_Cons length_dropWhile_le)

lemma ReadBytes_consumes: "rbuf r \<noteq> [] \<Longrightarrow> length (rbuf (snd (ReadBytes d r))) < length (rbuf r)"
  by (auto simp: ReadBytes_def dest: length_dropWhile_Cons split: list.splits)

lemma ReadBytes_Nil: "rbuf r = [] \<Longrightarrow> ReadBytes d r = (Inl (rfail r), r)"
  by (simp add: ReadBytes_def)

lemma readNextCmd_consumes: "rbuf r \<noteq> [] \<Longrightarrow> length (rbuf (snd (readNextCmd r))) < length (rbuf r)"
  using ReadBytes_consumes [of r LF] by (auto simp: readNextCmd_def split: prod.splits sum.splits)

lemma readNextCmd_Nil: "rbuf r = [] \<Longrightarrow> readNextCmd r = (Inl (ReadError (rfail r)), r)"
  by (simp add: readNextCmd_def ReadBytes_Nil)

lemma readNextCmd_Inr_consumes: "readNextCmd r = (Inr cmd, r') \<Longrightarrow> length (rbuf r') < length (rbuf r)"
  using readNextCmd_consumes [of r] readNextCmd_Nil [of r] by (cases "rbuf r = []") auto

lemma readNextCmdFixedLength_le: "length (rbuf (snd (readNextCmdFixedLength n r))) \<le> length (rbuf r)"
  by (auto simp: readNextCmdFixedLength_def ReadFull_def)

lemma parse_body_le: "length (rbuf (fst (snd (parse_body r ctx)))) \<le> length (rbuf r)"
  using readNextCmdFixedLength_le [of "bulkStrLen ctx" r]
  by (auto simp: parse_body_def split: prod.splits sum.splits)

lemma parse_len_consumes:
  assumes "parse_len r ctx = (Success, r', ctx')"
  shows "length (rbuf r') < length (rbuf r)"
proof -
  obtain cmd r1 where line: "readNextCmd r = (Inr cmd, r1)"
    using assms by (auto simp: parse_len_def split: prod.splits sum.splits)
  have "length (rbuf r') \<le> length (rbuf r1)"
    using assms line parse_body_le [of r1 "snd (readCommandStart cmd ctx)"]
    by (auto simp: parse_len_def split: prod.splits if_splits)
  with readNextCmd_Inr_consumes [OF line] show ?thesis by linarith
qed

section \<open>The array loop and the dispatch\<close>

definition len_args :: "ParserContext \<Rightarrow> nat" where
  "len_args ctx = (case CmdArgs ctx of None \<Rightarrow> 0 | Some args \<Rightarrow> length args)"

function parse_array :: "nat \<Rightarrow> reader \<Rightarrow> ParserContext \<Rightarrow> parse_result" where
  "parse_array i r ctx =
     (if i < len_args ctx then
        (case parse_len r (ctx\<lparr>state := BulkStringLen\<rparr>) of
           (Success, r', ctx') \<Rightarrow> parse_array (Suc i) r' ctx'
         | other \<Rightarrow> other)
      else (Success, r, ctx))"
  by pat_completeness auto
termination
  by (relation "measure (\<lambda>(i, r, ctx). length (rbuf r))") (auto dest: parse_len_consumes [OF sym])

declare parse_array.simps [simp del]

definition parse_start :: "reader \<Rightarrow> ParserContext \<Rightarrow> parse_result" where
  "parse_start r ctx =
     (case readNextCmd r of
        (Inl e, r') \<Rightarrow> (Failure e, r', ctx)
      | (Inr cmd, r') \<Rightarrow>
          (case readCommandStart cmd ctx of
             (Success, ctx') \<Rightarrow> (if state ctx' = BulkStringBody then parse_body r' ctx' else parse_array 0 r' ctx')
           | (st, ctx') \<Rightarrow> (st, r', ctx')))"

definition ParseRESPCommand :: "reader \<Rightarrow> ParserContext \<Rightarrow> parse_result" where
  "ParseRESPCommand r ctx =
     (case state ctx of
        CommandStart \<Rightarrow> parse_start r ctx
      | BulkStringLen \<Rightarrow> parse_len r ctx
      | BulkStringBody \<Rightarrow> parse_body r ctx
      | ArrayState \<Rightarrow> parse_array 0 r ctx)"

text \<open>
  The recursive calls of the source: after a header has been read at \<^verbatim>\<open>CommandStart\<close> or
  \<^verbatim>\<open>BulkStringLen\<close>, \<^verbatim>\<open>ParseRESPCommand\<close> calls itself on the new state.
\<close>

lemma readCommandStart_state:
  "readCommandStart cmd ctx = (Success, ctx') \<Longrightarrow> state ctx' \<in> {BulkStringBody, ArrayState}"
  by (auto simp: readCommandStart_def split: list.splits if_splits option.splits prod.splits status.splits)

lemma ParseRESPCommand_rec:
  "state ctx = CommandStart \<Longrightarrow>
   ParseRESPCommand r ctx =
     (case readNextCmd r of
        (Inl e, r') \<Rightarrow> (Failure e, r', ctx)
      | (Inr cmd, r') \<Rightarrow>
          (case readCommandStart cmd ctx of
             (Success, ctx') \<Rightarrow> ParseRESPCommand r' ctx'
           | (st, ctx') \<Rightarrow> (st, r', ctx')))"
  by (auto simp: ParseRESPCommand_def parse_start_def dest: readCommandStart_state
      split: prod.splits sum.splits status.splits)

section \<open>The context invariant\<close>

definition parser_inv :: "ParserContext \<Rightarrow> bool" where
  "parser_inv ctx \<longleftrightarrow> (CmdArgs ctx \<noteq> None \<longrightarrow> 0 \<le> index ctx)"

definition inv_result :: "parse_result \<Rightarrow> bool" where
  "inv_result res \<longleftrightarrow>
     (case res of (st, r, ctx) \<Rightarrow> st \<noteq> Panic IndexOutOfRange \<and> (st = Success \<longrightarrow> parser_inv ctx))"

lemma parser_inv_Init [simp]: "parser_inv InitParserContext"
  by (simp add: parser_inv_def InitParserContext_def)

lemma parser_inv_Reset [simp]: "parser_inv (Reset ctx)"
  by (simp add: parser_inv_def Reset_def)

lemma parser_inv_state [simp]: "parser_inv (ctx\<lparr>state := s\<rparr>) = parser_inv ctx"
  by (simp add: parser_inv_def)

lemma setArg_inv:
  "parser_inv ctx \<Longrightarrow> setArg a ctx = (st, ctx') \<Longrightarrow> st \<noteq> Panic IndexOutOfRange \<and> parser_inv ctx'"
  by (auto simp: parser_inv_def setArg_def split: option.splits if_splits)

lemma readCommandStart_inv:
  "parser_inv ctx \<Longrightarrow> cmd \<noteq> [] \<Longrightarrow> readCommandStart cmd ctx = (st, ctx') \<Longrightarrow>
   st \<noteq> Panic IndexOutOfRange \<and> parser_inv ctx'"
  by (auto simp: parser_inv_def readCommandStart_def initCmdArgs_def
      split: list.splits if_splits option.splits)

lemma TrimSuffix_Separator_not_Nil:
  "4 \<le> length cmd \<Longrightarrow> TrimSuffix cmd Separator \<noteq> []"
  by (auto simp: TrimSuffix_def)

lemma readNextCmd_Inr_not_Nil: "readNextCmd r = (Inr cmd, r') \<Longrightarrow> cmd \<noteq> []"
  by (auto simp: readNextCmd_def TrimSuffix_Separator_not_Nil split: prod.splits sum.splits if_splits)

lemma readNextCmdFixedLength_no_index:
  "readNextCmdFixedLength n r = (Inl st, r') \<Longrightarrow> st \<noteq> Panic IndexOutOfRange \<and> st \<noteq> Success"
  by (auto simp: readNextCmdFixedLength_def split: prod.splits sum.splits if_splits)

lemma inv_result_simps [simp]:
  "inv_result (st, r, ctx) \<longleftrightarrow> st \<noteq> Panic IndexOutOfRange \<and> (st = Success \<longrightarrow> parser_inv ctx)"
  by (simp add: inv_result_def)

lemma header_inv:
  "parser_inv ctx \<Longrightarrow> readNextCmd r = (Inr cmd, r') \<Longrightarrow> readCommandStart cmd ctx = (st, ctx') \<Longrightarrow>
   st \<noteq> Panic IndexOutOfRange \<and> parser_inv ctx'"
  using readCommandStart_inv readNextCmd_Inr_not_Nil by blast

lemma parse_body_inv: "parser_inv ctx \<Longrightarrow> inv_result (parse_body r ctx)"
  by (auto simp: parse_body_def dest: setArg_inv readNextCmdFixedLength_no_index
      split: prod.splits sum.splits)

lemma parse_len_inv:
  assumes "parser_inv ctx"
  shows "inv_result (parse_len r ctx)"
proof (cases "fst (readNextCmd r)")
  case (Inl e)
  then show ?thesis by (auto simp: parse_len_def split: prod.splits)
next
  case (Inr cmd)
  then obtain r' st ctx' where *: "readNextCmd r = (Inr cmd, r')" "readCommandStart cmd ctx = (st, ctx')"
    by (metis prod.collapse)
  with header_inv [OF assms *] show ?thesis by (auto simp: parse_len_def parse_body_inv)
qed

lemma parse_array_inv: "parser_inv ctx \<Longrightarrow> inv_result (parse_array i r ctx)"
proof (induction i r ctx rule: parse_array.induct)
  case (1 i r ctx)
  have step: "inv_result (parse_len r (ctx\<lparr>state := BulkStringLen\<rparr>))"
    using 1(2) by (simp add: parse_len_inv)
  show ?case
  proof (cases "parse_len r (ctx\<lparr>state := BulkStringLen\<rparr>)")
    case (fields st r' ctx')
    with step 1 show ?thesis
      by (subst parse_array.simps) (auto simp: inv_result_def split: status.splits)
  qed
qed

lemma parse_start_inv:
  assumes "parser_inv ctx"
  shows "inv_result (parse_start r ctx)"
proof (cases "fst (readNextCmd r)")
  case (Inl e)
  then show ?thesis by (auto simp: parse_start_def split: prod.splits)
next
  case (Inr cmd)
  then obtain r' st ctx' where *: "readNextCmd r = (Inr cmd, r')" "readCommandStart cmd ctx = (st, ctx')"
    by (metis prod.collapse)
  with header_inv [OF assms *] show ?thesis
    by (cases st) (auto simp: parse_start_def parse_body_inv parse_array_inv)
qed

lemma ParseRESPCommand_inv: "parser_inv ctx \<Longrightarrow> inv_result (ParseRESPCommand r ctx)"
  by (simp add: ParseRESPCommand_def parse_start_inv parse_len_inv parse_body_inv parse_array_inv
      split: parser_state.splits)

section \<open>The reader only moves forward\<close>

definition forward :: "reader \<Rightarrow> reader \<Rightarrow> bool" where
  "forward r r' \<longleftrightarrow> rfail r' = rfail r \<and> suffix (rbuf r') (rbuf r)"

lemma forward_refl [simp]: "forward r r"
  by (simp add: forward_def)

lemma forward_trans: "forward r r' \<Longrightarrow> forward r' r'' \<Longrightarrow> forward r r''"
  by (auto simp: forward_def intro: suffix_order.trans)

lemma suffix_dropWhile_Cons: "dropWhile P xs = y # ys \<Longrightarrow> suffix ys xs"
  by (metis append.assoc append_Cons append_Nil suffix_def takeWhile_dropWhile_id)

lemma ReadBytes_forward: "forward r (snd (ReadBytes d r))"
  by (simp add: ReadBytes_def forward_def suffix_dropWhile_Cons split: list.split)

lemma readNextCmd_forward: "readNextCmd r = (res, r') \<Longrightarrow> forward r r'"
  using ReadBytes_forward [of r LF]
  by (auto simp: readNextCmd_def split: prod.splits sum.splits if_splits)

lemma readNextCmdFixedLength_forward: "readNextCmdFixedLength n r = (res, r') \<Longrightarrow> forward r r'"
  by (auto simp: readNextCmdFixedLength_def ReadFull_def forward_def suffix_drop
      split: prod.splits sum.splits if_splits)

lemma parse_body_forward: "parse_body r ctx = (st, r', ctx') \<Longrightarrow> forward r r'"
  by (auto simp: parse_body_def dest: readNextCmdFixedLength_forward split: prod.splits sum.splits)

lemma parse_len_forward:
  assumes "parse_len r ctx = (st, r', ctx')"
  shows "forward r r'"
proof -
  obtain res r1 st1 c1 where l: "readNextCmd r = (res, r1)"
    and h: "readCommandStart (projr res) ctx = (st1, c1)" by (metis prod.exhaust)
  with assms have "forward r1 r'"
    by (cases res) (auto simp: parse_len_def intro: parse_body_forward split: if_splits)
  with readNextCmd_forward [OF l] show ?thesis by (rule forward_trans)
qed

lemma parse_array_forward: "parse_array i r ctx = (st, r', ctx') \<Longrightarrow> forward r r'"
proof (induction i r ctx arbitrary: st r' ctx' rule: parse_array.induct)
  case (1 i r ctx)
  obtain st1 r1 c1 where l: "parse_len r (ctx\<lparr>state := BulkStringLen\<rparr>) = (st1, r1, c1)"
    by (metis prod_cases3)
  note f = parse_len_forward [OF l]
  show ?case
  proof (cases "i < len_args ctx \<and> st1 = Success")
    case True
    then have "parse_array (Suc i) r1 c1 = (st, r', ctx')"
      using "1.prems" l by (subst (asm) parse_array.simps) simp
    with "1.IH" True l have "forward r1 r'" by simp
    with f show ?thesis by (rule forward_trans)
  next
    case False
    then show ?thesis
      using "1.prems" l f by (subst (asm) parse_array.simps) (auto split: if_splits status.splits)
  qed
qed

lemma parse_start_forward:
  assumes "parse_start r ctx = (st, r', ctx')"
  shows "\<exists>res r1. readNextCmd r = (res, r1) \<and> forward r1 r'"
  using assms unfolding parse_start_def
  by (auto dest: parse_body_forward parse_array_forward split: prod.splits sum.splits status.splits if_splits)

lemma suffix_length_less: "suffix xs ys \<Longrightarrow> length ys < n \<Longrightarrow> length xs < (n :: nat)"
  by (meson leD le_less_linear order_trans suffix_length_le)

lemma ParseRESPCommand_progress:
  assumes "state ctx = CommandStart" "ParseRESPCommand r ctx = (st, r', ctx')" "rbuf r \<noteq> []"
  shows "rfail r' = rfail r \<and> length (rbuf r') < length (rbuf r)"
proof -
  from assms obtain res r1 where l: "readNextCmd r = (res, r1)" and f: "forward r1 r'"
    using parse_start_forward by (fastforce simp: ParseRESPCommand_def)
  then show ?thesis
    using readNextCmd_consumes [OF assms(3)] readNextCmd_forward [OF l]
    by (auto simp: forward_def suffix_length_less)
qed

lemma ParseRESPCommand_at_end:
  "state ctx = CommandStart \<Longrightarrow> rbuf r = [] \<Longrightarrow>
   ParseRESPCommand r ctx = (Failure (ReadError (rfail r)), r, ctx)"
  by (simp add: ParseRESPCommand_def parse_start_def readNextCmd_Nil)

section \<open>Well-formed input\<close>

lemma LF_notin_show_nat [simp]: "LF \<notin> set (show_nat n)"
  using set_show_nat_digit [of LF n] by auto

lemma LF_notin_show_int [simp]: "LF \<notin> set (show_int i)"
  using set_show_int [of LF i] by auto

lemma readNextCmd_header [parser_steps]:
  assumes "LF \<notin> set h" "2 \<le> length h"
  shows "readNextCmd \<lparr>rbuf = h @ Separator @ rest, rfail = e\<rparr> = (Inr h, \<lparr>rbuf = rest, rfail = e\<rparr>)"
proof -
  let ?line = "h @ [CHR 0x0D]"
  have buf: "h @ Separator @ rest = ?line @ LF # rest" by (simp add: Separator_def)
  have tw: "takeWhile (\<lambda>c. c \<noteq> LF) (?line @ LF # rest) = ?line"
    and dw: "dropWhile (\<lambda>c. c \<noteq> LF) (?line @ LF # rest) = LF # rest"
    by (rule takeWhile_append_stop dropWhile_append_stop; use assms(1) in auto)+
  have "h @ [CHR 0x0D, LF] = h @ Separator" by (simp add: Separator_def)
  with assms(2) show ?thesis
    unfolding buf by (simp add: readNextCmd_def ReadBytes_def tw dw del: append_assoc) (simp add: TrimSuffix_append)
qed

lemma readNextCmd_header_Cons [parser_steps]:
  "LF \<notin> set h \<Longrightarrow> c \<noteq> LF \<Longrightarrow> h \<noteq> [] \<Longrightarrow>
   readNextCmd \<lparr>rbuf = c # h @ Separator @ rest, rfail = e\<rparr> = (Inr (c # h), \<lparr>rbuf = rest, rfail = e\<rparr>)"
  using readNextCmd_header [of "c # h" rest e] by (cases h) auto

definition sendable :: "bytes \<Rightarrow> bool" where
  \<comment> \<open>an argument the parser can take: not empty, and its body fits in one allocation\<close>
  "sendable a \<longleftrightarrow> a \<noteq> [] \<and> int (length a) + 2 \<le> maxAlloc"

definition sendable_args :: "bytes list \<Rightarrow> bool" where
  "sendable_args args \<longleftrightarrow> list_all sendable args \<and> 16 * int (length args) \<le> maxAlloc"

lemma sint_of_nat_64: "n < 2 ^ 63 \<Longrightarrow> sint (of_nat n :: 64 word) = int n"
  using sint_word_of_int_64 [of "int n"] by simp

lemma sint_of_nat_add2: "int n + 2 \<le> maxAlloc \<Longrightarrow> sint (of_nat n + 2 :: 64 word) = int n + 2"
  using sint_of_nat_64 [of "n + 2"] by (simp add: maxAlloc_def add.commute)

lemma readNextCmdFixedLength_body [parser_steps]:
  assumes "int (length a) + 2 \<le> maxAlloc"
  shows "readNextCmdFixedLength (of_nat (length a)) \<lparr>rbuf = a @ Separator @ rest, rfail = e\<rparr>
         = (Inr a, \<lparr>rbuf = rest, rfail = e\<rparr>)"
proof -
  have n: "sint (of_nat (length a) + 2 :: 64 word) = int (length a + 2)"
    using sint_of_nat_add2 [OF assms] by simp
  then have mk: "make_ok 1 (of_nat (length a) + 2)"
    using assms by (simp add: make_ok_def)
  have rd: "ReadFull (length a + 2) \<lparr>rbuf = a @ Separator @ rest, rfail = e\<rparr>
      = (Inr (a @ Separator), \<lparr>rbuf = rest, rfail = e\<rparr>)"
    by (simp add: ReadFull_def)
  show ?thesis
    unfolding readNextCmdFixedLength_def n nat_int rd using mk by simp
qed

lemma getLengthInHeader_show_nat [parser_steps]:
  "n < 2 ^ 63 \<Longrightarrow> getLengthInHeader (c # show_nat n) = Some (of_nat n)"
  by (simp add: getLengthInHeader_def Atoi_show_nat)

lemma parse_len_bulk [parser_steps]:
  assumes "sendable a" "CmdArgs ctx = Some args" "index ctx = int i" "i < length args"
  shows "parse_len \<lparr>rbuf = BuildBulkString (Some a) @ rest, rfail = e\<rparr> ctx =
    (Success, \<lparr>rbuf = rest, rfail = e\<rparr>,
     ctx\<lparr>bulkStrLen := of_nat (length a), state := BulkStringBody,
         CmdArgs := Some (args[i := a]), index := int (Suc i)\<rparr>)"
proof -
  have len: "length a < 2 ^ 63" "0 < length a" "int (length a) + 2 \<le> maxAlloc"
    using assms(1) by (auto simp: sendable_def maxAlloc_def)
  have pos: "\<not> sint (of_nat (length a) :: 64 word) \<le> 0"
    using len by (simp add: sint_of_nat_64)
  show ?thesis
    using assms(2-4) len pos
    by (simp add: parse_len_def BuildBulkString_Some parser_steps readCommandStart_def parse_body_def setArg_def)
qed

abbreviation bulks :: "bytes list \<Rightarrow> bytes" where
  "bulks args \<equiv> concat (map (\<lambda>v. BuildBulkString (Some v)) args)"

lemma parse_array_bulks:
  assumes "list_all sendable todo" "CmdArgs ctx = Some (acc @ replicate (length todo + k) [])"
    "index ctx = int (length acc)"
  shows "\<exists>ctx'. parse_array (length acc) \<lparr>rbuf = bulks todo @ rest, rfail = e\<rparr> ctx
      = parse_array (length (acc @ todo)) \<lparr>rbuf = rest, rfail = e\<rparr> ctx'
      \<and> CmdArgs ctx' = Some ((acc @ todo) @ replicate k []) \<and> index ctx' = int (length (acc @ todo))"
  using assms
proof (induction todo arbitrary: acc ctx)
  case Nil
  then show ?case by auto
next
  case (Cons a todo)
  let ?more = "bulks todo @ rest"
  let ?ctx = "ctx\<lparr>state := BulkStringBody, bulkStrLen := of_nat (length a),
     CmdArgs := Some ((acc @ [a]) @ replicate (length todo + k) []), index := int (length (acc @ [a]))\<rparr>"
  have upd: "(acc @ replicate (length (a # todo) + k) [])[length acc := a] = (acc @ [a]) @ replicate (length todo + k) []"
    by simp
  have "parse_len \<lparr>rbuf = BuildBulkString (Some a) @ ?more, rfail = e\<rparr> (ctx\<lparr>state := BulkStringLen\<rparr>) =
      (Success, \<lparr>rbuf = ?more, rfail = e\<rparr>, ?ctx)"
    using Cons.prems parse_len_bulk [of a "ctx\<lparr>state := BulkStringLen\<rparr>" _ "length acc" ?more e] upd by simp
  then have "parse_array (length acc) \<lparr>rbuf = bulks (a # todo) @ rest, rfail = e\<rparr> ctx
      = parse_array (length (acc @ [a])) \<lparr>rbuf = ?more, rfail = e\<rparr> ?ctx"
    using Cons.prems by (subst parse_array.simps) (simp add: len_args_def)
  with Cons.IH [of ?ctx "acc @ [a]"] Cons.prems show ?case by simp
qed

lemma parse_array_done: "len_args ctx \<le> i \<Longrightarrow> parse_array i r ctx = (Success, r, ctx)"
  by (subst parse_array.simps) simp

text \<open>The state after the array header of a request with \<open>n\<close> elements.\<close>

lemma ParseRESPCommand_array_header:
  assumes "state ctx = CommandStart" "16 * int n \<le> maxAlloc"
  shows "\<exists>ctx'. ParseRESPCommand \<lparr>rbuf = CHR ''*'' # show_nat n @ Separator @ rest, rfail = e\<rparr> ctx
      = parse_array 0 \<lparr>rbuf = rest, rfail = e\<rparr> ctx'
      \<and> CmdArgs ctx' = Some (replicate n []) \<and> index ctx' = 0"
proof -
  have n: "n < 2 ^ 63" using assms(2) by (simp add: maxAlloc_def)
  have sn: "sint (of_nat n :: 64 word) = int n" using n by (rule sint_of_nat_64)
  have "initCmdArgs (of_nat n) ctx = (Success, ctx\<lparr>CmdArgs := Some (replicate n []), index := 0\<rparr>)"
    using assms(2) by (simp add: initCmdArgs_def make_ok_def sn)
  then have "readCommandStart (CHR ''*'' # show_nat n) ctx =
      (Success, ctx\<lparr>CmdArgs := Some (replicate n []), index := 0, state := ArrayState\<rparr>)"
    using n by (simp add: readCommandStart_def parser_steps)
  with assms(1) have "ParseRESPCommand \<lparr>rbuf = CHR ''*'' # show_nat n @ Separator @ rest, rfail = e\<rparr> ctx
      = parse_array 0 \<lparr>rbuf = rest, rfail = e\<rparr>
          (ctx\<lparr>CmdArgs := Some (replicate n []), index := 0, state := ArrayState\<rparr>)"
    by (simp add: ParseRESPCommand_def parse_start_def parser_steps)
  then show ?thesis by - (rule exI, rule conjI, assumption, simp)
qed

lemma ParseRESPCommand_prefix:
  assumes "state ctx = CommandStart" "list_all sendable args" "16 * int (length args + k) \<le> maxAlloc"
  shows "\<exists>ctx'. ParseRESPCommand
      \<lparr>rbuf = CHR ''*'' # show_nat (length args + k) @ Separator @ bulks args @ rest, rfail = e\<rparr> ctx
      = parse_array (length args) \<lparr>rbuf = rest, rfail = e\<rparr> ctx'
      \<and> CmdArgs ctx' = Some (args @ replicate k []) \<and> index ctx' = int (length args)"
proof -
  obtain c1 where 1: "ParseRESPCommand
      \<lparr>rbuf = CHR ''*'' # show_nat (length args + k) @ Separator @ bulks args @ rest, rfail = e\<rparr> ctx
      = parse_array 0 \<lparr>rbuf = bulks args @ rest, rfail = e\<rparr> c1"
    "CmdArgs c1 = Some (replicate (length args + k) [])" "index c1 = 0"
    using ParseRESPCommand_array_header [OF assms(1,3)] by blast
  with parse_array_bulks [of args c1 "[]" k rest e] assms(2) show ?thesis by simp
qed

lemma ParseRESPCommand_BuildArray:
  assumes "state ctx = CommandStart" "sendable_args args"
  shows "\<exists>ctx'. ParseRESPCommand \<lparr>rbuf = BuildArray (Some args) @ rest, rfail = e\<rparr> ctx
    = (Success, \<lparr>rbuf = rest, rfail = e\<rparr>, ctx') \<and> CmdArgs ctx' = Some args"
proof -
  obtain ctx' where "ParseRESPCommand \<lparr>rbuf = BuildArray (Some args) @ rest, rfail = e\<rparr> ctx
      = parse_array (length args) \<lparr>rbuf = rest, rfail = e\<rparr> ctx'" "CmdArgs ctx' = Some args"
    using ParseRESPCommand_prefix [OF assms(1), of args 0 rest e] assms(2)
    by (auto simp: BuildArray_Some sendable_args_def)
  then show ?thesis by (simp add: parse_array_done len_args_def)
qed

lemma parse_len_empty_bulk:
  "parse_len \<lparr>rbuf = BuildBulkString (Some []) @ rest, rfail = e\<rparr> ctx =
    (Success, \<lparr>rbuf = Separator @ rest, rfail = e\<rparr>, ctx\<lparr>bulkStrLen := 0, state := BulkStringBody\<rparr>)"
  using getLengthInHeader_show_nat [of 0 "CHR ''$''"]
  by (simp add: parse_len_def BuildBulkString_Some parser_steps readCommandStart_def)

lemma ParseRESPCommand_last_empty:
  assumes "state ctx = CommandStart" "list_all sendable args" "16 * int (length args + 1) \<le> maxAlloc"
  shows "\<exists>ctx'. ParseRESPCommand \<lparr>rbuf = BuildArray (Some (args @ [[]])) @ rest, rfail = e\<rparr> ctx
    = (Success, \<lparr>rbuf = Separator @ rest, rfail = e\<rparr>, ctx') \<and> CmdArgs ctx' = Some (args @ [[]])"
proof -
  obtain c1 where c1: "ParseRESPCommand \<lparr>rbuf = BuildArray (Some (args @ [[]])) @ rest, rfail = e\<rparr> ctx
      = parse_array (length args) \<lparr>rbuf = BuildBulkString (Some []) @ rest, rfail = e\<rparr> c1"
    "CmdArgs c1 = Some (args @ [[]])"
    using ParseRESPCommand_prefix [OF assms, of "BuildBulkString (Some []) @ rest" e]
    by (auto simp: BuildArray_Some)
  show ?thesis
    unfolding c1(1) using c1(2)
    by (subst parse_array.simps) (simp add: len_args_def parse_len_empty_bulk parse_array_done)
qed

lemma parse_start_bulk_length:
  assumes "state ctx = CommandStart"
  shows "ParseRESPCommand \<lparr>rbuf = CHR ''$'' # Itoa n @ Separator @ rest, rfail = e\<rparr> ctx =
    parse_body \<lparr>rbuf = rest, rfail = e\<rparr> (ctx\<lparr>bulkStrLen := n, state := BulkStringBody\<rparr>)"
proof -
  have "readNextCmd \<lparr>rbuf = CHR ''$'' # Itoa n @ Separator @ rest, rfail = e\<rparr>
      = (Inr (CHR ''$'' # Itoa n), \<lparr>rbuf = rest, rfail = e\<rparr>)"
    by (rule readNextCmd_header_Cons) (simp_all add: Itoa_def)
  with assms show ?thesis
    by (simp add: ParseRESPCommand_def parse_start_def readCommandStart_def getLengthInHeader_def)
qed

lemma sint_add2_64:
  "sint (n + 2 :: 64 word) = (if sint n < 2 ^ 63 - 2 then sint n + 2 else sint n + 2 - 2 ^ 64)"
proof -
  have "sint (n + 2) = (sint n + 2 + 2 ^ 63) mod 2 ^ 64 - 2 ^ 63"
    using int_word_sint [of "sint n + 2", where 'a = 64] by (simp add: wi_hom_add [symmetric])
  moreover have "(sint n + 2 + 2 ^ 63) mod 2 ^ 64 =
      (if sint n < 2 ^ 63 - 2 then sint n + 2 + 2 ^ 63 else sint n + 2 + 2 ^ 63 - 2 ^ 64)"
    using sint_64_bounds [of n] mod_add_self2 [of "sint n + 2 + 2 ^ 63 - 2 ^ 64" "2 ^ 64"]
    by (auto simp: mod_pos_pos_trivial)
  ultimately show ?thesis by simp
qed

lemma make_ok_body: "make_ok 1 (n + 2) \<longleftrightarrow> -2 \<le> sint n \<and> sint n \<le> maxAlloc - 2"
  using sint_64_bounds [of n] by (auto simp: make_ok_def sint_add2_64 maxAlloc_def)

lemma ParseRESPCommand_blank_line:
  "state ctx = CommandStart \<Longrightarrow>
   fst (ParseRESPCommand \<lparr>rbuf = Separator @ rest, rfail = e\<rparr> ctx) = Failure (CommandTooShort 2)"
  by (simp add: ParseRESPCommand_def parse_start_def readNextCmd_def ReadBytes_def Separator_def)

lemma state_Reset [simp]: "state (Reset ctx) = CommandStart" "CmdArgs (Reset ctx) = None"
  by (simp_all add: Reset_def)

section \<open>Properties\<close>

text \<open>
  C3. Round trip of requests: what \<^verbatim>\<open>BuildArray\<close> prints for a list of nonempty arguments,
  \<^verbatim>\<open>ParseRESPCommand\<close> reads back as exactly that list, from any context at the start of a
  command, and it leaves exactly the bytes that follow the request in the reader, whatever they
  are.
\<close>

theorem request_roundtrip:
  assumes "sendable_args args" "state ctx = CommandStart"
  shows "\<exists>ctx'. ParseRESPCommand \<lparr>rbuf = BuildArray (Some args) @ rest, rfail = e\<rparr> ctx
    = (Success, \<lparr>rbuf = rest, rfail = e\<rparr>, ctx') \<and> CmdArgs ctx' = Some args"
  using ParseRESPCommand_BuildArray [OF assms(2,1)] .

theorem request_roundtrip_witness:
  "\<exists>ctx'. ParseRESPCommand \<lparr>rbuf = BuildArray (Some [''GET'', ''k'']) @ ''*1'', rfail = EOF\<rparr> InitParserContext
    = (Success, \<lparr>rbuf = ''*1'', rfail = EOF\<rparr>, ctx') \<and> CmdArgs ctx' = Some [''GET'', ''k'']"
  by (rule request_roundtrip) (simp_all add: sendable_args_def sendable_def maxAlloc_def InitParserContext_def)

text \<open>
  Progress: at the start of a command, with input available, \<^verbatim>\<open>ParseRESPCommand\<close> consumes at
  least one byte whatever its outcome (success, error or panic), and what it leaves is a suffix
  of the input. The connection loop therefore cannot spin on buffered input.
\<close>

lemma parser_progress:
  assumes "state ctx = CommandStart" "rbuf r \<noteq> []"
  shows "(case ParseRESPCommand r ctx of
      (st, r', ctx') \<Rightarrow> rfail r' = rfail r \<and> strict_suffix (rbuf r') (rbuf r))"
proof -
  obtain st r' ctx' where eq: "ParseRESPCommand r ctx = (st, r', ctx')" by (metis prod_cases3)
  then have start: "parse_start r ctx = (st, r', ctx')" using assms(1) by (simp add: ParseRESPCommand_def)
  obtain res r1 where "readNextCmd r = (res, r1)" "forward r1 r'"
    using parse_start_forward [OF start] by blast
  then have "forward r r'" using readNextCmd_forward forward_trans by blast
  with ParseRESPCommand_progress [OF assms(1) eq assms(2)] eq show ?thesis
    by (auto simp: forward_def strict_suffix_def)
qed

text \<open>
  Index safety: from a context in which an allocated argument array has a nonnegative
  index (the initial context, every reset context and every context the parser leaves behind
  on success), no input makes the parser index its arrays out of range, and the invariant is
  kept.
\<close>

lemma parser_index_safe:
  assumes "parser_inv ctx"
  shows "(case ParseRESPCommand r ctx of
      (st, r', ctx') \<Rightarrow> st \<noteq> Panic IndexOutOfRange \<and> (st = Success \<longrightarrow> parser_inv ctx'))"
  using ParseRESPCommand_inv [OF assms] by (auto simp: inv_result_def)

text \<open>
  C33. A bulk-string header outside an array crashes the server exactly when its announced length
  is below -2 or above the allocation limit: the length is passed to \<^verbatim>\<open>make\<close> unchecked, and nothing
  recovers from the panic.
\<close>

theorem bulk_header_panic:
  assumes "state ctx = CommandStart"
  shows "fst (ParseRESPCommand \<lparr>rbuf = CHR ''$'' # Itoa n @ Separator @ rest, rfail = e\<rparr> ctx)
      = Panic MakeSliceOutOfRange \<longleftrightarrow> sint n < -2 \<or> maxAlloc - 2 < sint n"
proof -
  let ?ctx = "ctx\<lparr>bulkStrLen := n, state := BulkStringBody\<rparr>"
  have "fst (parse_body \<lparr>rbuf = rest, rfail = e\<rparr> ?ctx) = Panic MakeSliceOutOfRange \<longleftrightarrow> \<not> make_ok 1 (n + 2)"
    by (auto simp: parse_body_def readNextCmdFixedLength_def setArg_def
        split: prod.splits sum.splits option.splits if_splits)
  then show ?thesis
    unfolding parse_start_bulk_length [OF assms] by (auto simp: make_ok_body)
qed

theorem bulk_header_panic_witness:
  "fst (ParseRESPCommand \<lparr>rbuf = CHR ''$'' # Itoa (-5) @ Separator @ [], rfail = EOF\<rparr> InitParserContext)
    = Panic MakeSliceOutOfRange"
  using bulk_header_panic [of InitParserContext "-5" "[]" EOF] by (simp add: InitParserContext_def)

text \<open>
  C34. An empty last argument desynchronises the connection: the request is accepted with the
  empty argument in place, but the terminator of its body stays in the reader, and the next
  command then starts on a blank line, which the parser rejects as too short.
\<close>

theorem empty_argument_desync:
  assumes "state ctx = CommandStart" "list_all sendable args" "16 * int (length args + 1) \<le> maxAlloc"
  shows "\<exists>ctx'. ParseRESPCommand \<lparr>rbuf = BuildArray (Some (args @ [[]])) @ rest, rfail = e\<rparr> ctx
      = (Success, \<lparr>rbuf = Separator @ rest, rfail = e\<rparr>, ctx')
    \<and> CmdArgs ctx' = Some (args @ [[]])
    \<and> fst (ParseRESPCommand \<lparr>rbuf = Separator @ rest, rfail = e\<rparr> (Reset ctx')) = Failure (CommandTooShort 2)"
  using ParseRESPCommand_last_empty [OF assms, of rest e] by (auto simp: ParseRESPCommand_blank_line)

theorem empty_argument_desync_witness:
  "\<exists>ctx'. ParseRESPCommand \<lparr>rbuf = BuildArray (Some ([''SET'', ''k''] @ [[]])) @ [], rfail = EOF\<rparr> InitParserContext
      = (Success, \<lparr>rbuf = Separator @ [], rfail = EOF\<rparr>, ctx')
    \<and> CmdArgs ctx' = Some ([''SET'', ''k''] @ [[]])
    \<and> fst (ParseRESPCommand \<lparr>rbuf = Separator @ [], rfail = EOF\<rparr> (Reset ctx')) = Failure (CommandTooShort 2)"
  by (rule empty_argument_desync) (simp_all add: sendable_def maxAlloc_def InitParserContext_def)

end
