(* ===== verification/Utf8.thy ===== *)
theory Utf8
  imports Strconv
begin

text \<open>
  UTF-8 as Go's \<^verbatim>\<open>unicode/utf8\<close> reads and writes it. A byte sequence is decoded rune by
  rune; a byte that starts no valid encoding counts as one rune \<^verbatim>\<open>U+FFFD\<close> of width 1.
  \<^verbatim>\<open>encoding/json\<close> coerces every string it writes this way (the function \<open>coerce\<close> below),
  which is what happens to a command or a key on its way through the Raft log or a
  snapshot. The lemmas show that \<open>coerce\<close> is the identity exactly on valid strings, that
  its results are valid, and that decoding inverts encoding.
\<close>

section \<open>Runes\<close>

abbreviation byte :: "char \<Rightarrow> nat" where
  "byte c \<equiv> of_char c"

definition RuneError :: nat where
  "RuneError = 65533"

definition scalar :: "nat \<Rightarrow> bool" where
  "scalar r \<longleftrightarrow> r < 55296 \<or> 57343 < r \<and> r < 1114112"

definition is_cont :: "nat \<Rightarrow> bool" where
  "is_cont b \<longleftrightarrow> 128 \<le> b \<and> b \<le> 191"

definition EncodeRune :: "nat \<Rightarrow> bytes" where
  "EncodeRune r =
     (if r < 128 then [char_of r]
      else if r < 2048 then [char_of (192 + r div 64), char_of (128 + r mod 64)]
      else if \<not> scalar r then [CHR 0xEF, CHR 0xBF, CHR 0xBD]
      else if r < 65536 then
        [char_of (224 + r div 4096), char_of (128 + r div 64 mod 64), char_of (128 + r mod 64)]
      else
        [char_of (240 + r div 262144), char_of (128 + r div 4096 mod 64),
         char_of (128 + r div 64 mod 64), char_of (128 + r mod 64)])"

definition second_ok :: "nat \<Rightarrow> nat \<Rightarrow> bool" where
  \<comment> \<open>the range the second byte must lie in, given the first\<close>
  "second_ok b0 b1 \<longleftrightarrow> is_cont b1 \<and>
     (b0 = 224 \<longrightarrow> 160 \<le> b1) \<and> (b0 = 237 \<longrightarrow> b1 \<le> 159) \<and>
     (b0 = 240 \<longrightarrow> 144 \<le> b1) \<and> (b0 = 244 \<longrightarrow> b1 \<le> 143)"

definition decode2 :: "nat \<Rightarrow> bytes \<Rightarrow> nat option" where
  "decode2 b0 t =
     (case t of
        c1 # _ \<Rightarrow> if second_ok b0 (byte c1) then Some ((b0 - 192) * 64 + (byte c1 - 128)) else None
      | _ \<Rightarrow> None)"

definition decode3 :: "nat \<Rightarrow> bytes \<Rightarrow> nat option" where
  "decode3 b0 t =
     (case t of
        c1 # c2 # _ \<Rightarrow>
          if second_ok b0 (byte c1) \<and> is_cont (byte c2)
          then Some ((b0 - 224) * 4096 + (byte c1 - 128) * 64 + (byte c2 - 128)) else None
      | _ \<Rightarrow> None)"

definition decode4 :: "nat \<Rightarrow> bytes \<Rightarrow> nat option" where
  "decode4 b0 t =
     (case t of
        c1 # c2 # c3 # _ \<Rightarrow>
          if second_ok b0 (byte c1) \<and> is_cont (byte c2) \<and> is_cont (byte c3)
          then Some ((b0 - 240) * 262144 + (byte c1 - 128) * 4096 + (byte c2 - 128) * 64 + (byte c3 - 128))
          else None
      | _ \<Rightarrow> None)"

definition DecodeRune :: "bytes \<Rightarrow> nat \<times> nat" where
  "DecodeRune s =
     (case s of
        [] \<Rightarrow> (RuneError, 0)
      | c0 # t \<Rightarrow>
          let b0 = byte c0; bad = (RuneError, 1) in
          if b0 < 128 then (b0, 1)
          else if 194 \<le> b0 \<and> b0 \<le> 223 then (case decode2 b0 t of None \<Rightarrow> bad | Some r \<Rightarrow> (r, 2))
          else if 224 \<le> b0 \<and> b0 \<le> 239 then (case decode3 b0 t of None \<Rightarrow> bad | Some r \<Rightarrow> (r, 3))
          else if 240 \<le> b0 \<and> b0 \<le> 244 then (case decode4 b0 t of None \<Rightarrow> bad | Some r \<Rightarrow> (r, 4))
          else bad)"

definition invalid_rune :: "nat \<times> nat \<Rightarrow> bool" where
  "invalid_rune x \<longleftrightarrow> x = (RuneError, 1)"

section \<open>Decoding inverts encoding\<close>

lemma byte_char_of: "n < 256 \<Longrightarrow> byte (char_of n) = n"
  by simp

lemma char_of_byte [simp]: "char_of (byte c) = c"
  by simp

lemma div64_decompose:
  "b < 64 \<Longrightarrow> (a * 64 + b) div 64 = (a :: nat)" "b < 64 \<Longrightarrow> (a * 64 + b) mod 64 = (b :: nat)"
  by simp_all

lemma div64_nested: "x div 4096 = x div 64 div (64 :: nat)" "x div 262144 = x div 64 div 64 div (64 :: nat)"
  by (simp_all add: div_mult2_eq [symmetric])

lemma div64_split: "(x :: nat) = x div 64 * 64 + x mod 64"
  by simp

lemma DecodeRune_Nil [simp]: "DecodeRune [] = (RuneError, 0)"
  by (simp add: DecodeRune_def)

lemma DecodeRune_ascii [utf8_simps]: "byte c < 128 \<Longrightarrow> DecodeRune (c # t) = (byte c, 1)"
  by (simp add: DecodeRune_def)

lemma Encode1: "r < 128 \<Longrightarrow> DecodeRune (EncodeRune r @ rest) = (r, 1)"
  by (simp add: EncodeRune_def DecodeRune_def)

lemma Encode2:
  assumes "128 \<le> r" "r < 2048"
  shows "DecodeRune (EncodeRune r @ rest) = (r, 2)"
proof -
  have b: "192 + r div 64 < 256" "128 + r mod 64 < 256" "194 \<le> 192 + r div 64" "192 + r div 64 \<le> 223"
    using assms div_le_mono [of 128 r 64] by (auto simp: less_mult_imp_div_less)
  have e: "EncodeRune r = [char_of (192 + r div 64), char_of (128 + r mod 64)]"
    using assms by (simp add: EncodeRune_def)
  have s: "second_ok (192 + r div 64) (128 + r mod 64)"
    using b by (simp add: second_ok_def is_cont_def)
  show ?thesis
    using b s unfolding e by (simp add: DecodeRune_def decode2_def byte_char_of)
qed

lemma Encode3:
  assumes "2048 \<le> r" "r < 65536" "scalar r"
  shows "DecodeRune (EncodeRune r @ rest) = (r, 3)"
proof -
  define q0 q1 q2 where q: "q0 = r div 4096" "q1 = r div 64 mod 64" "q2 = r mod 64"
  have r: "r = q0 * 4096 + q1 * 64 + q2"
    using div64_split [of r] div64_split [of "r div 64"] unfolding q div64_nested by linarith
  have b: "q0 < 16" "q1 < 64" "q2 < 64" using assms unfolding q by (auto simp: less_mult_imp_div_less)
  have s: "second_ok (224 + q0) (128 + q1)"
    using assms b unfolding second_ok_def is_cont_def scalar_def r by auto
  have e: "EncodeRune r = [char_of (224 + q0), char_of (128 + q1), char_of (128 + q2)]"
    using assms by (simp add: EncodeRune_def q)
  show ?thesis
    using b s unfolding e by (simp add: DecodeRune_def decode3_def is_cont_def r)
qed

lemma Encode4:
  assumes "65536 \<le> r" "scalar r"
  shows "DecodeRune (EncodeRune r @ rest) = (r, 4)"
proof -
  define q0 q1 q2 q3 where q: "q0 = r div 262144" "q1 = r div 4096 mod 64" "q2 = r div 64 mod 64"
    "q3 = r mod 64"
  have r: "r = q0 * 262144 + q1 * 4096 + q2 * 64 + q3"
    using div64_split [of r] div64_split [of "r div 64"] div64_split [of "r div 64 div 64"]
    unfolding q div64_nested by linarith
  have "r < 1114112" using assms by (auto simp: scalar_def)
  then have b: "q0 < 5" "q1 < 64" "q2 < 64" "q3 < 64" unfolding q by (auto simp: less_mult_imp_div_less)
  have s: "second_ok (240 + q0) (128 + q1)"
    using assms b unfolding second_ok_def is_cont_def scalar_def r by auto
  have e: "EncodeRune r = [char_of (240 + q0), char_of (128 + q1), char_of (128 + q2), char_of (128 + q3)]"
    using assms by (simp add: EncodeRune_def q)
  show ?thesis
    using b s unfolding e by (simp add: DecodeRune_def decode4_def is_cont_def r)
qed

lemma length_EncodeRune:
  "length (EncodeRune r) =
     (if r < 128 then 1 else if r < 2048 then 2 else if scalar r \<and> 65536 \<le> r then 4 else 3)"
  by (simp add: EncodeRune_def)

lemma DecodeRune_EncodeRune [utf8_simps]:
  assumes "scalar r"
  shows "DecodeRune (EncodeRune r @ rest) = (r, length (EncodeRune r))"
proof -
  consider "r < 128" | "128 \<le> r" "r < 2048" | "2048 \<le> r" "r < 65536" | "65536 \<le> r"
    by linarith
  then show ?thesis
    by cases (use assms in \<open>simp_all add: Encode1 Encode2 Encode3 Encode4 length_EncodeRune\<close>)
qed

section \<open>What a decoded rune says about the input\<close>

lemma decode2_SomeD:
  assumes "decode2 (byte c0) t = Some r" "194 \<le> byte c0" "byte c0 \<le> 223"
  shows "scalar r \<and> length (EncodeRune r) = 2 \<and> (\<exists>t'. c0 # t = EncodeRune r @ t')"
proof -
  obtain c1 t' where t: "t = c1 # t'" and c1: "is_cont (byte c1)"
    and r: "r = (byte c0 - 192) * 64 + (byte c1 - 128)"
    using assms(1) by (auto simp: decode2_def second_ok_def split: list.splits if_splits)
  define a b where ab: "a = byte c0 - 192" "b = byte c1 - 128"
  have bd: "2 \<le> a" "a < 32" "b < 64" and bytes: "byte c0 = 192 + a" "byte c1 = 128 + b"
    using assms c1 by (auto simp: ab is_cont_def)
  have r': "r = a * 64 + b" by (simp add: r ab)
  have "128 \<le> r" "r < 2048" "r div 64 = a" "r mod 64 = b" using bd unfolding r' by auto
  then have "EncodeRune r = [char_of (byte c0), char_of (byte c1)]" "scalar r"
    unfolding bytes by (simp_all add: EncodeRune_def scalar_def)
  then show ?thesis by (simp add: t)
qed

lemma decode3_SomeD:
  assumes "decode3 (byte c0) t = Some r" "224 \<le> byte c0" "byte c0 \<le> 239"
  shows "scalar r \<and> length (EncodeRune r) = 3 \<and> (\<exists>t'. c0 # t = EncodeRune r @ t')"
proof -
  obtain c1 c2 t' where t: "t = c1 # c2 # t'" and c1: "second_ok (byte c0) (byte c1)"
    and c2: "is_cont (byte c2)"
    and r: "r = (byte c0 - 224) * 4096 + (byte c1 - 128) * 64 + (byte c2 - 128)"
    using assms(1) by (auto simp: decode3_def split: list.splits if_splits)
  define a b d where ab: "a = byte c0 - 224" "b = byte c1 - 128" "d = byte c2 - 128"
  have bd: "a < 16" "b < 64" "d < 64" "a = 0 \<longrightarrow> 32 \<le> b" "a = 13 \<longrightarrow> b < 32"
    and bytes: "byte c0 = 224 + a" "byte c1 = 128 + b" "byte c2 = 128 + d"
    using assms c1 c2 by (auto simp: ab is_cont_def second_ok_def)
  have r': "r = a * 4096 + b * 64 + d" by (simp add: r ab)
  have rs: "2048 \<le> r" "r < 65536" using bd unfolding r' by (cases "a = 0"; auto)+
  have sc: "scalar r"
    using bd unfolding r' scalar_def by (cases "a < 13"; cases "a = 13"; auto)
  have n: "r = (a * 64 + b) * 64 + d" by (simp add: r')
  have "r div 4096 = a" "r div 64 mod 64 = b" "r mod 64 = d"
    using bd unfolding n div64_nested by (simp_all only: div64_decompose)
  with rs sc have "EncodeRune r = [char_of (byte c0), char_of (byte c1), char_of (byte c2)]"
    unfolding bytes by (simp add: EncodeRune_def)
  then show ?thesis using sc by (simp add: t)
qed

lemma decode4_SomeD:
  assumes "decode4 (byte c0) t = Some r" "240 \<le> byte c0" "byte c0 \<le> 244"
  shows "scalar r \<and> length (EncodeRune r) = 4 \<and> (\<exists>t'. c0 # t = EncodeRune r @ t')"
proof -
  obtain c1 c2 c3 t' where t: "t = c1 # c2 # c3 # t'" and c1: "second_ok (byte c0) (byte c1)"
    and c2: "is_cont (byte c2)" and c3: "is_cont (byte c3)"
    and r: "r = (byte c0 - 240) * 262144 + (byte c1 - 128) * 4096 + (byte c2 - 128) * 64 + (byte c3 - 128)"
    using assms(1) by (auto simp: decode4_def split: list.splits if_splits)
  define a b d e where ab: "a = byte c0 - 240" "b = byte c1 - 128" "d = byte c2 - 128" "e = byte c3 - 128"
  have bd: "a < 5" "b < 64" "d < 64" "e < 64" "a = 0 \<longrightarrow> 16 \<le> b" "a = 4 \<longrightarrow> b < 16"
    and bytes: "byte c0 = 240 + a" "byte c1 = 128 + b" "byte c2 = 128 + d" "byte c3 = 128 + e"
    using assms c1 c2 c3 by (auto simp: ab is_cont_def second_ok_def)
  have r': "r = a * 262144 + b * 4096 + d * 64 + e" by (simp add: r ab)
  have rs: "65536 \<le> r" "r < 1114112" using bd unfolding r' by auto
  then have sc: "scalar r" by (simp add: scalar_def)
  have n: "r = ((a * 64 + b) * 64 + d) * 64 + e" by (simp add: r')
  have "r div 262144 = a" "r div 4096 mod 64 = b" "r div 64 mod 64 = d" "r mod 64 = e"
    using bd unfolding n div64_nested by (simp_all only: div64_decompose)
  with rs sc have "EncodeRune r = [char_of (byte c0), char_of (byte c1), char_of (byte c2), char_of (byte c3)]"
    unfolding bytes by (simp add: EncodeRune_def)
  then show ?thesis using sc by (simp add: t)
qed

lemma DecodeRune_cases:
  assumes "s \<noteq> []"
  obtains (bad) "DecodeRune s = (RuneError, 1)"
  | (good) r t where "scalar r" "s = EncodeRune r @ t" "DecodeRune s = (r, length (EncodeRune r))"
proof -
  obtain c0 t where s: "s = c0 # t" using assms by (cases s) auto
  have asc: "byte c0 < 128 \<Longrightarrow> s = EncodeRune (byte c0) @ t \<and> scalar (byte c0)"
    by (simp add: s EncodeRune_def scalar_def)
  consider "byte c0 < 128" | "DecodeRune s = (RuneError, 1)"
    | r where "decode2 (byte c0) t = Some r" "194 \<le> byte c0" "byte c0 \<le> 223"
    | r where "decode3 (byte c0) t = Some r" "224 \<le> byte c0" "byte c0 \<le> 239"
    | r where "decode4 (byte c0) t = Some r" "240 \<le> byte c0" "byte c0 \<le> 244"
    unfolding DecodeRune_def s Let_def list.case
    by (cases "decode2 (byte c0) t"; cases "decode3 (byte c0) t"; cases "decode4 (byte c0) t")
      (fastforce split: if_splits)+
  then show ?thesis
    by cases (metis asc decode2_SomeD decode3_SomeD decode4_SomeD DecodeRune_EncodeRune s bad good)+
qed

lemma DecodeRune_width: "s \<noteq> [] \<Longrightarrow> 0 < snd (DecodeRune s) \<and> snd (DecodeRune s) \<le> length s"
  by (cases s rule: DecodeRune_cases) (auto simp: length_EncodeRune Suc_leI)

section \<open>Strings\<close>

function runes :: "bytes \<Rightarrow> (nat \<times> nat) list" where
  "runes s = (if s = [] then [] else DecodeRune s # runes (drop (snd (DecodeRune s)) s))"
  by pat_completeness auto
termination
  by (relation "measure length") (auto dest: DecodeRune_width)

declare runes.simps [simp del]

definition encode_runes :: "nat list \<Rightarrow> bytes" where
  "encode_runes rs = concat (map EncodeRune rs)"

definition coerce :: "bytes \<Rightarrow> bytes" where
  "coerce s = encode_runes (map fst (runes s))"

definition valid_utf8 :: "bytes \<Rightarrow> bool" where
  "valid_utf8 s \<longleftrightarrow> list_all (\<lambda>x. \<not> invalid_rune x) (runes s)"

lemma runes_Nil [simp]: "runes [] = []"
  by (simp add: runes.simps)

lemma encode_runes_simps [simp]:
  "encode_runes [] = []" "encode_runes (r # rs) = EncodeRune r @ encode_runes rs"
  "encode_runes (rs @ rs') = encode_runes rs @ encode_runes rs'"
  by (simp_all add: encode_runes_def)

lemma EncodeRune_not_Nil [simp]: "EncodeRune r \<noteq> []"
  by (simp add: EncodeRune_def)

lemma runes_EncodeRune:
  "scalar r \<Longrightarrow> runes (EncodeRune r @ t) = (r, length (EncodeRune r)) # runes t"
  by (subst runes.simps) (simp add: DecodeRune_EncodeRune)

lemma runes_bad: "s \<noteq> [] \<Longrightarrow> DecodeRune s = (RuneError, 1) \<Longrightarrow> runes s = (RuneError, 1) # runes (tl s)"
  by (subst runes.simps) (simp add: drop_Suc)

lemma runes_ascii: "byte c < 128 \<Longrightarrow> runes (c # t) = (byte c, 1) # runes t"
  by (subst runes.simps) (simp add: DecodeRune_ascii)

lemma scalar_RuneError [simp]: "scalar RuneError"
  by (simp add: scalar_def RuneError_def)

lemma valid_rune_width [simp]: "\<not> invalid_rune (r, length (EncodeRune r))"
  by (auto simp: invalid_rune_def RuneError_def EncodeRune_def)

text \<open>The induction that follows the decoder: a bad byte, or a whole encoded rune.\<close>

lemma utf8_induct [case_names Nil bad rune]:
  assumes "P []"
    and "\<And>c t. DecodeRune (c # t) = (RuneError, 1) \<Longrightarrow> P t \<Longrightarrow> P (c # t)"
    and "\<And>r t. scalar r \<Longrightarrow> P t \<Longrightarrow> P (EncodeRune r @ t)"
  shows "P s"
proof (induction s rule: length_induct)
  case (1 s)
  show ?case
  proof (cases "s = []")
    case False
    then show ?thesis
    proof (cases s rule: DecodeRune_cases)
      case bad
      then obtain c t where "s = c # t" using False by (cases s) auto
      with bad 1 show ?thesis by (auto intro: assms(2))
    next
      case (good r t)
      with 1 show ?thesis by (auto intro: assms(3))
    qed
  qed (simp add: assms(1))
qed

lemma scalar_runes: "x \<in> set (runes s) \<Longrightarrow> scalar (fst x)"
  by (induction s rule: utf8_induct) (auto simp: runes_bad runes_EncodeRune)

lemma runes_encode_runes:
  "list_all scalar rs \<Longrightarrow> runes (encode_runes rs) = map (\<lambda>r. (r, length (EncodeRune r))) rs"
  by (induction rs) (simp_all add: runes_EncodeRune)

lemma valid_encode_runes: "list_all scalar rs \<Longrightarrow> valid_utf8 (encode_runes rs)"
  by (simp add: valid_utf8_def runes_encode_runes list_all_iff)

lemma valid_coerce [simp]: "valid_utf8 (coerce s)"
  by (simp add: coerce_def valid_encode_runes list_all_iff scalar_runes)

lemma coerce_bad: "DecodeRune (c # t) = (RuneError, 1) \<Longrightarrow> coerce (c # t) = EncodeRune RuneError @ coerce t"
  by (simp add: coerce_def runes_bad)

lemma coerce_rune: "scalar r \<Longrightarrow> coerce (EncodeRune r @ t) = EncodeRune r @ coerce t"
  by (simp add: coerce_def runes_EncodeRune)

lemma coerce_Nil [simp]: "coerce [] = []"
  by (simp add: coerce_def)

lemma valid_utf8_Nil [simp]: "valid_utf8 []"
  by (simp add: valid_utf8_def)

lemma valid_utf8_bad: "DecodeRune (c # t) = (RuneError, 1) \<Longrightarrow> \<not> valid_utf8 (c # t)"
  by (simp add: valid_utf8_def runes_bad invalid_rune_def)

lemma valid_utf8_rune: "scalar r \<Longrightarrow> valid_utf8 (EncodeRune r @ t) \<longleftrightarrow> valid_utf8 t"
  by (simp add: valid_utf8_def runes_EncodeRune)

lemma coerce_valid: "valid_utf8 s \<Longrightarrow> coerce s = s"
  by (induction s rule: utf8_induct) (auto simp: coerce_rune valid_utf8_rune valid_utf8_bad)

lemma coerce_eq_iff: "coerce s = s \<longleftrightarrow> valid_utf8 s"
  by (metis coerce_valid valid_coerce)

lemma coerce_idem [simp]: "coerce (coerce s) = coerce s"
  by (simp add: coerce_valid)

lemma valid_utf8_append: "valid_utf8 s \<Longrightarrow> valid_utf8 (s @ t) \<longleftrightarrow> valid_utf8 t"
  by (induction s rule: utf8_induct) (auto simp: valid_utf8_rune valid_utf8_bad)

subsection \<open>ASCII\<close>

definition ascii :: "bytes \<Rightarrow> bool" where
  "ascii s \<longleftrightarrow> list_all (\<lambda>c. byte c < 128) s"

lemma ascii_simps [simp]:
  "ascii []" "ascii (c # s) \<longleftrightarrow> byte c < 128 \<and> ascii s" "ascii (s @ t) \<longleftrightarrow> ascii s \<and> ascii t"
  by (simp_all add: ascii_def)

lemma runes_of_ascii: "ascii s \<Longrightarrow> runes s = map (\<lambda>c. (byte c, 1)) s"
  by (induction s) (simp_all add: runes_ascii)

lemma valid_ascii: "ascii s \<Longrightarrow> valid_utf8 s"
  by (auto simp: valid_utf8_def runes_of_ascii list_all_iff invalid_rune_def RuneError_def ascii_def)

lemma ascii_show_nat [simp]: "ascii (show_nat n)"
  using show_nat_digits [of n] by (auto simp: ascii_def list_all_iff is_digit_def)

lemma ascii_Itoa [simp]: "ascii (Itoa w)"
  by (simp add: Itoa_def show_int_def)

end
