(* ===== verification/GoStrings.thy ===== *)
theory GoStrings
  imports Utf8
begin

text \<open>
  The functions of Go's \<^verbatim>\<open>strings\<close> package that the sources call: \<^verbatim>\<open>ToUpper\<close> (command
  names), \<^verbatim>\<open>TrimSpace\<close> (every configuration value and RPC field) and \<^verbatim>\<open>Contains\<close>. The
  Unicode case table behind \<^verbatim>\<open>unicode.ToUpper\<close> is data, and an argument of \<open>ToUpper\<close>: an
  ASCII string never consults it. White space is the set of \<^verbatim>\<open>unicode.IsSpace\<close>, given by its
  UTF-8 encodings.
\<close>

section \<open>ToUpper\<close>

definition upper_char :: "char \<Rightarrow> char" where
  "upper_char c = (if 97 \<le> byte c \<and> byte c \<le> 122 then char_of (byte c - 32) else c)"

definition ToUpper :: "(nat \<Rightarrow> nat) \<Rightarrow> bytes \<Rightarrow> bytes" where
  "ToUpper up s = (if ascii s then map upper_char s else encode_runes (map (up \<circ> fst) (runes s)))"

section \<open>TrimSpace\<close>

definition space_seqs :: "bytes list" where
  "space_seqs =
     [[CHR 0x20], [CHR 0x09], [CHR 0x0A], [CHR 0x0B], [CHR 0x0C], [CHR 0x0D],
      [CHR 0xC2, CHR 0x85], [CHR 0xC2, CHR 0xA0], [CHR 0xE1, CHR 0x9A, CHR 0x80]]
     @ map (\<lambda>b. [CHR 0xE2, CHR 0x80, b])
         [CHR 0x80, CHR 0x81, CHR 0x82, CHR 0x83, CHR 0x84, CHR 0x85, CHR 0x86, CHR 0x87,
          CHR 0x88, CHR 0x89, CHR 0x8A, CHR 0xA8, CHR 0xA9, CHR 0xAF]
     @ [[CHR 0xE2, CHR 0x81, CHR 0x9F], [CHR 0xE3, CHR 0x80, CHR 0x80]]"

text \<open>
  Remove from the front any of the (nonempty) sequences, as long as one is there. The
  patterns with an empty sequence are never used and stop at once.
\<close>

function strip :: "bytes list \<Rightarrow> bytes \<Rightarrow> bytes" where
  "strip ps s =
     (case find (\<lambda>p. p \<noteq> [] \<and> HasPrefix s p) ps of
        None \<Rightarrow> s
      | Some p \<Rightarrow> strip ps (drop (length p) s))"
  by pat_completeness auto
termination
proof (relation "measure (length \<circ> snd)", goal_cases)
  case (2 ps s p)
  then have "p \<noteq> []" "HasPrefix s p" by (auto simp: find_Some_iff)
  then show ?case by (auto simp: HasPrefix_iff)
qed simp

declare strip.simps [simp del]

definition TrimLeftSpace :: "bytes \<Rightarrow> bytes" where
  "TrimLeftSpace s = strip space_seqs s"

definition TrimRightSpace :: "bytes \<Rightarrow> bytes" where
  "TrimRightSpace s = rev (strip (map rev space_seqs) (rev s))"

definition TrimSpace :: "bytes \<Rightarrow> bytes" where
  "TrimSpace s = TrimRightSpace (TrimLeftSpace s)"

section \<open>Contains\<close>

definition Contains :: "bytes \<Rightarrow> bytes \<Rightarrow> bool" where
  "Contains s sub \<longleftrightarrow> sublist sub s"

section \<open>ToUpper: ASCII strings\<close>

lemma byte_upper_char: "byte c < 128 \<Longrightarrow> byte (upper_char c) < 128"
  by (auto simp: upper_char_def)

lemma upper_char_idem [simp]: "upper_char (upper_char c) = upper_char c"
  by (auto simp: upper_char_def)

lemma ToUpper_ascii: "ascii s \<Longrightarrow> ToUpper up s = map upper_char s"
  by (simp add: ToUpper_def)

lemma ascii_ToUpper: "ascii s \<Longrightarrow> ascii (ToUpper up s)"
  by (auto simp: ToUpper_def ascii_def list_all_iff byte_upper_char)

lemma ToUpper_idem: "ascii s \<Longrightarrow> ToUpper up (ToUpper up s) = ToUpper up s"
  using ascii_ToUpper [of s up] by (simp add: ToUpper_ascii)

lemma ToUpper_Nil [simp]: "ToUpper up [] = []"
  by (simp add: ToUpper_def)

section \<open>TrimSpace: what is left has no white space at its ends\<close>

definition no_front :: "bytes list \<Rightarrow> bytes \<Rightarrow> bool" where
  "no_front ps s \<longleftrightarrow> (\<forall>p \<in> set ps. p \<noteq> [] \<longrightarrow> \<not> HasPrefix s p)"

lemma strip_no_front: "no_front ps (strip ps s)"
proof (induction ps s rule: strip.induct)
  case (1 ps s)
  then show ?case
    by (subst strip.simps) (auto simp: no_front_def find_None_iff split: option.splits)
qed

lemma strip_suffix: "\<exists>t. s = t @ strip ps s"
proof (induction ps s rule: strip.induct)
  case (1 ps s)
  show ?case
  proof (cases "find (\<lambda>p. p \<noteq> [] \<and> HasPrefix s p) ps")
    case None
    then show ?thesis by (subst strip.simps) simp
  next
    case (Some p)
    then have "s = p @ drop (length p) s"
      by (auto simp: find_Some_iff HasPrefix_iff)
    moreover obtain t where "drop (length p) s = t @ strip ps (drop (length p) s)"
      using 1 [OF Some] by blast
    moreover have "strip ps s = strip ps (drop (length p) s)"
      using Some by (subst strip.simps) simp
    ultimately show ?thesis by (metis append_assoc)
  qed
qed

lemma strip_id: "no_front ps s \<Longrightarrow> strip ps s = s"
  by (subst strip.simps) (auto simp: no_front_def find_Some_iff split: option.splits)

lemma no_front_prefix: "no_front ps (s @ t) \<Longrightarrow> no_front ps s"
  by (fastforce simp: no_front_def HasPrefix_iff)

lemma TrimRightSpace_prefix: "\<exists>t. s = TrimRightSpace s @ t"
  using strip_suffix [of "rev s" "map rev space_seqs"]
  by (metis TrimRightSpace_def rev_append rev_rev_ident)

lemma TrimRightSpace_idem: "TrimRightSpace (TrimRightSpace s) = TrimRightSpace s"
  by (simp add: TrimRightSpace_def strip_id strip_no_front)

lemma TrimSpace_idem [simp]: "TrimSpace (TrimSpace s) = TrimSpace s"
proof -
  let ?l = "TrimLeftSpace s"
  have "no_front space_seqs ?l" by (simp add: TrimLeftSpace_def strip_no_front)
  then have "no_front space_seqs (TrimRightSpace ?l)"
    by (metis TrimRightSpace_prefix no_front_prefix)
  then have "TrimLeftSpace (TrimSpace s) = TrimSpace s"
    by (simp add: TrimSpace_def TrimLeftSpace_def strip_id)
  then show ?thesis by (simp add: TrimSpace_def TrimRightSpace_idem)
qed

lemma strip_Nil [simp]: "strip ps [] = []"
  using strip_suffix [of "[]" ps] by auto

lemma TrimSpace_Nil [simp]: "TrimSpace [] = []"
  by (simp add: TrimSpace_def TrimLeftSpace_def TrimRightSpace_def)

text \<open>
  A string whose first and last bytes are printable ASCII is left as it is: the rule by which
  concrete configuration values evaluate.
\<close>

definition printable :: "char \<Rightarrow> bool" where
  "printable c \<longleftrightarrow> 33 \<le> byte c \<and> byte c < 127"

lemma no_front_printable: "printable c \<Longrightarrow> no_front space_seqs (c # s)"
  by (auto simp: no_front_def space_seqs_def HasPrefix_def printable_def)

lemma no_front_rev_printable: "printable c \<Longrightarrow> no_front (map rev space_seqs) (c # s)"
  by (auto simp: no_front_def space_seqs_def HasPrefix_def printable_def)

lemma TrimSpace_printable:
  assumes "s \<noteq> []" "printable (hd s)" "printable (last s)"
  shows "TrimSpace s = s"
proof -
  have "TrimLeftSpace s = s"
    using assms by (cases s) (auto simp: TrimLeftSpace_def strip_id no_front_printable)
  moreover have "TrimRightSpace s = s"
    using assms by (cases s rule: rev_cases) (auto simp: TrimRightSpace_def strip_id no_front_rev_printable)
  ultimately show ?thesis by (simp add: TrimSpace_def)
qed

end
