(* ===== verification/MemDB.thy ===== *)
theory MemDB
  imports Utf8 "HOL-Library.Mapping" "HOL-Library.List_Lexorder" "HOL-Library.Char_ord"
begin

text \<open>
  The in-memory store of \<^verbatim>\<open>src/core/memdb.go\<close>: one map from keys to values. Every operation of
  the source holds the store's lock for its whole body, so each is one atomic state transformer
  here. The locale \<open>kv_store\<close> is the contract the command executor and the replicated state
  machine rely on; it is interpreted on the operations of this theory.
\<close>

section \<open>State and operations\<close>

record MemDB =
  keyspace :: "(bytes, bytes) mapping"

definition Init :: "MemDB \<Rightarrow> MemDB" where
  "Init db = db\<lparr>keyspace := Mapping.empty\<rparr>"

definition CountKeys :: "bytes list \<Rightarrow> MemDB \<Rightarrow> nat" where
  "CountKeys keys db =
     foldl (\<lambda>cnt key. if Mapping.lookup (keyspace db) key \<noteq> None then cnt + 1 else cnt) 0 keys"

definition Get :: "bytes \<Rightarrow> MemDB \<Rightarrow> bytes option" where
  "Get key db = Mapping.lookup (keyspace db) key"

definition Set :: "bytes \<Rightarrow> bytes \<Rightarrow> MemDB \<Rightarrow> MemDB" where
  "Set key value db = db\<lparr>keyspace := Mapping.update key value (keyspace db)\<rparr>"

definition Delete :: "bytes \<Rightarrow> MemDB \<Rightarrow> MemDB" where
  "Delete key db =
     (case Mapping.lookup (keyspace db) key of
        None \<Rightarrow> db
      | Some _ \<Rightarrow> db\<lparr>keyspace := Mapping.delete key (keyspace db)\<rparr>)"

text \<open>\<open>Incr\<close> returns its error, if any, and the new store; the addition wraps at 64 bits.\<close>

definition Incr :: "bytes \<Rightarrow> go_int \<Rightarrow> MemDB \<Rightarrow> bytes option \<times> MemDB" where
  "Incr key delta db =
     (case Mapping.lookup (keyspace db) key of
        None \<Rightarrow> (None, db\<lparr>keyspace := Mapping.update key (Itoa delta) (keyspace db)\<rparr>)
      | Some val \<Rightarrow>
          (case Atoi val of
             None \<Rightarrow> (Some (''INCR expects a number, got '' @ val), db)
           | Some i \<Rightarrow> (None, db\<lparr>keyspace := Mapping.update key (Itoa (i + delta)) (keyspace db)\<rparr>)))"

text \<open>The value a counter holds: an absent key counts as 0.\<close>

definition counter_value :: "bytes option \<Rightarrow> go_int option" where
  "counter_value v = (case v of None \<Rightarrow> Some 0 | Some s \<Rightarrow> Atoi s)"

definition incr_view :: "bytes \<Rightarrow> go_int \<Rightarrow> (bytes \<rightharpoonup> bytes) \<Rightarrow> (bytes \<rightharpoonup> bytes)" where
  "incr_view k d m = (case counter_value (m k) of None \<Rightarrow> m | Some i \<Rightarrow> m(k \<mapsto> Itoa (i + d)))"

section \<open>The contract of a key-value store\<close>

locale kv_store =
  fixes init :: "'db \<Rightarrow> 'db"
    and get :: "bytes \<Rightarrow> 'db \<Rightarrow> bytes option"
    and set_op :: "bytes \<Rightarrow> bytes \<Rightarrow> 'db \<Rightarrow> 'db"
    and del :: "bytes \<Rightarrow> 'db \<Rightarrow> 'db"
    and incr :: "bytes \<Rightarrow> go_int \<Rightarrow> 'db \<Rightarrow> bytes option \<times> 'db"
    and view :: "'db \<Rightarrow> bytes \<rightharpoonup> bytes"
    and invar :: "'db \<Rightarrow> bool"
  assumes view_init: "view (init db) = Map.empty"
    and get_view: "get k db = view db k"
    and view_set: "view (set_op k v db) = (view db)(k \<mapsto> v)"
    and view_del: "view (del k db) = (view db)(k := None)"
    and incr_ok_iff: "fst (incr k d db) = None \<longleftrightarrow> counter_value (view db k) \<noteq> None"
    and view_incr: "view (snd (incr k d db)) = incr_view k d (view db)"
    and view_ext: "view a = view b \<Longrightarrow> a = b"
    and invar_finite: "invar db \<longleftrightarrow> finite (dom (view db))"
begin

lemma invar_ops:
  "invar (init db)" "invar db \<Longrightarrow> invar (set_op k v db)" "invar db \<Longrightarrow> invar (del k db)"
  "invar db \<Longrightarrow> invar (snd (incr k d db))"
  by (simp_all add: invar_finite view_init view_set view_del view_incr incr_view_def split: option.splits)

lemma get_set: "get k' (set_op k v db) = (if k' = k then Some v else get k' db)"
  by (simp add: get_view view_set)

lemma get_del: "get k' (del k db) = (if k' = k then None else get k' db)"
  by (simp add: get_view view_del)

lemma get_incr_other: "k' \<noteq> k \<Longrightarrow> get k' (snd (incr k d db)) = get k' db"
  by (simp add: get_view view_incr incr_view_def split: option.splits)

lemma set_overwrites: "set_op k v (set_op k v' db) = set_op k v db"
  by (rule view_ext) (simp add: view_set)

lemma set_commutes: "k \<noteq> k' \<Longrightarrow> set_op k v (set_op k' v' db) = set_op k' v' (set_op k v db)"
  by (rule view_ext) (simp add: view_set fun_upd_twist)

lemma del_set: "del k (set_op k v db) = del k db"
  by (rule view_ext) (simp add: view_set view_del)

lemma del_absent: "get k db = None \<Longrightarrow> del k db = db"
  by (rule view_ext) (simp add: view_del get_view fun_upd_idem)

lemma incr_rejected: "fst (incr k d db) \<noteq> None \<Longrightarrow> snd (incr k d db) = db"
  by (rule view_ext) (simp add: view_incr incr_view_def incr_ok_iff)

lemma incr_incr: "snd (incr k e (snd (incr k d db))) = snd (incr k (d + e) db)"
  by (rule view_ext)
    (simp add: view_incr incr_view_def counter_value_def add.assoc split: option.splits)

lemma get_incr_ok:
  "counter_value (get k db) = Some i \<Longrightarrow> get k (snd (incr k d db)) = Some (Itoa (i + d))"
  by (simp add: get_view view_incr incr_view_def)

end

section \<open>The store satisfies the contract\<close>

abbreviation db_view :: "MemDB \<Rightarrow> bytes \<rightharpoonup> bytes" where
  "db_view db \<equiv> Mapping.lookup (keyspace db)"

definition db_finite :: "MemDB \<Rightarrow> bool" where
  "db_finite db \<longleftrightarrow> finite (Mapping.keys (keyspace db))"

lemma lookup_update_fun: "Mapping.lookup (Mapping.update k v m) = (Mapping.lookup m)(k \<mapsto> v)"
  by (auto simp: lookup_update')

lemma lookup_delete_fun: "Mapping.lookup (Mapping.delete k m) = (Mapping.lookup m)(k := None)"
  by transfer simp

lemma keys_dom: "Mapping.keys m = dom (Mapping.lookup m)"
  by (simp add: keys_dom_lookup)

lemma view_Init [db_simps]: "db_view (Init db) = Map.empty"
  by (simp add: Init_def lookup_empty fun_eq_iff)

lemma view_Set [db_simps]: "db_view (Set k v db) = (db_view db)(k \<mapsto> v)"
  by (simp add: Set_def lookup_update_fun)

lemma view_Delete [db_simps]: "db_view (Delete k db) = (db_view db)(k := None)"
  by (simp add: Delete_def lookup_delete_fun fun_upd_idem split: option.splits)

lemma view_Incr [db_simps]: "db_view (snd (Incr k d db)) = incr_view k d (db_view db)"
  by (simp add: Incr_def incr_view_def counter_value_def lookup_update_fun split: option.splits)

lemma Incr_ok_iff: "fst (Incr k d db) = None \<longleftrightarrow> counter_value (db_view db k) \<noteq> None"
  by (simp add: Incr_def counter_value_def split: option.splits)

lemma MemDB_ext: "db_view a = db_view b \<Longrightarrow> a = b"
  by (metis MemDB.equality mapping_eqI unit.exhaust)

interpretation mem: kv_store Init Get Set Delete Incr db_view db_finite
proof unfold_locales
  show "\<And>a b. db_view a = db_view b \<Longrightarrow> a = b" by (rule MemDB_ext)
qed (simp_all add: db_simps Incr_ok_iff Get_def db_finite_def keys_dom)

lemmas get_ops [db_simps] = mem.get_set mem.get_del

lemma CountKeys_eq: "CountKeys keys db = length (filter (\<lambda>k. Get k db \<noteq> None) keys)"
proof -
  have "foldl (\<lambda>cnt key. if Mapping.lookup (keyspace db) key \<noteq> None then cnt + 1 else cnt) n keys
      = n + length (filter (\<lambda>k. Get k db \<noteq> None) keys)" for n
    by (induction keys arbitrary: n) (auto simp: Get_def)
  then show ?thesis by (simp add: CountKeys_def)
qed

section \<open>Strings in the store\<close>

text \<open>Every key and every value satisfies \<open>P\<close>: used with valid UTF-8, the invariant of replicated stores.\<close>

definition db_all :: "(bytes \<Rightarrow> bool) \<Rightarrow> MemDB \<Rightarrow> bool" where
  "db_all P db \<longleftrightarrow> (\<forall>k v. db_view db k = Some v \<longrightarrow> P k \<and> P v)"

lemma db_all_Init: "db_all P (Init db)"
  by (simp add: db_all_def db_simps)

lemma db_all_Set: "db_all P db \<Longrightarrow> P k \<Longrightarrow> P v \<Longrightarrow> db_all P (Set k v db)"
  by (auto simp: db_all_def db_simps)

lemma db_all_Delete: "db_all P db \<Longrightarrow> db_all P (Delete k db)"
  by (auto simp: db_all_def db_simps)

lemma db_all_Incr: "db_all P db \<Longrightarrow> P k \<Longrightarrow> (\<And>w. P (Itoa w)) \<Longrightarrow> db_all P (snd (Incr k d db))"
  by (auto simp: db_all_def db_simps incr_view_def split: option.splits if_splits)

end
