(* ===== verification/CmdExecutor.thy ===== *)
theory CmdExecutor
  imports GoStrings RespUtil MemDB
begin

text \<open>
  The command executor of \<^verbatim>\<open>src/core/cmd_executor.go\<close>: building a command from parsed
  arguments, classifying it as a write, and executing it on a store. \<open>executeOnDB\<close> takes, as its
  first argument, what \<^verbatim>\<open>SaveSnapshot\<close> would report (\<open>None\<close> for success, the error text otherwise);
  only the \<^verbatim>\<open>SAVE\<close> branch looks at it. An abstract specification over typed commands follows, with
  the refinement proof, and the contract \<open>command_engine\<close> that replication relies on.
\<close>

section \<open>Commands\<close>

record Cmd =
  Op :: bytes
  Args :: "bytes list"

fun join_with :: "bytes \<Rightarrow> bytes list \<Rightarrow> bytes" where
  "join_with sep [] = []"
| "join_with sep [x] = x"
| "join_with sep (x # xs) = x @ sep @ join_with sep xs"

definition ToString :: "Cmd \<Rightarrow> bytes" where
  "ToString cmd = ''RESP Command: Op='' @ Op cmd @ '', Args=['' @ join_with '' '' (Args cmd) @ '']''"

definition IsWriteOp :: "Cmd \<Rightarrow> bool" where
  "IsWriteOp cmd \<longleftrightarrow> Op cmd \<in> {''SET'', ''DEL'', ''INCR'', ''DECR'', ''INCRBY''}"

definition BuildCmd :: "(nat \<Rightarrow> nat) \<Rightarrow> bytes list \<Rightarrow> Cmd option" where
  "BuildCmd up args =
     (case args of
        [] \<Rightarrow> None
      | [name] \<Rightarrow> Some \<lparr>Op = ToUpper up name, Args = []\<rparr>
      | name # rest \<Rightarrow> Some \<lparr>Op = ToUpper up name, Args = rest\<rparr>)"

section \<open>Execution\<close>

definition executeOnDB :: "bytes option \<Rightarrow> Cmd \<Rightarrow> MemDB \<Rightarrow> bytes \<times> MemDB" where
  "executeOnDB save cmd db =
     (if Op cmd = ''PING'' then
        (if Args cmd = [] then Pong else BuildBulkString (Some (Args cmd ! 0)), db)
      else if Op cmd = ''SET'' then
        (if length (Args cmd) \<noteq> 2 then (ErrCommandFormatError, db)
         else (Ok, Set (Args cmd ! 0) (Args cmd ! 1) db))
      else if Op cmd = ''GET'' then
        (if length (Args cmd) \<noteq> 1 then ErrCommandFormatError
         else BuildBulkString (Get (Args cmd ! 0) db), db)
      else if Op cmd = ''DEL'' then
        (if length (Args cmd) \<noteq> 1 then (ErrCommandFormatError, db)
         else (Ok, Delete (Args cmd ! 0) db))
      else if Op cmd = ''INCR'' then
        (if length (Args cmd) \<noteq> 1 then (ErrCommandFormatError, db)
         else (case Incr (Args cmd ! 0) 1 db of
                 (Some err, db') \<Rightarrow> (ErrWrongDataType, db')
               | (None, db') \<Rightarrow> (Ok, db')))
      else if Op cmd = ''DECR'' then
        (if length (Args cmd) \<noteq> 1 then (ErrCommandFormatError, db)
         else (case Incr (Args cmd ! 0) (- 1) db of
                 (Some err, db') \<Rightarrow> (ErrWrongDataType, db')
               | (None, db') \<Rightarrow> (Ok, db')))
      else if Op cmd = ''INCRBY'' then
        (if length (Args cmd) \<noteq> 2 then (ErrCommandFormatError, db)
         else
           (case Atoi (Args cmd ! 1) of
              None \<Rightarrow> (ErrCommandFormatError, db)
            | Some delta \<Rightarrow>
                (case Incr (Args cmd ! 0) delta db of
                   (Some err, db') \<Rightarrow> (ErrWrongDataType, db')
                 | (None, db') \<Rightarrow> (Ok, db'))))
      else if Op cmd = ''EXISTS'' then
        (if length (Args cmd) < 1 then ErrCommandFormatError
         else BuildInteger (int (CountKeys (Args cmd) db)), db)
      else if Op cmd = ''SAVE'' then
        (if length (Args cmd) \<noteq> 0 then ErrCommandFormatError
         else (case save of
                 Some err \<Rightarrow> BuildErrorMsg ErrGeneric (''Snapshot failed: '' @ err)
               | None \<Rightarrow> Ok), db)
      else (ErrCommandUnsupported, db))"

section \<open>Abstract specification\<close>

text \<open>Typed commands: the operator and its arity and number checks are resolved once.\<close>

datatype command =
    Ping "bytes option" | SetC bytes bytes | GetC bytes | DelC bytes | IncrC bytes go_int
  | ExistsC "bytes list" | SaveC | BadFormat | Unsupported

datatype reply =
    ROk | RPong | RBulk "bytes option" | RInt nat | RWrongType | RFormat | RUnsupported | RSaveFailed bytes

definition typed :: "Cmd \<Rightarrow> command" where
  "typed cmd =
     (let op = Op cmd in
      if op = ''PING'' then (case Args cmd of [] \<Rightarrow> Ping None | a # _ \<Rightarrow> Ping (Some a))
      else if op = ''SET'' then (case Args cmd of [k, v] \<Rightarrow> SetC k v | _ \<Rightarrow> BadFormat)
      else if op = ''GET'' then (case Args cmd of [k] \<Rightarrow> GetC k | _ \<Rightarrow> BadFormat)
      else if op = ''DEL'' then (case Args cmd of [k] \<Rightarrow> DelC k | _ \<Rightarrow> BadFormat)
      else if op = ''INCR'' then (case Args cmd of [k] \<Rightarrow> IncrC k 1 | _ \<Rightarrow> BadFormat)
      else if op = ''DECR'' then (case Args cmd of [k] \<Rightarrow> IncrC k (- 1) | _ \<Rightarrow> BadFormat)
      else if op = ''INCRBY'' then
        (case Args cmd of
           [k, n] \<Rightarrow> (case Atoi n of None \<Rightarrow> BadFormat | Some d \<Rightarrow> IncrC k d)
         | _ \<Rightarrow> BadFormat)
      else if op = ''EXISTS'' then (if Args cmd = [] then BadFormat else ExistsC (Args cmd))
      else if op = ''SAVE'' then (if Args cmd = [] then SaveC else BadFormat)
      else Unsupported)"

fun spec_step :: "bytes option \<Rightarrow> command \<Rightarrow> (bytes \<rightharpoonup> bytes) \<Rightarrow> reply \<times> (bytes \<rightharpoonup> bytes)" where
  "spec_step save (Ping None) m = (RPong, m)"
| "spec_step save (Ping (Some a)) m = (RBulk (Some a), m)"
| "spec_step save (SetC k v) m = (ROk, m(k \<mapsto> v))"
| "spec_step save (GetC k) m = (RBulk (m k), m)"
| "spec_step save (DelC k) m = (ROk, m(k := None))"
| "spec_step save (IncrC k d) m =
     (case counter_value (m k) of
        None \<Rightarrow> (RWrongType, m)
      | Some i \<Rightarrow> (ROk, m(k \<mapsto> Itoa (i + d))))"
| "spec_step save (ExistsC ks) m = (RInt (length (filter (\<lambda>k. k \<in> dom m) ks)), m)"
| "spec_step save SaveC m = ((case save of None \<Rightarrow> ROk | Some e \<Rightarrow> RSaveFailed e), m)"
| "spec_step save BadFormat m = (RFormat, m)"
| "spec_step save Unsupported m = (RUnsupported, m)"

fun print_reply :: "reply \<Rightarrow> bytes" where
  "print_reply ROk = Ok"
| "print_reply RPong = Pong"
| "print_reply (RBulk v) = BuildBulkString v"
| "print_reply (RInt n) = BuildInteger (int n)"
| "print_reply RWrongType = ErrWrongDataType"
| "print_reply RFormat = ErrCommandFormatError"
| "print_reply RUnsupported = ErrCommandUnsupported"
| "print_reply (RSaveFailed e) = BuildErrorMsg ErrGeneric (''Snapshot failed: '' @ e)"

section \<open>Refinement\<close>

lemma Incr_reply:
  "(case Incr k d db of (Some err, db') \<Rightarrow> (ErrWrongDataType, db') | (None, db') \<Rightarrow> (Ok, db')) =
   (print_reply (fst (spec_step save (IncrC k d) (db_view db))), snd (Incr k d db))"
  by (auto simp: Incr_def counter_value_def split: option.splits)

lemma spec_Incr_view: "snd (spec_step save (IncrC k d) m) = incr_view k d m"
  by (simp add: incr_view_def split: option.splits)

lemma CountKeys_view: "CountKeys ks db = length (filter (\<lambda>k. k \<in> dom (db_view db)) ks)"
  by (simp add: CountKeys_eq Get_def domIff)

lemma executeOnDB_args:
  "Op cmd = ''SET'' \<Longrightarrow> Args cmd = [k, v] \<Longrightarrow> executeOnDB save cmd db = (Ok, Set k v db)"
  "Op cmd = ''GET'' \<Longrightarrow> Args cmd = [k] \<Longrightarrow> executeOnDB save cmd db = (BuildBulkString (Get k db), db)"
  "Op cmd = ''DEL'' \<Longrightarrow> Args cmd = [k] \<Longrightarrow> executeOnDB save cmd db = (Ok, Delete k db)"
  by (simp_all add: executeOnDB_def)

lemma length_eq_1_2: "length xs = 1 \<longleftrightarrow> (\<exists>a. xs = [a])" "length xs = 2 \<longleftrightarrow> (\<exists>a b. xs = [a, b])"
  by (auto simp: length_Suc_conv numeral_2_eq_2)

text \<open>The executor's result by typed command: the case analysis all later proofs use.\<close>

fun exec_typed :: "bytes option \<Rightarrow> command \<Rightarrow> MemDB \<Rightarrow> bytes \<times> MemDB" where
  "exec_typed save (SetC k v) db = (Ok, Set k v db)"
| "exec_typed save (DelC k) db = (Ok, Delete k db)"
| "exec_typed save (IncrC k d) db =
     (print_reply (fst (spec_step save (IncrC k d) (db_view db))), snd (Incr k d db))"
| "exec_typed save c db = (print_reply (fst (spec_step save c (db_view db))), db)"

lemma executeOnDB_typed: "executeOnDB save cmd db = exec_typed save (typed cmd) db"
proof -
  consider "Op cmd = ''PING''" | "Op cmd = ''SET''" | "Op cmd = ''GET''" | "Op cmd = ''DEL''"
    | "Op cmd = ''INCR''" | "Op cmd = ''DECR''" | "Op cmd = ''INCRBY''" | "Op cmd = ''EXISTS''"
    | "Op cmd = ''SAVE''"
    | "Op cmd \<notin> {''PING'', ''SET'', ''GET'', ''DEL'', ''INCR'', ''DECR'', ''INCRBY'', ''EXISTS'', ''SAVE''}"
    by blast
  then show ?thesis
    by cases
      (auto simp: executeOnDB_def typed_def Incr_reply [of _ _ _ save] CountKeys_view Get_def
        length_eq_1_2 Suc_le_eq split: list.splits option.splits)
qed

lemma exec_typed_spec:
  "fst (exec_typed save c db) = print_reply (fst (spec_step save c (db_view db)))
   \<and> db_view (snd (exec_typed save c db)) = snd (spec_step save c (db_view db))"
proof (cases c)
  case (Ping a)
  then show ?thesis by (cases a) simp_all
next
  case (IncrC k d)
  then show ?thesis by (simp add: db_simps incr_view_def split: option.splits)
qed (simp_all add: db_simps)

lemma IsWriteOp_typed:
  "IsWriteOp cmd \<or> (\<forall>save db. snd (exec_typed save (typed cmd) db) = db)"
  by (auto simp: IsWriteOp_def typed_def Let_def split: list.splits)

lemma executeOnDB_read: "\<not> IsWriteOp cmd \<Longrightarrow> snd (executeOnDB save cmd db) = db"
  using IsWriteOp_typed [of cmd] by (simp add: executeOnDB_typed)

section \<open>The contract of a command engine\<close>

text \<open>
  What replication relies on: a command that is not classified as a write leaves the state
  alone. Then the state a run of commands reaches is the state its writes alone reach, which is
  why it is enough to send the writes through the log.
\<close>

definition run_commands :: "('c \<Rightarrow> 's \<Rightarrow> bytes \<times> 's) \<Rightarrow> 'c list \<Rightarrow> 's \<Rightarrow> 's" where
  "run_commands exec cmds s = fold (\<lambda>c s. snd (exec c s)) cmds s"

locale command_engine =
  fixes exec :: "'c \<Rightarrow> 's \<Rightarrow> bytes \<times> 's"
    and is_write :: "'c \<Rightarrow> bool"
  assumes read_only: "\<not> is_write c \<Longrightarrow> snd (exec c s) = s"
begin

lemma run_writes: "run_commands exec cmds s = run_commands exec (filter is_write cmds) s"
  by (induction cmds arbitrary: s) (simp_all add: run_commands_def read_only)

lemma reads_see_writes:
  "\<not> is_write c \<Longrightarrow> exec c (run_commands exec cmds s) = exec c (run_commands exec (filter is_write cmds) s)"
  by (simp add: run_writes [symmetric])

end

interpretation engine: command_engine "executeOnDB save" IsWriteOp for save
  by unfold_locales (rule executeOnDB_read)

section \<open>Errors, frames and counters\<close>

lemma error_reply_unchanged: "hd (fst (exec_typed save c db)) = CHR ''-'' \<Longrightarrow> snd (exec_typed save c db) = db"
proof (cases c)
  case (IncrC k d)
  assume "hd (fst (exec_typed save c db)) = CHR ''-''"
  with IncrC have "counter_value (db_view db k) = None" by (auto split: option.splits)
  then show ?thesis using IncrC mem.incr_rejected [of k d db] by (simp add: Incr_ok_iff)
qed auto

fun target_key :: "command \<Rightarrow> bytes option" where
  "target_key (SetC k v) = Some k"
| "target_key (DelC k) = Some k"
| "target_key (IncrC k d) = Some k"
| "target_key c = None"

lemma exec_frame: "target_key c \<noteq> Some k \<Longrightarrow> Get k (snd (exec_typed save c db)) = Get k db"
  by (cases c) (auto simp: db_simps mem.get_incr_other)

lemma target_key_typed: "target_key (typed cmd) = Some k \<Longrightarrow> Args cmd \<noteq> [] \<and> hd (Args cmd) = k"
  by (auto simp: typed_def Let_def split: if_splits list.splits option.splits)

lemma run_commands_simps [simp]:
  "run_commands exec [] s = s" "run_commands exec (c # cs) s = run_commands exec cs (snd (exec c s))"
  "run_commands exec (cs @ ds) s = run_commands exec ds (run_commands exec cs s)"
  by (simp_all add: run_commands_def)

lemma run_increments:
  assumes "typed cmd = IncrC k d"
  shows "run_commands (executeOnDB save) (replicate (Suc n) cmd) db = snd (Incr k (of_nat (Suc n) * d) db)"
proof (induction n arbitrary: db)
  case 0
  show ?case using assms by (simp add: executeOnDB_typed)
next
  case (Suc n)
  have "run_commands (executeOnDB save) (replicate (Suc (Suc n)) cmd) db
      = run_commands (executeOnDB save) (replicate (Suc n) cmd) (snd (Incr k d db))"
    using assms by (simp add: executeOnDB_typed)
  also have "\<dots> = snd (Incr k (d + of_nat (Suc n) * d) db)"
    by (simp only: Suc.IH mem.incr_incr)
  finally show ?case by (simp add: algebra_simps)
qed

section \<open>Properties\<close>

text \<open>
  C4. The executor implements the abstract key-value specification: for every command and every
  store, its reply is the printed form of the specified reply and its store is the specified map,
  on every branch (arity errors, non-numeric counters, unsupported operators and failed snapshots
  included). The commands on expiry times, hashes and lists, which the README lists among the working ones,
  and \<^verbatim>\<open>FLUSHDB\<close> are stubs: whatever their arguments, the answer is that the command is unsupported and nothing changes.
\<close>

theorem executor_refines_spec:
  "fst (executeOnDB save cmd db) = print_reply (fst (spec_step save (typed cmd) (db_view db)))
   \<and> db_view (snd (executeOnDB save cmd db)) = snd (spec_step save (typed cmd) (db_view db))
   \<and> list_all (\<lambda>op. executeOnDB save \<lparr>Op = op, Args = args\<rparr> db = (ErrCommandUnsupported, db))
       [''TTL'', ''EXPIRE'', ''HSET'', ''HGET'', ''LPUSH'', ''LRANGE'', ''FLUSHDB'']"
proof (intro conjI)
  show "list_all (\<lambda>op. executeOnDB save \<lparr>Op = op, Args = args\<rparr> db = (ErrCommandUnsupported, db))
      [''TTL'', ''EXPIRE'', ''HSET'', ''HGET'', ''LPUSH'', ''LRANGE'', ''FLUSHDB'']"
    by (simp add: executeOnDB_def)
qed (simp_all add: executeOnDB_typed exec_typed_spec)

text \<open>
  Reads never write: the store a sequence of commands reaches is the store its commands
  classified by \<^verbatim>\<open>IsWriteOp\<close> reach on their own. A node may therefore execute every other
  command locally without diverging from the replicated state.
\<close>

lemma only_writes_matter:
  "run_commands (executeOnDB save) cmds db = run_commands (executeOnDB save) (filter IsWriteOp cmds) db"
  by (rule engine.run_writes)

text \<open>
  An error reply means that nothing was changed: whenever the reply starts with the error
  prefix, the store is the one before the command.
\<close>

lemma error_reply_no_effect:
  assumes "hd (fst (executeOnDB save cmd db)) = CHR ''-''"
  shows "snd (executeOnDB save cmd db) = db"
  using assms error_reply_unchanged by (simp add: executeOnDB_typed)

text \<open>
  Commands touch only the key they name: after any command, every key other than its first
  argument has the value it had before.
\<close>

lemma command_frame:
  assumes "Args cmd = [] \<or> hd (Args cmd) \<noteq> k"
  shows "Get k (snd (executeOnDB save cmd db)) = Get k db"
  using assms exec_frame [of "typed cmd" k] target_key_typed [of cmd k] by (auto simp: executeOnDB_typed)

text \<open>
  Counters add up: \<open>n\<close> executions of the same \<^verbatim>\<open>INCR\<close>, \<^verbatim>\<open>DECR\<close> or \<^verbatim>\<open>INCRBY\<close> command leave
  \<open>n\<close> times its step added to the counter (an absent key counts as 0), with the sum taken in
  64-bit arithmetic that wraps around.
\<close>

lemma counter_accumulates:
  assumes "typed cmd = IncrC k d" "counter_value (Get k db) = Some i" "0 < n"
  shows "Get k (run_commands (executeOnDB save) (replicate n cmd) db) = Some (Itoa (i + of_nat n * d))"
proof -
  obtain m where n: "n = Suc m" using assms(3) by (cases n) auto
  show ?thesis
    unfolding n run_increments [OF assms(1)] using assms(2) by (rule mem.get_incr_ok)
qed

text \<open>
  Write classification ignores case: for an ASCII command name in any mix of cases,
  \<^verbatim>\<open>BuildCmd\<close> succeeds, keeps the arguments, and the command is a write exactly when the upper-cased
  name is one of the five write operators; the case table for other alphabets is never consulted.
\<close>

lemma write_classification:
  assumes "ascii name"
  shows "\<exists>cmd. BuildCmd up (name # args) = Some cmd \<and> Args cmd = args
    \<and> (IsWriteOp cmd \<longleftrightarrow> map upper_char name \<in> {''SET'', ''DEL'', ''INCR'', ''DECR'', ''INCRBY''})"
  using assms by (auto simp: BuildCmd_def IsWriteOp_def ToUpper_ascii split: list.splits)

end
