(* ===== verification/Json.thy ===== *)
theory Json
  imports Utf8
begin

text \<open>
  The part of Go's \<^verbatim>\<open>encoding/json\<close> (Go 1.23) the program uses: \<^verbatim>\<open>Marshal\<close> and \<^verbatim>\<open>Encoder.Encode\<close> of
  structures of strings, numbers, string slices and string maps; \<^verbatim>\<open>Unmarshal\<close> and \<^verbatim>\<open>Decoder.Decode\<close>
  of arbitrary texts into those structures. The decoder is the package's: texts are
  scanned completely before anything is stored, strings are unquoted with every escape and with
  invalid UTF-8 and lone surrogates replaced, object keys match fields exactly or up to
  case folding, \<^verbatim>\<open>null\<close> leaves scalars alone, nesting is limited to 10000 levels. The lemmas at
  the end show that what the encoder prints is read back with each string made valid UTF-8.
\<close>

section \<open>Values\<close>

datatype json =
    JNull
  | JBool bool
  | JNum bytes
  | JStr bytes
  | JArr "json list"
  | JObj "(bytes \<times> json) list"

definition is_space :: "char \<Rightarrow> bool" where
  "is_space c \<longleftrightarrow> c = CHR 0x20 \<or> c = CHR 0x09 \<or> c = CHR 0x0A \<or> c = CHR 0x0D"

definition skip_ws :: "bytes \<Rightarrow> bytes" where
  "skip_ws s = dropWhile is_space s"

section \<open>String literals\<close>

definition hex_digit :: "nat \<Rightarrow> char" where
  "hex_digit n = (if n < 10 then char_of (48 + n) else char_of (87 + n))"

definition hex_val :: "char \<Rightarrow> nat option" where
  "hex_val c =
     (let b = byte c in
      if 48 \<le> b \<and> b \<le> 57 then Some (b - 48)
      else if 97 \<le> b \<and> b \<le> 102 then Some (b - 87)
      else if 65 \<le> b \<and> b \<le> 70 then Some (b - 55)
      else None)"

text \<open>The four hexadecimal digits of a \<^verbatim>\<open>\u\<close> escape, and the remaining bytes.\<close>

definition hex4 :: "bytes \<Rightarrow> (nat \<times> bytes) option" where
  "hex4 s =
     (case s of
        a # b # c # d # t \<Rightarrow>
          (case (hex_val a, hex_val b, hex_val c, hex_val d) of
             (Some w, Some x, Some y, Some z) \<Rightarrow> Some (((w * 16 + x) * 16 + y) * 16 + z, t)
           | _ \<Rightarrow> None)
      | _ \<Rightarrow> None)"

definition is_surrogate :: "nat \<Rightarrow> bool" where
  "is_surrogate r \<longleftrightarrow> 55296 \<le> r \<and> r < 57344"

definition low_surrogate :: "bytes \<Rightarrow> (nat \<times> bytes) option" where
  \<comment> \<open>a \<^verbatim>\<open>\u\<close> escape of the second half of a surrogate pair at the head of the text\<close>
  "low_surrogate s =
     (case s of
        a # b # t \<Rightarrow>
          if a = CHR 0x5C \<and> b = CHR ''u'' then
            (case hex4 t of
               Some (r, u) \<Rightarrow> if 56320 \<le> r \<and> r < 57344 then Some (r, u) else None
             | None \<Rightarrow> None)
          else None
      | _ \<Rightarrow> None)"

definition unicode_escape :: "bytes \<Rightarrow> (bytes \<times> bytes) option" where
  "unicode_escape s =
     (case hex4 s of
        None \<Rightarrow> None
      | Some (r, t) \<Rightarrow>
          if is_surrogate r then
            (case (if r < 56320 then low_surrogate t else None) of
               Some (r2, u) \<Rightarrow> Some (EncodeRune (65536 + (r - 55296) * 1024 + (r2 - 56320)), u)
             | None \<Rightarrow> Some (EncodeRune RuneError, t))
          else Some (EncodeRune r, t))"

definition simple_escape :: "char \<Rightarrow> char option" where
  "simple_escape e =
     (if e = CHR 0x22 \<or> e = CHR 0x5C \<or> e = CHR ''/'' then Some e
      else if e = CHR ''b'' then Some (CHR 0x08)
      else if e = CHR ''f'' then Some (CHR 0x0C)
      else if e = CHR ''n'' then Some (CHR 0x0A)
      else if e = CHR ''r'' then Some (CHR 0x0D)
      else if e = CHR ''t'' then Some (CHR 0x09)
      else None)"

definition escape :: "bytes \<Rightarrow> (bytes \<times> bytes) option" where
  "escape s =
     (case s of
        [] \<Rightarrow> None
      | e # t \<Rightarrow>
          if e = CHR ''u'' then unicode_escape t
          else (case simple_escape e of Some c \<Rightarrow> Some ([c], t) | None \<Rightarrow> None))"

lemma hex4_length: "hex4 s = Some (r, t) \<Longrightarrow> length t + 4 = length s"
  by (auto simp: hex4_def split: list.splits option.splits)

lemma low_surrogate_length: "low_surrogate s = Some (r, t) \<Longrightarrow> length t < length s"
  by (auto simp: low_surrogate_def dest!: hex4_length split: list.splits option.splits if_splits)

lemma escape_length: "escape s = Some (b, t) \<Longrightarrow> length t < length s"
  by (auto simp: escape_def unicode_escape_def dest!: hex4_length low_surrogate_length
      split: list.splits option.splits if_splits)

text \<open>
  \<open>unquote\<close> reads a literal after its opening quote: the decoded string and the bytes after the
  closing quote.
\<close>

function unquote :: "bytes \<Rightarrow> (bytes \<times> bytes) option" where
  "unquote s =
     (case s of
        [] \<Rightarrow> None
      | c # t \<Rightarrow>
          if c = CHR 0x22 then Some ([], t)
          else if c = CHR 0x5C then
            (case escape t of
               None \<Rightarrow> None
             | Some (b, u) \<Rightarrow> map_option (apfst ((@) b)) (unquote u))
          else if byte c < 32 then None
          else map_option (apfst ((@) (EncodeRune (fst (DecodeRune s)))))
                 (unquote (drop (snd (DecodeRune s)) s)))"
  by pat_completeness auto
termination
proof (relation "measure length")
  fix s c t and a :: "bytes \<times> bytes" and b u :: bytes
  assume "s = c # t" "escape t = Some a" "(b, u) = a"
  then show "(u, s) \<in> measure length" using escape_length [of t b u] by auto
next
  fix s :: bytes and c t assume "s = c # t"
  then show "(drop (snd (DecodeRune s)) s, s) \<in> measure length"
    using DecodeRune_width [of s] by auto
qed auto

declare unquote.simps [simp del]

lemma unquote_Nil [simp]: "unquote [] = None"
  by (simp add: unquote.simps)

lemma unquote_end [simp]: "unquote (CHR 0x22 # t) = Some ([], t)"
  by (simp add: unquote.simps)

lemma unquote_escape:
  "unquote (CHR 0x5C # t) =
     (case escape t of None \<Rightarrow> None | Some (b, u) \<Rightarrow> map_option (apfst ((@) b)) (unquote u))"
  by (simp add: unquote.simps [of "CHR 0x5C # t"])

lemma unquote_plain:
  "c \<noteq> CHR 0x22 \<Longrightarrow> c \<noteq> CHR 0x5C \<Longrightarrow> unquote (c # t) =
     (if byte c < 32 then None
      else map_option (apfst ((@) (EncodeRune (fst (DecodeRune (c # t))))))
             (unquote (drop (snd (DecodeRune (c # t))) (c # t))))"
  by (simp add: unquote.simps [of "c # t"])

lemma unquote_length: "unquote s = Some (x, r) \<Longrightarrow> length r < length s"
proof (induction s arbitrary: x r rule: unquote.induct)
  case (1 s)
  show ?case
  proof (cases s)
    case Nil with 1(3) show ?thesis by simp
  next
    case (Cons c t)
    have w: "0 < snd (DecodeRune s)" using DecodeRune_width [of s] Cons by simp
    consider (quote) "c = CHR 0x22" | (esc) "c = CHR 0x5C" | (plain) "c \<noteq> CHR 0x22" "c \<noteq> CHR 0x5C"
      by blast
    then show ?thesis
    proof cases
      case quote with 1(3) Cons show ?thesis by simp
    next
      case esc
      with 1(3) Cons obtain b u x' where e: "escape t = Some (b, u)" "unquote u = Some (x', r)"
        by (auto simp: unquote_escape split: option.splits)
      have "length r < length u" using 1(1) [OF Cons _ esc e(1) refl e(2)] esc by simp
      then show ?thesis using escape_length [OF e(1)] Cons by simp
    next
      case plain
      with 1(3) Cons obtain x' where e: "unquote (drop (snd (DecodeRune s)) s) = Some (x', r)" "\<not> byte c < 32"
        by (auto simp: unquote_plain split: if_splits)
      have "length r < length (drop (snd (DecodeRune s)) s)" using 1(2) [OF Cons plain e(2,1)] .
      then show ?thesis using w by simp
    qed
  qed
qed

section \<open>Numbers\<close>

definition number_int :: "bytes \<Rightarrow> (bytes \<times> bytes) option" where
  "number_int s =
     (case s of
        [] \<Rightarrow> None
      | c # t \<Rightarrow>
          if c = CHR ''0'' then Some ([c], t)
          else if is_digit c then Some (c # takeWhile is_digit t, dropWhile is_digit t)
          else None)"

definition number_digits :: "bytes \<Rightarrow> bytes \<Rightarrow> (bytes \<times> bytes) option" where
  \<comment> \<open>at least one digit after what was read already\<close>
  "number_digits pre s =
     (if takeWhile is_digit s = [] then None
      else Some (pre @ takeWhile is_digit s, dropWhile is_digit s))"

definition number_frac :: "bytes \<Rightarrow> (bytes \<times> bytes) option" where
  "number_frac s =
     (case s of
        [] \<Rightarrow> Some ([], s)
      | c # t \<Rightarrow> if c = CHR ''.'' then number_digits [c] t else Some ([], s))"

definition number_exp :: "bytes \<Rightarrow> (bytes \<times> bytes) option" where
  "number_exp s =
     (case s of
        [] \<Rightarrow> Some ([], s)
      | c # t \<Rightarrow>
          if c = CHR ''e'' \<or> c = CHR ''E'' then
            (case t of
               [] \<Rightarrow> None
             | d # u \<Rightarrow>
                 if d = CHR ''+'' \<or> d = CHR ''-'' then number_digits [c, d] u
                 else number_digits [c] t)
          else Some ([], s))"

definition parse_number :: "bytes \<Rightarrow> (bytes \<times> bytes) option" where
  "parse_number s =
     (let (sign, t) = (case s of [] \<Rightarrow> ([], s) | c # t \<Rightarrow> if c = CHR ''-'' then ([c], t) else ([], s)) in
      case number_int t of
        None \<Rightarrow> None
      | Some (i, u) \<Rightarrow>
          (case number_frac u of
             None \<Rightarrow> None
           | Some (f, v) \<Rightarrow>
               (case number_exp v of
                  None \<Rightarrow> None
                | Some (e, w) \<Rightarrow> Some (sign @ i @ f @ e, w))))"

lemma number_lengths:
  "number_int s = Some (x, r) \<Longrightarrow> length r < length s"
  "number_frac s = Some (x, r) \<Longrightarrow> length r \<le> length s"
  "number_exp s = Some (x, r) \<Longrightarrow> length r \<le> length s"
  by (auto simp: number_int_def number_frac_def number_exp_def number_digits_def less_Suc_eq_le
      intro: le_SucI order_trans [OF length_dropWhile_le] split: list.splits if_splits)

lemma parse_number_length: "parse_number s = Some (x, r) \<Longrightarrow> length r < length s"
  by (auto simp: parse_number_def dest!: number_lengths split: list.splits if_splits option.splits prod.splits)

section \<open>Scanning a value\<close>

definition literal :: "bytes \<Rightarrow> json \<Rightarrow> bytes \<Rightarrow> (json \<times> bytes) option" where
  "literal w j s = (if HasPrefix s w then Some (j, drop (length w) s) else None)"

definition scalar_value :: "bytes \<Rightarrow> (json \<times> bytes) option" where
  "scalar_value s =
     (case s of
        [] \<Rightarrow> None
      | c # t \<Rightarrow>
          if c = CHR 0x22 then map_option (apfst JStr) (unquote t)
          else if c = CHR ''t'' then literal ''true'' (JBool True) s
          else if c = CHR ''f'' then literal ''false'' (JBool False) s
          else if c = CHR ''n'' then literal ''null'' JNull s
          else map_option (apfst JNum) (parse_number s))"

text \<open>
  \<open>parse_value f d s\<close> reads one value from \<open>s\<close> after white space: \<open>d\<close> is the number of nesting
  levels still allowed and \<open>f\<close> the fuel of the recursion, of which \<open>2 * length s + 1\<close> is always
  enough (\<open>parse_value_stable\<close> below). \<open>parse_elems\<close> and \<open>parse_members\<close> read the rest of an array
  or object from its first element on.
\<close>

fun parse_value :: "nat \<Rightarrow> nat \<Rightarrow> bytes \<Rightarrow> (json \<times> bytes) option"
and parse_elems :: "nat \<Rightarrow> nat \<Rightarrow> bytes \<Rightarrow> (json list \<times> bytes) option"
and parse_members :: "nat \<Rightarrow> nat \<Rightarrow> bytes \<Rightarrow> ((bytes \<times> json) list \<times> bytes) option"
where
  "parse_value 0 d s = None"
| "parse_value (Suc f) d s =
     (case skip_ws s of
        [] \<Rightarrow> None
      | c # t \<Rightarrow>
          if c = CHR ''['' then
            if d = 0 then None
            else (case skip_ws t of
                    [] \<Rightarrow> None
                  | c' # t' \<Rightarrow>
                      if c' = CHR '']'' then Some (JArr [], t')
                      else map_option (apfst JArr) (parse_elems f (d - 1) (c' # t')))
          else if c = CHR ''{'' then
            if d = 0 then None
            else (case skip_ws t of
                    [] \<Rightarrow> None
                  | c' # t' \<Rightarrow>
                      if c' = CHR ''}'' then Some (JObj [], t')
                      else map_option (apfst JObj) (parse_members f (d - 1) (c' # t')))
          else scalar_value (c # t))"
| "parse_elems 0 d s = None"
| "parse_elems (Suc f) d s =
     (case parse_value f d s of
        None \<Rightarrow> None
      | Some (v, r) \<Rightarrow>
          (case skip_ws r of
             [] \<Rightarrow> None
           | c # t \<Rightarrow>
               if c = CHR '','' then map_option (apfst ((#) v)) (parse_elems f d t)
               else if c = CHR '']'' then Some ([v], t)
               else None))"
| "parse_members 0 d s = None"
| "parse_members (Suc f) d s =
     (case skip_ws s of
        [] \<Rightarrow> None
      | q # t \<Rightarrow>
          if q \<noteq> CHR 0x22 then None
          else (case unquote t of
                  None \<Rightarrow> None
                | Some (k, u) \<Rightarrow>
                    (case skip_ws u of
                       [] \<Rightarrow> None
                     | c # v \<Rightarrow>
                         if c \<noteq> CHR '':'' then None
                         else (case parse_value f d v of
                                 None \<Rightarrow> None
                               | Some (x, r) \<Rightarrow>
                                   (case skip_ws r of
                                      [] \<Rightarrow> None
                                    | e # w \<Rightarrow>
                                        if e = CHR '','' then map_option (apfst ((#) (k, x))) (parse_members f d w)
                                        else if e = CHR ''}'' then Some ([(k, x)], w)
                                        else None)))))"

definition max_depth :: nat where
  "max_depth = 10000"

definition parse_prefix :: "bytes \<Rightarrow> (json \<times> bytes) option" where
  "parse_prefix s = parse_value (2 * length s + 1) max_depth s"

text \<open>\<open>Unmarshal\<close> accepts one value with nothing but white space around it.\<close>

definition parse_text :: "bytes \<Rightarrow> json option" where
  "parse_text s =
     (case parse_prefix s of
        None \<Rightarrow> None
      | Some (v, r) \<Rightarrow> if skip_ws r = [] then Some v else None)"

section \<open>The scanner consumes input, and its fuel is enough\<close>

lemma skip_ws_length: "length (skip_ws s) \<le> length s"
  by (simp add: skip_ws_def length_dropWhile_le)

lemma skip_ws_Cons_length: "skip_ws s = c # t \<Longrightarrow> length t < length s"
  using skip_ws_length [of s] by simp

lemma scalar_value_length: "scalar_value s = Some (v, r) \<Longrightarrow> length r < length s"
  by (auto simp: scalar_value_def literal_def HasPrefix_iff dest!: unquote_length parse_number_length
      split: list.splits if_splits)

lemma parse_length:
  "parse_value f d s = Some (v, r) \<Longrightarrow> length r < length s"
  "parse_elems f d s = Some (vs, r) \<Longrightarrow> length r < length s"
  "parse_members f d s = Some (ms, r) \<Longrightarrow> length r < length s"
proof (induction f arbitrary: d s v vs ms r)
  case (Suc f)
  { case 1
    then obtain c t where ct: "skip_ws s = c # t" by (auto split: list.splits)
    then have "length t < length s" by (rule skip_ws_Cons_length)
    with 1 ct Suc.IH(2,3) show ?case
      by (fastforce dest: skip_ws_Cons_length scalar_value_length split: list.splits if_splits)
  next
    case 2
    then obtain x u c t where x: "parse_value f d s = Some (x, u)" "skip_ws u = c # t"
      by (auto split: option.splits list.splits)
    with Suc.IH(1) have "length u < length s" "length t < length u"
      by (auto dest: skip_ws_Cons_length)
    with 2 x Suc.IH(2) show ?case by (fastforce split: if_splits)
  next
    case 3
    then obtain q t k u c v' x u' e w where x: "skip_ws s = q # t" "unquote t = Some (k, u)" "skip_ws u = c # v'"
      "parse_value f d v' = Some (x, u')" "skip_ws u' = e # w"
      by (auto split: option.splits list.splits if_splits)
    have len: "length t < length s" "length u < length t" "length v' < length u" "length u' < length v'" "length w < length u'"
      using x Suc.IH(1) [OF x(4)] by (auto dest: skip_ws_Cons_length unquote_length)
    show ?case
    proof (cases "e = CHR '',''")
      case True
      with 3 x obtain ms' where "parse_members f d w = Some (ms', r)" by (auto split: if_splits)
      from Suc.IH(3) [OF this] len show ?thesis by simp
    next
      case False with 3 x len show ?thesis by (auto split: if_splits)
    qed }
qed simp_all

lemma parse_stable:
  "2 * length s + 1 \<le> f \<Longrightarrow> 2 * length s + 1 \<le> g \<Longrightarrow> parse_value f d s = parse_value g d s"
  "2 * length s + 2 \<le> f \<Longrightarrow> 2 * length s + 2 \<le> g \<Longrightarrow> parse_elems f d s = parse_elems g d s"
  "2 * length s + 2 \<le> f \<Longrightarrow> 2 * length s + 2 \<le> g \<Longrightarrow> parse_members f d s = parse_members g d s"
proof (induction f arbitrary: g d s)
  case (Suc f)
  { case 1
    then obtain g' where g: "g = Suc g'" by (cases g) auto
    have e: "parse_elems f d' (c' # t') = parse_elems g' d' (c' # t')"
      and m: "parse_members f d' (c' # t') = parse_members g' d' (c' # t')"
      if "skip_ws s = c # t" "skip_ws t = c' # t'" for c t c' t' d'
    proof -
      have "length (c' # t') \<le> length t" "length t < length s"
        using that skip_ws_length [of t] skip_ws_Cons_length [OF that(1)] by simp_all
      then have "2 * length (c' # t') + 2 \<le> f" "2 * length (c' # t') + 2 \<le> g'"
        using 1 g by simp_all
      then show "parse_elems f d' (c' # t') = parse_elems g' d' (c' # t')"
        "parse_members f d' (c' # t') = parse_members g' d' (c' # t')"
        by (rule Suc.IH)+
    qed
    show ?case by (simp add: g e m split: list.split)
  next
    case 2
    then obtain g' where g: "g = Suc g'" by (cases g) auto
    have v: "parse_value f d s = parse_value g' d s" using 2 g by (intro Suc.IH) simp_all
    have e: "parse_elems f d t = parse_elems g' d t"
      if "parse_value g' d s = Some (x, r)" "skip_ws r = c # t" for x r c t
    proof -
      have "length t < length s" using parse_length(1) [OF that(1)] skip_ws_Cons_length [OF that(2)] by simp
      then show ?thesis using 2 g by (intro Suc.IH) simp_all
    qed
    show ?case by (simp add: g v e split: list.split option.split)
  next
    case 3
    then obtain g' where g: "g = Suc g'" by (cases g) auto
    have v: "parse_value f d w = parse_value g' d w"
      if "skip_ws s = q # t" "unquote t = Some (k, u)" "skip_ws u = c # w" for q t k u c w
    proof -
      have "length w < length s"
        using skip_ws_Cons_length [OF that(1)] unquote_length [OF that(2)] skip_ws_Cons_length [OF that(3)] by simp
      then show ?thesis using 3 g by (intro Suc.IH) simp_all
    qed
    have e: "parse_members f d y = parse_members g' d y"
      if "skip_ws s = q # t" "unquote t = Some (k, u)" "skip_ws u = c # w"
        "parse_value g' d w = Some (x, r)" "skip_ws r = c' # y" for q t k u c w x r c' y
    proof -
      have "length y < length s"
        using skip_ws_Cons_length [OF that(1)] unquote_length [OF that(2)] skip_ws_Cons_length [OF that(3)]
          parse_length(1) [OF that(4)] skip_ws_Cons_length [OF that(5)] by simp
      then show ?thesis using 3 g by (intro Suc.IH) simp_all
    qed
    show ?case by (simp add: g v e split: list.split option.split)
  }
qed simp_all

lemma parse_prefix_fuel: "2 * length s + 1 \<le> f \<Longrightarrow> parse_value f max_depth s = parse_prefix s"
  unfolding parse_prefix_def by (rule parse_stable(1)) simp_all

section \<open>Printing\<close>

definition quote_rune :: "nat \<times> nat \<Rightarrow> bytes" where
  \<comment> \<open>\<^verbatim>\<open>appendString\<close> with HTML escaping, for one decoded rune\<close>
  "quote_rune x =
     (let r = fst x in
      if r = 34 \<or> r = 92 then [CHR 0x5C, char_of r]
      else if r = 8 then [CHR 0x5C, CHR ''b'']
      else if r = 12 then [CHR 0x5C, CHR ''f'']
      else if r = 10 then [CHR 0x5C, CHR ''n'']
      else if r = 13 then [CHR 0x5C, CHR ''r'']
      else if r = 9 then [CHR 0x5C, CHR ''t'']
      else if r < 32 \<or> r = 60 \<or> r = 62 \<or> r = 38 then
        CHR 0x5C # ''u00'' @ [hex_digit (r div 16), hex_digit (r mod 16)]
      else if invalid_rune x then CHR 0x5C # ''ufffd''
      else if r = 8232 \<or> r = 8233 then CHR 0x5C # ''u202'' @ [hex_digit (r mod 16)]
      else EncodeRune r)"

definition quote :: "bytes \<Rightarrow> bytes" where
  "quote s = CHR 0x22 # concat (map quote_rune (runes s)) @ [CHR 0x22]"

fun comma_sep :: "bytes list \<Rightarrow> bytes" where
  "comma_sep [] = []"
| "comma_sep [x] = x"
| "comma_sep (x # y # xs) = x @ CHR '','' # comma_sep (y # xs)"

fun print_json :: "json \<Rightarrow> bytes" where
  "print_json JNull = ''null''"
| "print_json (JBool b) = (if b then ''true'' else ''false'')"
| "print_json (JNum t) = t"
| "print_json (JStr s) = quote s"
| "print_json (JArr js) = CHR ''['' # comma_sep (map print_json js) @ '']''"
| "print_json (JObj kvs) =
     CHR ''{'' # comma_sep (map (\<lambda>kv. quote (fst kv) @ CHR '':'' # print_json (snd kv)) kvs) @ ''}''"

text \<open>What a printed value reads as: each string made valid UTF-8.\<close>

fun coerce_json :: "json \<Rightarrow> json" where
  "coerce_json (JStr s) = JStr (coerce s)"
| "coerce_json (JArr js) = JArr (map coerce_json js)"
| "coerce_json (JObj kvs) = JObj (map (\<lambda>kv. (coerce (fst kv), coerce_json (snd kv))) kvs)"
| "coerce_json j = j"

section \<open>Reading back what was printed\<close>

lemma hex_val_hex_digit: "n < 16 \<Longrightarrow> hex_val (hex_digit n) = Some n"
  by (simp add: hex_val_def hex_digit_def Let_def)

lemma unquote_u_escape:
  assumes "w < 16" "x < 16" "y < 16" "z < 16" "r = ((w * 16 + x) * 16 + y) * 16 + z" "\<not> is_surrogate r"
  shows "unquote (CHR 0x5C # CHR ''u'' # hex_digit w # hex_digit x # hex_digit y # hex_digit z # t) =
    map_option (apfst ((@) (EncodeRune r))) (unquote t)"
  using assms by (simp add: unquote_escape escape_def unicode_escape_def hex4_def hex_val_hex_digit)

lemma unquote_rune:
  assumes "scalar r" "\<not> r < 32" "r \<noteq> 34" "r \<noteq> 92"
  shows "unquote (EncodeRune r @ t) = map_option (apfst ((@) (EncodeRune r))) (unquote t)"
proof -
  obtain c u where e: "EncodeRune r = c # u" by (cases "EncodeRune r") auto
  have c: "byte c = r \<or> 128 \<le> byte c"
    using e assms(1) by (auto simp: EncodeRune_def scalar_def split: if_splits)
  have d: "DecodeRune (c # u @ t) = (r, length (EncodeRune r))"
    using DecodeRune_EncodeRune [OF assms(1), of t] e by simp
  have "c \<noteq> CHR 0x22" "c \<noteq> CHR 0x5C" "\<not> byte c < 32"
    using c assms by auto
  then have "unquote (c # u @ t) = map_option (apfst ((@) (EncodeRune r))) (unquote (drop (length (EncodeRune r)) (c # u @ t)))"
    by (simp add: unquote_plain d)
  then show ?thesis using e by simp
qed

lemma hex_digit_literals:
  "hex_digit 0 = CHR ''0''" "hex_digit 2 = CHR ''2''" "hex_digit 13 = CHR ''d''" "hex_digit 15 = CHR ''f''"
  by (simp_all add: hex_digit_def char_of_def bit_0)

lemma EncodeRune_ascii: "r < 128 \<Longrightarrow> EncodeRune r = [char_of r]"
  by (simp add: EncodeRune_def)

lemma unquote_low_escape:
  "r < 128 \<Longrightarrow> unquote (CHR 0x5C # CHR ''u'' # CHR ''0'' # CHR ''0'' # hex_digit (r div 16) # hex_digit (r mod 16) # t) =
    map_option (apfst ((@) (EncodeRune r))) (unquote t)"
  using unquote_u_escape [of 0 0 "r div 16" "r mod 16" r t]
  by (simp add: hex_digit_literals is_surrogate_def)

lemma unquote_bad_rune:
  "unquote (quote_rune (RuneError, Suc 0) @ t) = map_option (apfst ((@) (EncodeRune RuneError))) (unquote t)"
  using unquote_u_escape [of 15 15 15 13 RuneError t]
  by (simp add: hex_digit_literals is_surrogate_def quote_rune_def Let_def RuneError_def invalid_rune_def)

lemma unquote_line_separators:
  "r = 8232 \<or> r = 8233 \<Longrightarrow> unquote (CHR 0x5C # CHR ''u'' # CHR ''2'' # CHR ''0'' # CHR ''2'' # hex_digit (r mod 16) # t) =
    map_option (apfst ((@) (EncodeRune r))) (unquote t)"
  using unquote_u_escape [of 2 0 2 "r mod 16" r t]
  by (auto simp: hex_digit_literals is_surrogate_def)

lemma unquote_quote_rune:
  assumes "scalar r"
  shows "unquote (quote_rune (r, length (EncodeRune r)) @ t) = map_option (apfst ((@) (EncodeRune r))) (unquote t)"
proof -
  consider "r = 34 \<or> r = 92 \<or> r = 8 \<or> r = 12 \<or> r = 10 \<or> r = 13 \<or> r = 9"
    | "r \<notin> {34, 92, 8, 12, 10, 13, 9}" "r < 32 \<or> r = 60 \<or> r = 62 \<or> r = 38"
    | "r = 8232 \<or> r = 8233"
    | "r \<notin> {34, 92, 60, 62, 38, 8232, 8233}" "\<not> r < 32" by force
  then show ?thesis
  proof cases
    case 1
    then show ?thesis
      by (auto simp: quote_rune_def Let_def unquote_escape escape_def simple_escape_def EncodeRune_ascii char_of_def bit_0)
  next
    case 2
    then show ?thesis using unquote_low_escape [of r t] by (auto simp: quote_rune_def Let_def)
  next
    case 3
    then show ?thesis using unquote_line_separators [of r t] by (auto simp: quote_rune_def Let_def)
  next
    case 4
    then show ?thesis using unquote_rune [OF assms] by (auto simp: quote_rune_def Let_def)
  qed
qed

lemma unquote_quote: "unquote (concat (map quote_rune (runes s)) @ CHR 0x22 # t) = Some (coerce s, t)"
proof (induction s rule: utf8_induct)
  case (bad c u)
  then show ?case by (simp add: runes_bad coerce_bad unquote_bad_rune)
next
  case (rune r u)
  then show ?case by (simp add: runes_EncodeRune coerce_rune unquote_quote_rune)
qed simp

fun json_depth :: "json \<Rightarrow> nat" where
  "json_depth (JArr js) = Suc (Max (insert 0 (set (map json_depth js))))"
| "json_depth (JObj kvs) = Suc (Max (insert 0 (set (map (\<lambda>kv. json_depth (snd kv)) kvs))))"
| "json_depth j = 0"

text \<open>The only numbers the program prints are unsigned decimals.\<close>

fun plain_numbers :: "json \<Rightarrow> bool" where
  "plain_numbers (JNum t) \<longleftrightarrow> (\<exists>n. t = show_nat n)"
| "plain_numbers (JArr js) \<longleftrightarrow> (\<forall>j \<in> set js. plain_numbers j)"
| "plain_numbers (JObj kvs) \<longleftrightarrow> (\<forall>kv \<in> set kvs. plain_numbers (snd kv))"
| "plain_numbers j \<longleftrightarrow> True"

definition delimited :: "bytes \<Rightarrow> bool" where
  \<comment> \<open>no byte that could continue a number\<close>
  "delimited s \<longleftrightarrow> (case s of [] \<Rightarrow> True | c # _ \<Rightarrow> \<not> is_digit c \<and> c \<noteq> CHR ''.'' \<and> c \<noteq> CHR ''e'' \<and> c \<noteq> CHR ''E'')"

lemma delimited_simps [simp]: "delimited []" "delimited (CHR '','' # s)" "delimited (CHR '']'' # s)"
  "delimited (CHR ''}'' # s)" "delimited (CHR 0x0A # s)"
  by (simp_all add: delimited_def is_digit_def)

lemma show_nat_zero: "show_nat 0 = ''0''"
  by (simp add: show_nat.simps digit_char_def char_of_def bit_0)

lemma show_nat_head: "0 < n \<Longrightarrow> \<exists>c t. show_nat n = c # t \<and> c \<noteq> CHR ''0''"
proof (induction n rule: show_nat.induct)
  case (1 n)
  show ?case
  proof (cases "n < 10")
    case True
    have "digit_char n \<noteq> CHR ''0''"
      using of_char_digit_char [OF True] 1(2) by (auto dest: arg_cong [where f = byte])
    with True show ?thesis by (subst show_nat.simps) simp
  next
    case False
    then have "0 < n div 10" by (simp add: div_greater_zero_iff)
    with False 1 obtain c t where "show_nat (n div 10) = c # t \<and> c \<noteq> CHR ''0''" by auto
    with False show ?thesis by (subst show_nat.simps) simp
  qed
qed

lemma digit_run:
  "list_all is_digit t \<Longrightarrow> delimited rest \<Longrightarrow> takeWhile is_digit (t @ rest) = t"
  "list_all is_digit t \<Longrightarrow> delimited rest \<Longrightarrow> dropWhile is_digit (t @ rest) = rest"
  by (induction t) (auto simp: delimited_def split: list.splits)

lemma parse_number_show_nat:
  assumes "delimited rest"
  shows "parse_number (show_nat n @ rest) = Some (show_nat n, rest)"
proof -
  have i: "number_int (show_nat n @ rest) = Some (show_nat n, rest)"
  proof (cases "n = 0")
    case True then show ?thesis by (simp add: show_nat_zero number_int_def)
  next
    case False
    then obtain c t where ct: "show_nat n = c # t" "c \<noteq> CHR ''0''" using show_nat_head [of n] by auto
    with show_nat_digits [of n] digit_run [of t rest] assms show ?thesis by (simp add: number_int_def)
  qed
  obtain c t where ct: "show_nat n = c # t" "is_digit c"
    using show_nat_digits [of n] by (cases "show_nat n") auto
  have fe: "number_frac rest = Some ([], rest)" "number_exp rest = Some ([], rest)"
    using assms by (auto simp: number_frac_def number_exp_def delimited_def split: list.splits)
  have "c \<noteq> CHR ''-''" using ct(2) minus_not_digit by auto
  with i fe ct(1) show ?thesis by (simp add: parse_number_def)
qed

lemma skip_ws_quote [simp]: "skip_ws (CHR 0x22 # t) = CHR 0x22 # t"
  by (simp add: skip_ws_def is_space_def)

lemma scalar_quote: "scalar_value (quote s @ t) = Some (JStr (coerce s), t)"
  by (simp add: scalar_value_def quote_def unquote_quote)

lemma skip_ws_punct [simp]:
  "skip_ws (CHR '','' # t) = CHR '','' # t" "skip_ws (CHR '']'' # t) = CHR '']'' # t"
  "skip_ws (CHR ''}'' # t) = CHR ''}'' # t" "skip_ws (CHR '':'' # t) = CHR '':'' # t"
  "skip_ws (CHR ''['' # t) = CHR ''['' # t" "skip_ws (CHR ''{'' # t) = CHR ''{'' # t"
  by (simp_all add: skip_ws_def is_space_def)

lemma print_head:
  "plain_numbers j \<Longrightarrow> \<exists>c t. print_json j = c # t \<and> \<not> is_space c \<and> c \<noteq> CHR '']''"
proof (cases j)
  case (JNum x)
  assume "plain_numbers j"
  with JNum obtain n where n: "x = show_nat n" by auto
  obtain c t where ct: "show_nat n = c # t" "is_digit c"
    using show_nat_digits [of n] by (cases "show_nat n") auto
  then show ?thesis using JNum n by (auto simp: is_space_def is_digit_def)
qed (auto simp: is_space_def quote_def)

lemma skip_ws_nonspace: "\<not> is_space c \<Longrightarrow> skip_ws (c # t) = c # t"
  by (simp add: skip_ws_def)

lemma comma_sep_Cons: "xs \<noteq> [] \<Longrightarrow> comma_sep (x # xs) = x @ CHR '','' # comma_sep xs"
  by (cases xs) simp_all

lemma parse_elems_print:
  assumes "\<And>j f rest. j \<in> set js \<Longrightarrow> 2 * length (pr j @ rest) + 1 \<le> f \<Longrightarrow> delimited rest \<Longrightarrow>
      parse_value f d (pr j @ rest) = Some (g j, rest)"
    and "js \<noteq> []" and "2 * length (comma_sep (map pr js) @ CHR '']'' # rest) + 2 \<le> f"
  shows "parse_elems f d (comma_sep (map pr js) @ CHR '']'' # rest) = Some (map g js, rest)"
  using assms
proof (induction js arbitrary: f)
  case (Cons j js)
  then obtain f' where f: "f = Suc f'" by (cases f) auto
  show ?case
  proof (cases "js = []")
    case True
    then have "parse_value f' d (pr j @ CHR '']'' # rest) = Some (g j, CHR '']'' # rest)"
      using Cons.prems f by (intro Cons.prems(1)) simp_all
    with True f show ?thesis by simp
  next
    case False
    let ?u = "CHR '','' # comma_sep (map pr js) @ CHR '']'' # rest"
    have v: "parse_value f' d (pr j @ ?u) = Some (g j, ?u)"
      using Cons.prems False f by (intro Cons.prems(1)) (simp_all add: comma_sep_Cons)
    have "parse_elems f' d (comma_sep (map pr js) @ CHR '']'' # rest) = Some (map g js, rest)"
      using Cons.prems False f by (intro Cons.IH) (simp_all add: comma_sep_Cons)
    with v f False show ?thesis by (simp add: comma_sep_Cons)
  qed
qed simp

lemma parse_members_print:
  assumes "\<And>j f rest. j \<in> set js \<Longrightarrow> 2 * length (pr j @ rest) + 1 \<le> f \<Longrightarrow> delimited rest \<Longrightarrow>
      parse_value f d (pr j @ rest) = Some (g j, rest)"
    and "js \<noteq> []"
    and "2 * length (comma_sep (map (\<lambda>j. quote (k j) @ CHR '':'' # pr j) js) @ CHR ''}'' # rest) + 2 \<le> f"
  shows "parse_members f d (comma_sep (map (\<lambda>j. quote (k j) @ CHR '':'' # pr j) js) @ CHR ''}'' # rest) =
    Some (map (\<lambda>j. (coerce (k j), g j)) js, rest)"
  using assms
proof (induction js arbitrary: f)
  case (Cons j js)
  then obtain f' where f: "f = Suc f'" by (cases f) auto
  have q: "skip_ws (quote (k j) @ u) = CHR 0x22 # concat (map quote_rune (runes (k j))) @ CHR 0x22 # u" for u
    by (simp add: quote_def)
  show ?case
  proof (cases "js = []")
    case True
    then have "parse_value f' d (pr j @ CHR ''}'' # rest) = Some (g j, CHR ''}'' # rest)"
      using Cons.prems f by (intro Cons.prems(1)) (simp_all add: quote_def)
    with True f show ?thesis by (simp add: q unquote_quote)
  next
    case False
    let ?r = "comma_sep (map (\<lambda>j. quote (k j) @ CHR '':'' # pr j) js) @ CHR ''}'' # rest"
    have v: "parse_value f' d (pr j @ CHR '','' # ?r) = Some (g j, CHR '','' # ?r)"
      using Cons.prems False f by (intro Cons.prems(1)) (simp_all add: comma_sep_Cons)
    have "parse_members f' d ?r = Some (map (\<lambda>j. (coerce (k j), g j)) js, rest)"
      using Cons.prems False f by (intro Cons.IH) (simp_all add: comma_sep_Cons)
    with v f False show ?thesis by (simp add: comma_sep_Cons q unquote_quote)
  qed
qed simp

lemma json_depth_member: "j \<in> set js \<Longrightarrow> json_depth (JArr js) \<le> Suc d \<Longrightarrow> json_depth j \<le> d"
  "kv \<in> set kvs \<Longrightarrow> json_depth (JObj kvs) \<le> Suc d \<Longrightarrow> json_depth (snd kv) \<le> d"
  by (auto)

lemma parse_print:
  "2 * length (print_json j @ rest) + 1 \<le> f \<Longrightarrow> json_depth j \<le> d \<Longrightarrow> plain_numbers j \<Longrightarrow> delimited rest \<Longrightarrow>
   parse_value f d (print_json j @ rest) = Some (coerce_json j, rest)"
proof (induction j arbitrary: f d rest)
  case JNull
  then show ?case by (cases f) (simp_all add: scalar_value_def literal_def HasPrefix_def skip_ws_def is_space_def)
next
  case (JBool b)
  then show ?case by (cases f) (simp_all add: scalar_value_def literal_def HasPrefix_def skip_ws_def is_space_def)
next
  case (JNum t)
  then obtain n f' where n: "t = show_nat n" "f = Suc f'" by (cases f) auto
  obtain c u where cu: "show_nat n = c # u" "is_digit c"
    using show_nat_digits [of n] by (cases "show_nat n") auto
  have "parse_number (c # u @ rest) = Some (show_nat n, rest)"
    using parse_number_show_nat [OF JNum(4), of n] cu by simp
  moreover have "\<not> is_space c" "c \<noteq> CHR ''[''" "c \<noteq> CHR ''{''" "c \<noteq> CHR 0x22" "c \<noteq> CHR ''t''" "c \<noteq> CHR ''f''"
    "c \<noteq> CHR ''n''"
    using cu(2) by (auto simp: is_space_def is_digit_def)
  ultimately show ?case by (simp add: n cu(1) skip_ws_nonspace scalar_value_def)
next
  case (JStr s)
  then obtain f' where "f = Suc f'" by (cases f) auto
  then show ?case using scalar_quote [of s rest] by (simp add: quote_def)
next
  case (JArr js)
  then obtain f' d' where f: "f = Suc f'" "d = Suc d'" by (cases f; cases d) auto
  show ?case
  proof (cases "js = []")
    case True with f show ?thesis by simp
  next
    case False
    then obtain j js' where js: "js = j # js'" by (cases js) auto
    then obtain c t where "print_json j = c # t \<and> \<not> is_space c \<and> c \<noteq> CHR '']''"
      using JArr.prems(3) print_head [of j] by auto
    then obtain t' where ct: "comma_sep (map print_json js) = c # t'" "\<not> is_space c" "c \<noteq> CHR '']''"
      using js by (cases js') auto
    have "parse_elems f' d' (comma_sep (map print_json js) @ CHR '']'' # rest) = Some (map coerce_json js, rest)"
      using JArr.prems f False json_depth_member(1) [of _ js d'] by (intro parse_elems_print JArr.IH) auto
    with ct f show ?thesis by (simp add: skip_ws_nonspace)
  qed
next
  case (JObj kvs)
  then obtain f' d' where f: "f = Suc f'" "d = Suc d'" by (cases f; cases d) auto
  let ?m = "comma_sep (map (\<lambda>kv. quote (fst kv) @ CHR '':'' # print_json (snd kv)) kvs)"
  show ?case
  proof (cases "kvs = []")
    case True with f show ?thesis by simp
  next
    case False
    then obtain t' where ct: "?m = CHR 0x22 # t'"
      by (cases kvs; cases "tl kvs") (auto simp: quote_def)
    have "parse_members f' d' (?m @ CHR ''}'' # rest) =
        Some (map (\<lambda>kv. (coerce (fst kv), coerce_json (snd kv))) kvs, rest)"
      using JObj.prems f False json_depth_member(2) [of _ kvs d']
      by (intro parse_members_print [where g = "\<lambda>kv. coerce_json (snd kv)"] JObj.IH) (auto intro: snds.intros)
    with ct f show ?thesis by simp
  qed
qed

lemma parse_prefix_print:
  "json_depth j \<le> max_depth \<Longrightarrow> plain_numbers j \<Longrightarrow> delimited rest \<Longrightarrow>
   parse_prefix (print_json j @ rest) = Some (coerce_json j, rest)"
  unfolding parse_prefix_def by (rule parse_print) simp_all

lemma parse_text_print:
  "json_depth j \<le> max_depth \<Longrightarrow> plain_numbers j \<Longrightarrow> parse_text (print_json j) = Some (coerce_json j)"
  using parse_prefix_print [of j "[]"] by (simp add: parse_text_def skip_ws_def)

section \<open>Decoded strings are valid UTF-8\<close>

lemma hex_val_bound: "hex_val c = Some n \<Longrightarrow> n < 16"
  by (auto simp: hex_val_def Let_def split: if_splits)

lemma hex4_bound: "hex4 s = Some (r, t) \<Longrightarrow> r < 65536"
proof -
  assume "hex4 s = Some (r, t)"
  then obtain a b c d w x y z where h: "hex_val a = Some w" "hex_val b = Some x" "hex_val c = Some y" "hex_val d = Some z"
    and r: "r = ((w * 16 + x) * 16 + y) * 16 + z"
    by (auto simp: hex4_def split: list.splits option.splits)
  have w: "w < 16" "x < 16" "y < 16" "z < 16" using h [THEN hex_val_bound] .
  define p where "p = w * 16 + x"
  define q where "q = p * 16 + y"
  have "p < 256" using w unfolding p_def by linarith
  then have "q < 4096" using w unfolding q_def by linarith
  then show ?thesis using w unfolding r p_def [symmetric] q_def [symmetric] by linarith
qed

lemma escape_valid: "escape s = Some (b, t) \<Longrightarrow> \<exists>r. scalar r \<and> b = EncodeRune r"
proof -
  assume e: "escape s = Some (b, t)"
  then obtain c u where s: "s = c # u" by (auto simp: escape_def split: list.splits)
  show ?thesis
  proof (cases "c = CHR ''u''")
    case True
    with e s obtain r v where h: "hex4 u = Some (r, v)" by (auto simp: escape_def unicode_escape_def split: option.splits)
    have r: "r < 65536" by (rule hex4_bound [OF h])
    show ?thesis
    proof (cases "is_surrogate r")
      case False
      with e s True h r show ?thesis
        by (auto simp: escape_def unicode_escape_def is_surrogate_def scalar_def intro!: exI [of _ r])
    next
      case surr: True
      show ?thesis
      proof (cases "if r < 56320 then low_surrogate v else None")
        case None
        with e s True h surr show ?thesis
          by (auto simp: escape_def unicode_escape_def intro!: exI [of _ RuneError])
      next
        case (Some p)
        then obtain r2 w where p: "p = (r2, w)" "r < 56320" "low_surrogate v = Some (r2, w)"
          by (cases p) (auto split: if_splits)
        then have r2: "56320 \<le> r2" "r2 < 57344"
          by (auto simp: low_surrogate_def split: list.splits option.splits if_splits)
        have "scalar (65536 + (r - 55296) * 1024 + (r2 - 56320))"
          using r2 p(2) unfolding scalar_def by linarith
        with e s True h surr p show ?thesis
          by (auto simp: escape_def unicode_escape_def)
      qed
    qed
  next
    case False
    with e s obtain d where "b = [d]" "simple_escape c = Some d" by (auto simp: escape_def split: option.splits)
    then show ?thesis
      by (auto simp: simple_escape_def EncodeRune_ascii scalar_def char_of_def bit_0 split: if_splits
          intro!: exI [of _ "byte d"])
  qed
qed

lemma unquote_valid: "unquote s = Some (x, r) \<Longrightarrow> valid_utf8 x"
proof (induction s arbitrary: x r rule: unquote.induct)
  case (1 s)
  show ?case
  proof (cases s)
    case Nil with 1(3) show ?thesis by simp
  next
    case (Cons c t)
    consider (quote) "c = CHR 0x22" | (esc) "c = CHR 0x5C" | (plain) "c \<noteq> CHR 0x22" "c \<noteq> CHR 0x5C"
      by blast
    then show ?thesis
    proof cases
      case quote with 1(3) Cons show ?thesis by simp
    next
      case esc
      with 1(3) Cons obtain b u x' where e: "escape t = Some (b, u)" "unquote u = Some (x', r)" "x = b @ x'"
        by (auto simp: unquote_escape split: option.splits)
      have "valid_utf8 x'" using 1(1) [OF Cons _ esc e(1) refl e(2)] esc by simp
      with escape_valid [OF e(1)] e(3) show ?thesis by (auto simp: valid_utf8_rune)
    next
      case plain
      with 1(3) Cons obtain x' where e: "unquote (drop (snd (DecodeRune s)) s) = Some (x', r)" "\<not> byte c < 32"
        "x = EncodeRune (fst (DecodeRune s)) @ x'"
        by (auto simp: unquote_plain split: if_splits)
      have "valid_utf8 x'" using 1(2) [OF Cons plain e(2,1)] .
      moreover have "scalar (fst (DecodeRune s))"
        by (rule DecodeRune_cases [of s]) (use Cons in auto)
      ultimately show ?thesis using e(3) by (simp add: valid_utf8_rune)
    qed
  qed
qed

fun json_valid :: "json \<Rightarrow> bool" where
  "json_valid (JStr s) \<longleftrightarrow> valid_utf8 s"
| "json_valid (JArr js) \<longleftrightarrow> list_all json_valid js"
| "json_valid (JObj kvs) \<longleftrightarrow> list_all (\<lambda>kv. valid_utf8 (fst kv) \<and> json_valid (snd kv)) kvs"
| "json_valid j \<longleftrightarrow> True"

lemma scalar_value_valid: "scalar_value s = Some (v, r) \<Longrightarrow> json_valid v"
  by (auto simp: scalar_value_def literal_def dest: unquote_valid split: list.splits if_splits)

lemma parse_valid:
  "parse_value f d s = Some (v, r) \<Longrightarrow> json_valid v"
  "parse_elems f d s = Some (vs, r) \<Longrightarrow> list_all json_valid vs"
  "parse_members f d s = Some (ms, r) \<Longrightarrow> list_all (\<lambda>kv. valid_utf8 (fst kv) \<and> json_valid (snd kv)) ms"
proof (induction f arbitrary: d s v vs ms r)
  case (Suc f)
  { case 1
    then obtain c t where ct: "skip_ws s = c # t" by (auto split: list.splits)
    consider (arr) "c = CHR ''[''" | (obj) "c = CHR ''{''" | (other) "c \<noteq> CHR ''[''" "c \<noteq> CHR ''{''" by blast
    then show ?case
    proof cases
      case arr
      with 1 ct obtain vs where "v = JArr vs" "vs = [] \<or> (\<exists>d' s'. parse_elems f d' s' = Some (vs, r))"
        by (auto split: list.splits if_splits)
      with Suc.IH(2) show ?thesis by auto
    next
      case obj
      with 1 ct obtain ms where "v = JObj ms" "ms = [] \<or> (\<exists>d' s'. parse_members f d' s' = Some (ms, r))"
        by (auto split: list.splits if_splits)
      with Suc.IH(3) show ?thesis by auto
    next
      case other
      with 1 ct have "scalar_value (c # t) = Some (v, r)" by simp
      then show ?thesis by (rule scalar_value_valid)
    qed
  next
    case 2
    then obtain x u c t where x: "parse_value f d s = Some (x, u)" "skip_ws u = c # t"
      by (auto split: option.splits list.splits)
    with 2 Suc.IH(2) Suc.IH(1) [OF x(1)] show ?case by (auto split: if_splits)
  next
    case 3
    then obtain q t k u c w x y e z where x: "skip_ws s = q # t" "unquote t = Some (k, u)" "skip_ws u = c # w"
      "parse_value f d w = Some (x, y)" "skip_ws y = e # z"
      by (auto split: option.splits list.splits if_splits)
    have "valid_utf8 k" "json_valid x" using unquote_valid [OF x(2)] Suc.IH(1) [OF x(4)] by simp_all
    with 3 x Suc.IH(3) show ?case by (auto split: if_splits)
  }
qed simp_all

lemma parse_prefix_valid: "parse_prefix s = Some (v, r) \<Longrightarrow> json_valid v"
  unfolding parse_prefix_def by (rule parse_valid(1))

lemma parse_text_valid: "parse_text s = Some v \<Longrightarrow> json_valid v"
  by (auto simp: parse_text_def dest: parse_prefix_valid split: option.splits if_splits)

end
