(* ===== verification/JsonDecode.thy ===== *)
theory JsonDecode
  imports Json "HOL-Library.Mapping" "HOL-Library.List_Lexorder" "HOL-Library.Char_ord"
begin

text \<open>
  Storing scanned JSON into Go values: the rules of \<^verbatim>\<open>encoding/json\<close> for strings, 64-bit unsigned
  numbers, string slices, string maps and structures of them, and one call of \<^verbatim>\<open>Decoder.Decode\<close>
  on a stream. \<open>None\<close> is a decoding error; the package reports it after storing what it could,
  and every caller in the program drops the target then.
\<close>

section \<open>Field names\<close>

text \<open>
  \<^verbatim>\<open>foldName\<close> replaces each rune by the smallest one that differs from it in case only. A letter
  outside ASCII reaches an ASCII letter in two cases, the long s and the Kelvin sign; other runes
  outside ASCII stay outside, so they never match one of the program's (ASCII) field names.
\<close>

definition fold_rune :: "nat \<Rightarrow> nat" where
  "fold_rune r =
     (if 97 \<le> r \<and> r \<le> 122 then r - 32
      else if r = 383 then 83
      else if r = 8490 then 75
      else r)"

definition fold_name :: "bytes \<Rightarrow> nat list" where
  "fold_name s = map (fold_rune \<circ> fst) (runes s)"

definition field_of :: "bytes list \<Rightarrow> bytes \<Rightarrow> bytes option" where
  "field_of names key =
     (if key \<in> set names then Some key
      else List.find (\<lambda>n. fold_name n = fold_name key) names)"

section \<open>Values\<close>

definition decode_string :: "json \<Rightarrow> bytes \<Rightarrow> bytes option" where
  "decode_string j old = (case j of JNull \<Rightarrow> Some old | JStr s \<Rightarrow> Some s | _ \<Rightarrow> None)"

definition decode_uint64 :: "json \<Rightarrow> uint64 \<Rightarrow> uint64 option" where
  "decode_uint64 j old = (case j of JNull \<Rightarrow> Some old | JNum t \<Rightarrow> ParseUint64 t | _ \<Rightarrow> None)"

text \<open>
  A slice is decoded in place: element \<open>i\<close> is stored over what the slice's array holds there, so a
  \<^verbatim>\<open>null\<close> element keeps an older value, also one past the slice's length. The state is the array's
  used part; \<open>decode_elems\<close> returns it with the elements decoded.
\<close>

fun decode_elems :: "json list \<Rightarrow> bytes list \<Rightarrow> bytes list option" where
  "decode_elems [] old = Some []"
| "decode_elems (j # js) old =
     (case decode_string j (case old of [] \<Rightarrow> [] | o1 # _ \<Rightarrow> o1) of
        None \<Rightarrow> None
      | Some s \<Rightarrow> map_option ((#) s) (decode_elems js (drop 1 old)))"

record slice =
  array :: "bytes list"
  len :: nat

definition decode_slice :: "json \<Rightarrow> slice \<Rightarrow> slice option" where
  "decode_slice j old =
     (case j of
        JNull \<Rightarrow> Some \<lparr>array = [], len = 0\<rparr>
      | JArr [] \<Rightarrow> Some \<lparr>array = [], len = 0\<rparr>
      | JArr js \<Rightarrow>
          map_option (\<lambda>ss. \<lparr>array = ss @ drop (length ss) (array old), len = length ss\<rparr>)
            (decode_elems js (array old))
      | _ \<Rightarrow> None)"

fun decode_entries :: "(bytes \<times> json) list \<Rightarrow> (bytes, bytes) mapping \<Rightarrow> (bytes, bytes) mapping option" where
  "decode_entries [] m = Some m"
| "decode_entries ((k, j) # kvs) m =
     (case decode_string j [] of
        None \<Rightarrow> None
      | Some v \<Rightarrow> decode_entries kvs (Mapping.update k v m))"

definition decode_map :: "json \<Rightarrow> (bytes, bytes) mapping option \<Rightarrow> (bytes, bytes) mapping option option" where
  "decode_map j old =
     (case j of
        JNull \<Rightarrow> Some None
      | JObj kvs \<Rightarrow>
          map_option Some (decode_entries kvs (case old of None \<Rightarrow> Mapping.empty | Some m \<Rightarrow> m))
      | _ \<Rightarrow> None)"

text \<open>
  A structure: \<open>store\<close> decodes the value of a known field into it. An unknown key is skipped, or an
  error under \<^verbatim>\<open>DisallowUnknownFields\<close>.
\<close>

fun decode_fields :: "bool \<Rightarrow> bytes list \<Rightarrow> (bytes \<Rightarrow> json \<Rightarrow> 'a \<Rightarrow> 'a option) \<Rightarrow> (bytes \<times> json) list \<Rightarrow> 'a \<Rightarrow> 'a option" where
  "decode_fields strict names store [] x = Some x"
| "decode_fields strict names store ((k, j) # kvs) x =
     (case field_of names k of
        None \<Rightarrow> if strict then None else decode_fields strict names store kvs x
      | Some n \<Rightarrow>
          (case store n j x of
             None \<Rightarrow> None
           | Some y \<Rightarrow> decode_fields strict names store kvs y))"

definition decode_struct :: "bool \<Rightarrow> bytes list \<Rightarrow> (bytes \<Rightarrow> json \<Rightarrow> 'a \<Rightarrow> 'a option) \<Rightarrow> json \<Rightarrow> 'a \<Rightarrow> 'a option" where
  "decode_struct strict names store j x =
     (case j of
        JNull \<Rightarrow> Some x
      | JObj kvs \<Rightarrow> decode_fields strict names store kvs x
      | _ \<Rightarrow> None)"

section \<open>Streams\<close>

text \<open>
  One \<^verbatim>\<open>Decode\<close> on a stream that delivers some bytes and then reports an error. An array or
  object is complete at its closing bracket; any other value only at the byte after it or at the
  end of the stream. The end of the stream before any value is \<^verbatim>\<open>io.EOF\<close>.
\<close>

datatype next_value = AtEOF | BadValue | Value json bytes

definition composite :: "json \<Rightarrow> bool" where
  "composite j \<longleftrightarrow> (case j of JArr _ \<Rightarrow> True | JObj _ \<Rightarrow> True | _ \<Rightarrow> False)"

definition next_json :: "io_error \<Rightarrow> bytes \<Rightarrow> next_value" where
  "next_json fail s =
     (case parse_prefix s of
        None \<Rightarrow> if skip_ws s = [] \<and> fail = EOF then AtEOF else BadValue
      | Some (v, r) \<Rightarrow> if r = [] \<and> fail \<noteq> EOF \<and> \<not> composite v then BadValue else Value v r)"

section \<open>Laws\<close>

lemma decode_string_simps [simp]: "decode_string (JStr s) old = Some s" "decode_string JNull old = Some old"
  by (simp_all add: decode_string_def)

lemma decode_elems_strings [simp]: "decode_elems (map JStr ss) old = Some ss"
  by (induction ss arbitrary: old) simp_all

lemma decode_slice_strings:
  "ss \<noteq> [] \<Longrightarrow> decode_slice (JArr (map JStr ss)) \<lparr>array = [], len = 0\<rparr> = Some \<lparr>array = ss, len = length ss\<rparr>"
  using decode_elems_strings [of ss "[]"] by (cases ss) (simp_all add: decode_slice_def)

text \<open>Decoding a printed map inserts its entries in the order they were printed.\<close>

lemma decode_entries_strings:
  "decode_entries (map (\<lambda>k. (f k, JStr (g k))) ks) m = Some (foldl (\<lambda>m k. Mapping.update (f k) (g k) m) m ks)"
  by (induction ks arbitrary: m) simp_all

lemma lookup_foldl_update:
  "Mapping.lookup (foldl (\<lambda>m k. Mapping.update (f k) (g k) m) m ks) x =
     (case List.find (\<lambda>k. f k = x) (rev ks) of None \<Rightarrow> Mapping.lookup m x | Some k \<Rightarrow> Some (g k))"
proof (induction ks rule: rev_induct)
  case (snoc k ks)
  then show ?case by (auto simp: lookup_update')
qed simp

lemma field_of_known: "key \<in> set names \<Longrightarrow> field_of names key = Some key"
  by (simp add: field_of_def)

lemma composite_coerce [simp]: "composite (coerce_json j) = composite j"
  by (cases j) (simp_all add: composite_def)

lemma next_json_composite:
  "json_depth j \<le> max_depth \<Longrightarrow> plain_numbers j \<Longrightarrow> composite j \<Longrightarrow> delimited rest \<Longrightarrow>
   next_json fail (print_json j @ rest) = Value (coerce_json j) rest"
  by (simp add: next_json_def parse_prefix_print)

lemma parse_value_blank: "skip_ws s = [] \<Longrightarrow> parse_prefix s = None"
  by (simp add: parse_prefix_def)

lemma next_json_blank: "skip_ws s = [] \<Longrightarrow> next_json EOF s = AtEOF"
  by (simp add: next_json_def parse_value_blank)

lemma next_json_AtEOF_iff: "next_json fail s = AtEOF \<longleftrightarrow> skip_ws s = [] \<and> fail = EOF"
  by (auto simp: next_json_def parse_value_blank split: option.splits)

end
