(* ===== verification/JsonPrefix.thy ===== *)
theory JsonPrefix
  imports JsonDecode
begin

text \<open>
  More input does not change what a complete JSON value reads as: if a text has a complete
  array or object in front, appending bytes to it changes only the rest. Hence no proper prefix of
  a printed array or object is itself accepted, which is what protects a reader from a file
  that was cut short.
\<close>

section \<open>String literals\<close>

lemma unquote_has_quote: "unquote s = Some (x, r) \<Longrightarrow> CHR 0x22 \<in> set s"
proof (induction s arbitrary: x r rule: unquote.induct)
  case (1 s)
  show ?case
  proof (cases s)
    case Nil with 1(3) show ?thesis by simp
  next
    case (Cons c t)
    consider (quote) "c = CHR 0x22" | (esc) "c = CHR 0x5C" | (plain) "c \<noteq> CHR 0x22" "c \<noteq> CHR 0x5C"
      by blast
    then show ?thesis
    proof cases
      case quote with Cons show ?thesis by simp
    next
      case esc
      with 1(3) Cons obtain b u x' where e: "escape t = Some (b, u)" "unquote u = Some (x', r)"
        by (auto simp: unquote_escape split: option.splits)
      have "CHR 0x22 \<in> set u" using 1(1) [OF Cons _ esc e(1) refl e(2)] esc by simp
      moreover have "set u \<subseteq> set t"
        using e(1) by (auto simp: escape_def unicode_escape_def hex4_def low_surrogate_def
            split: list.splits option.splits if_splits)
      ultimately show ?thesis using Cons by auto
    next
      case plain
      with 1(3) Cons obtain x' where e: "unquote (drop (snd (DecodeRune s)) s) = Some (x', r)" "\<not> byte c < 32"
        by (auto simp: unquote_plain split: if_splits)
      have "CHR 0x22 \<in> set (drop (snd (DecodeRune s)) s)" using 1(2) [OF Cons plain e(2,1)] .
      then show ?thesis by (rule in_set_dropD)
    qed
  qed
qed

lemma quote_not_cont [simp]: "\<not> is_cont (byte (CHR 0x22))" "\<not> second_ok b (byte (CHR 0x22))"
  by (simp_all add: is_cont_def second_ok_def)

lemma decode_extend:
  assumes "CHR 0x22 \<in> set t"
  shows "decode2 b (t @ y) = decode2 b t" "decode3 b (t @ y) = decode3 b t" "decode4 b (t @ y) = decode4 b t"
proof -
  consider c1 c2 c3 u where "t = c1 # c2 # c3 # u" | "t = [CHR 0x22]" | c where "t = [CHR 0x22, c]" | c where "t = [c, CHR 0x22]"
    using assms by (cases t; cases "tl t"; cases "tl (tl t)") auto
  then show "decode2 b (t @ y) = decode2 b t" "decode3 b (t @ y) = decode3 b t" "decode4 b (t @ y) = decode4 b t"
    by (cases; auto simp: decode2_def decode3_def decode4_def simp del: of_char_Char split: list.split)+
qed

lemma DecodeRune_extend:
  assumes "CHR 0x22 \<in> set s"
  shows "DecodeRune (s @ y) = DecodeRune s"
proof (cases s)
  case (Cons c t)
  show ?thesis
  proof (cases "c = CHR 0x22")
    case True
    then show ?thesis using Cons by (simp add: DecodeRune_ascii)
  next
    case False
    then have "CHR 0x22 \<in> set t" using assms Cons by auto
    then show ?thesis using Cons by (simp add: DecodeRune_def decode_extend Let_def)
  qed
qed (use assms in simp)

lemma hex4_extend:
  "hex4 s = Some (r, t) \<Longrightarrow> hex4 (s @ y) = Some (r, t @ y)"
  by (auto simp: hex4_def split: list.splits option.splits)

lemma hex_val_quote [simp]: "hex_val (CHR 0x22) = None"
  by (simp add: hex_val_def)

lemma hex4_extend_None:
  assumes "hex4 s = None" "CHR 0x22 \<in> set s"
  shows "hex4 (s @ y) = None"
proof (cases "4 \<le> length s")
  case True
  then obtain a b c d t where "s = a # b # c # d # t"
    by (cases s; cases "tl s"; cases "tl (tl s)"; cases "tl (tl (tl s))") auto
  with assms(1) show ?thesis by (auto simp: hex4_def split: option.splits)
next
  case False
  then consider a where "s = [a]" | a b where "s = [a, b]" | a b c where "s = [a, b, c]"
    using assms(2) by (cases s; cases "tl s"; cases "tl (tl s)"; cases "tl (tl (tl s))") auto
  then show ?thesis
    using assms(2) by cases (auto simp: hex4_def split: list.splits option.splits)
qed

lemma low_surrogate_extend:
  "low_surrogate s = Some (r, t) \<Longrightarrow> low_surrogate (s @ y) = Some (r, t @ y)"
  by (auto simp: low_surrogate_def dest: hex4_extend [where y = y] split: list.splits option.splits if_splits)

lemma low_surrogate_extend_None:
  assumes "low_surrogate s = None" "CHR 0x22 \<in> set s"
  shows "low_surrogate (s @ y) = None"
proof -
  consider "s = [CHR 0x22]" | a b t where "s = a # b # t"
    using assms(2) by (cases s; cases "tl s") auto
  then show ?thesis
  proof cases
    case 1
    then show ?thesis by (auto simp: low_surrogate_def split: list.splits)
  next
    case 2
    show ?thesis
    proof (cases "a = CHR 0x5C \<and> b = CHR ''u''")
      case True
      with 2 assms(2) have q: "CHR 0x22 \<in> set t" by auto
      show ?thesis
      proof (cases "hex4 t")
        case None
        then show ?thesis using hex4_extend_None [OF None q, of y] 2 True by (simp add: low_surrogate_def)
      next
        case (Some p)
        then obtain r u where "hex4 t = Some (r, u)" by (cases p) auto
        with hex4_extend [OF this, of y] assms(1) 2 True show ?thesis
          by (auto simp: low_surrogate_def split: if_splits)
      qed
    qed (use 2 in \<open>auto simp: low_surrogate_def\<close>)
  qed
qed

lemma escape_extend:
  assumes "escape s = Some (b, u)" "CHR 0x22 \<in> set u"
  shows "escape (s @ y) = Some (b, u @ y)"
proof -
  obtain e t where s: "s = e # t" using assms(1) by (auto simp: escape_def split: list.splits)
  show ?thesis
  proof (cases "e = CHR ''u''")
    case True
    with assms(1) s obtain r v where h: "hex4 t = Some (r, v)"
      by (auto simp: escape_def unicode_escape_def split: option.splits)
    note h' = hex4_extend [OF h, of y]
    show ?thesis
    proof (cases "is_surrogate r \<and> r < 56320")
      case surr: True
      show ?thesis
      proof (cases "low_surrogate v")
        case None
        with assms h True surr s have "u = v" by (simp add: escape_def unicode_escape_def)
        with None assms(2) have "low_surrogate (v @ y) = None" using low_surrogate_extend_None by blast
        with None assms(1) h h' True surr s show ?thesis by (simp add: escape_def unicode_escape_def)
      next
        case (Some p)
        then obtain r2 w where "low_surrogate v = Some (r2, w)" by (cases p) auto
        with low_surrogate_extend [OF this, of y] assms(1) h h' True surr s show ?thesis
          by (simp add: escape_def unicode_escape_def)
      qed
    next
      case False
      with assms(1) h h' True s show ?thesis by (auto simp: escape_def unicode_escape_def split: if_splits)
    qed
  next
    case False
    with assms(1) s show ?thesis by (auto simp: escape_def split: option.splits)
  qed
qed

lemma unquote_extend: "unquote s = Some (x, r) \<Longrightarrow> unquote (s @ y) = Some (x, r @ y)"
proof (induction s arbitrary: x r rule: unquote.induct)
  case (1 s)
  show ?case
  proof (cases s)
    case Nil with 1(3) show ?thesis by simp
  next
    case (Cons c t)
    consider (quote) "c = CHR 0x22" | (esc) "c = CHR 0x5C" | (plain) "c \<noteq> CHR 0x22" "c \<noteq> CHR 0x5C"
      by blast
    then show ?thesis
    proof cases
      case quote with 1(3) Cons show ?thesis by simp
    next
      case esc
      with 1(3) Cons obtain b u x' where e: "escape t = Some (b, u)" "unquote u = Some (x', r)" "x = b @ x'"
        by (auto simp: unquote_escape split: option.splits)
      have "unquote (u @ y) = Some (x', r @ y)" using 1(1) [OF Cons _ esc e(1) refl e(2)] esc by simp
      then show ?thesis
        using escape_extend [OF e(1) unquote_has_quote [OF e(2)]] Cons esc e(3) by (simp add: unquote_escape)
    next
      case plain
      with 1(3) Cons obtain x' where e: "unquote (drop (snd (DecodeRune s)) s) = Some (x', r)" "\<not> byte c < 32"
        "x = EncodeRune (fst (DecodeRune s)) @ x'"
        by (auto simp: unquote_plain split: if_splits)
      have d: "DecodeRune (s @ y) = DecodeRune s"
        by (rule DecodeRune_extend [OF in_set_dropD [OF unquote_has_quote [OF e(1)]]])
      have "snd (DecodeRune s) \<le> length s" using DecodeRune_width [of s] Cons by simp
      then have "unquote (drop (snd (DecodeRune s)) (s @ y)) = Some (x', r @ y)"
        using 1(2) [OF Cons plain e(2,1)] by simp
      then show ?thesis using d plain e(2,3) Cons by (simp add: unquote_plain)
    qed
  qed
qed

section \<open>Values\<close>

lemma while_extend:
  "dropWhile P s \<noteq> [] \<Longrightarrow> takeWhile P (s @ y) = takeWhile P s"
  "dropWhile P s \<noteq> [] \<Longrightarrow> dropWhile P (s @ y) = dropWhile P s @ y"
  by (induction s) auto

lemma skip_ws_extend: "skip_ws s = c # t \<Longrightarrow> skip_ws (s @ y) = c # t @ y"
  by (simp add: skip_ws_def while_extend)

lemma number_extend:
  "number_int s = Some (x, r) \<Longrightarrow> r \<noteq> [] \<Longrightarrow> number_int (s @ y) = Some (x, r @ y)"
  "number_digits p s = Some (x, r) \<Longrightarrow> r \<noteq> [] \<Longrightarrow> number_digits p (s @ y) = Some (x, r @ y)"
  by (auto simp: number_int_def number_digits_def while_extend split: list.splits if_splits)

lemma number_tail_extend:
  "number_frac s = Some (x, r) \<Longrightarrow> r \<noteq> [] \<Longrightarrow> number_frac (s @ y) = Some (x, r @ y)"
  "number_exp s = Some (x, r) \<Longrightarrow> r \<noteq> [] \<Longrightarrow> number_exp (s @ y) = Some (x, r @ y)"
  by (auto simp: number_frac_def number_exp_def dest: number_extend(2) [where y = y] split: list.splits if_splits)

lemma number_rest_nonempty:
  "number_frac s = Some (x, r) \<Longrightarrow> r \<noteq> [] \<Longrightarrow> s \<noteq> []" "number_exp s = Some (x, r) \<Longrightarrow> r \<noteq> [] \<Longrightarrow> s \<noteq> []"
  by (auto simp: number_frac_def number_exp_def)

lemma parse_number_extend:
  assumes "parse_number s = Some (x, r)" "r \<noteq> []"
  shows "parse_number (s @ y) = Some (x, r @ y)"
proof -
  define sg where "sg s = (case s of [] \<Rightarrow> ([], s) | c # t \<Rightarrow> if c = CHR ''-'' then ([c], t) else ([], s))" for s :: bytes
  obtain sn t where sg: "sg s = (sn, t)" by fastforce
  with assms(1) obtain i u f v e where p: "number_int t = Some (i, u)" "number_frac u = Some (f, v)" "number_exp v = Some (e, r)"
    "x = sn @ i @ f @ e"
    by (auto simp: parse_number_def sg_def split: option.splits)
  have ne: "v \<noteq> []" "u \<noteq> []" using number_rest_nonempty p assms(2) by blast+
  have "t \<noteq> []" using p(1) by (auto simp: number_int_def)
  then have "sg (s @ y) = (sn, t @ y)" using sg by (auto simp: sg_def split: list.splits if_splits)
  with p number_extend(1) [OF p(1) ne(2), of y] number_tail_extend(1) [OF p(2) ne(1), of y]
    number_tail_extend(2) [OF p(3) assms(2), of y]
  show ?thesis by (simp add: parse_number_def sg_def)
qed

lemma scalar_value_extend:
  assumes "scalar_value s = Some (v, r)" "r \<noteq> []"
  shows "scalar_value (s @ y) = Some (v, r @ y)"
  using assms
  by (auto simp: scalar_value_def literal_def HasPrefix_iff dest: unquote_extend [where y = y]
      parse_number_extend [where y = y] split: list.splits if_splits)

lemma parse_value_scalar:
  "skip_ws s = c # t \<Longrightarrow> c \<noteq> CHR ''['' \<Longrightarrow> c \<noteq> CHR ''{'' \<Longrightarrow> parse_value (Suc f) d s = scalar_value (c # t)"
  by simp

lemma scalar_not_composite: "scalar_value s = Some (v, r) \<Longrightarrow> \<not> composite v"
  by (auto simp: scalar_value_def literal_def composite_def split: list.splits if_splits)

lemma parse_extend:
  "parse_value f d s = Some (v, r) \<Longrightarrow> r \<noteq> [] \<or> composite v \<Longrightarrow> parse_value f d (s @ y) = Some (v, r @ y)"
  "parse_elems f d s = Some (vs, r) \<Longrightarrow> parse_elems f d (s @ y) = Some (vs, r @ y)"
  "parse_members f d s = Some (ms, r) \<Longrightarrow> parse_members f d (s @ y) = Some (ms, r @ y)"
proof (induction f arbitrary: d s v vs ms r)
  case (Suc f)
  { case 1
    then obtain c t where ct: "skip_ws s = c # t" by (auto split: list.splits)
    note ct' = skip_ws_extend [OF ct, of y]
    consider (arr) "c = CHR ''[''" | (obj) "c = CHR ''{''" | (other) "c \<noteq> CHR ''[''" "c \<noteq> CHR ''{''" by blast
    then show ?case
    proof cases
      case arr
      with 1 ct obtain c2 t2 where t2: "skip_ws t = c2 # t2" by (auto split: list.splits if_splits)
      have d: "d \<noteq> 0" using 1(1) ct arr by (cases "d = 0") simp_all
      show ?thesis
      proof (cases "c2 = CHR '']''")
        case True
        with 1 ct ct' arr t2 skip_ws_extend [OF t2, of y] d show ?thesis by simp
      next
        case False
        with 1 ct arr t2 d obtain vs where vs: "parse_elems f (d - 1) (c2 # t2) = Some (vs, r)" "v = JArr vs" by auto
        with Suc.IH(2) [OF vs(1)] ct' arr skip_ws_extend [OF t2, of y] d False show ?thesis by simp
      qed
    next
      case obj
      with 1 ct obtain c2 t2 where t2: "skip_ws t = c2 # t2" by (auto split: list.splits if_splits)
      have d: "d \<noteq> 0" using 1(1) ct obj by (cases "d = 0") simp_all
      show ?thesis
      proof (cases "c2 = CHR ''}''")
        case True
        with 1 ct ct' obj t2 skip_ws_extend [OF t2, of y] d show ?thesis by simp
      next
        case False
        with 1 ct obj t2 d obtain ms where ms: "parse_members f (d - 1) (c2 # t2) = Some (ms, r)" "v = JObj ms" by auto
        with Suc.IH(3) [OF ms(1)] ct' obj skip_ws_extend [OF t2, of y] d False show ?thesis by simp
      qed
    next
      case other
      have s: "scalar_value (c # t) = Some (v, r)" using 1(1) parse_value_scalar [OF ct other] by simp
      with 1(2) scalar_not_composite have "r \<noteq> []" by blast
      with scalar_value_extend [OF s, of y] show ?thesis
        using parse_value_scalar [OF ct' other] by simp
    qed
  next
    case 2
    then obtain x u c t where x: "parse_value f d s = Some (x, u)" "skip_ws u = c # t"
      by (auto split: option.splits list.splits)
    have "u \<noteq> []" using x(2) by (auto simp: skip_ws_def)
    then have v: "parse_value f d (s @ y) = Some (x, u @ y)" using Suc.IH(1) [OF x(1)] by simp
    show ?case
    proof (cases "c = CHR '',''")
      case True
      with 2 x obtain vs' where e: "parse_elems f d t = Some (vs', r)" "vs = x # vs'" by auto
      with Suc.IH(2) [OF e(1)] v x(2) True skip_ws_extend [OF x(2), of y] show ?thesis by simp
    next
      case False
      with 2 x v skip_ws_extend [OF x(2), of y] show ?thesis by (auto split: if_splits)
    qed
  next
    case 3
    then obtain q t k u c w x z e z' where x: "skip_ws s = q # t" "unquote t = Some (k, u)" "skip_ws u = c # w"
      "parse_value f d w = Some (x, z)" "skip_ws z = e # z'" "q = CHR 0x22" "c = CHR '':''"
      by (auto split: option.splits list.splits if_splits)
    have "z \<noteq> []" using x(5) by (auto simp: skip_ws_def)
    then have v: "parse_value f d (w @ y) = Some (x, z @ y)" using Suc.IH(1) [OF x(4)] by simp
    note ext = skip_ws_extend [OF x(1), of y] unquote_extend [OF x(2), of y] skip_ws_extend [OF x(3), of y]
      skip_ws_extend [OF x(5), of y]
    show ?case
    proof (cases "e = CHR '',''")
      case True
      with 3 x obtain ms' where e: "parse_members f d z' = Some (ms', r)" "ms = (k, x) # ms'" by auto
      with Suc.IH(3) [OF e(1)] v x True ext show ?thesis by simp
    next
      case False
      with 3 x v ext show ?thesis by (auto split: if_splits)
    qed
  }
qed simp_all

lemma parse_prefix_extend:
  assumes "parse_prefix s = Some (v, r)" "r \<noteq> [] \<or> composite v"
  shows "parse_prefix (s @ y) = Some (v, r @ y)"
proof -
  have "parse_value (2 * length (s @ y) + 1) max_depth s = Some (v, r)"
    using assms(1) parse_prefix_fuel [of s "2 * length (s @ y) + 1"] by simp
  from parse_extend(1) [OF this assms(2), of y] show ?thesis by (simp add: parse_prefix_def)
qed

section \<open>Proper prefixes are refused\<close>

theorem next_json_prefix:
  assumes "print_json (JObj kvs) = p @ q" "q \<noteq> []" "p \<noteq> []"
    and "json_depth (JObj kvs) \<le> max_depth" "plain_numbers (JObj kvs)"
  shows "next_json fail p = BadValue"
proof (cases "parse_prefix p")
  case None
  obtain t where "p = CHR ''{'' # t" using assms(1,3) by (cases p) auto
  with None show ?thesis by (simp add: next_json_def)
next
  case (Some x)
  then obtain v r where x: "parse_prefix p = Some (v, r)" by (cases x) auto
  obtain t where p: "p = CHR ''{'' # t" using assms(1,3) by (cases p) auto
  with x have "composite v"
    by (auto simp: parse_prefix_def composite_def max_depth_def split: list.splits if_splits)
  then have "parse_prefix (p @ q) = Some (v, r @ q)" using parse_prefix_extend [OF x, of q] by simp
  moreover have "parse_prefix (p @ q) = Some (coerce_json (JObj kvs), [])"
    using parse_prefix_print [OF assms(4,5), of "[]"] assms(1) by simp
  ultimately show ?thesis using assms(2) by simp
qed

end
