(* ===== verification/Fsm.thy ===== *)
theory Fsm
  imports CmdExecutor JsonPrefix
begin

text \<open>
  The replicated state machine of \<^verbatim>\<open>src/core/raft.go\<close> (type \<^verbatim>\<open>fsm\<close>): applying a log entry, taking,
  persisting and restoring a snapshot, and the encoding of a command into a log entry. The state is
  the store and the package variable \<^verbatim>\<open>leaderAdminAddr\<close> that \<^verbatim>\<open>LEADER_CHANGED\<close> entries set. A run-time
  panic is \<open>Inl\<close>.
\<close>

section \<open>Log entries\<close>

definition OpLeaderChanged :: bytes where
  "OpLeaderChanged = ''LEADER_CHANGED''"

text \<open>\<^verbatim>\<open>json.Marshal(cmd)\<close>: the argument list is omitted when it is empty.\<close>

definition json_of_cmd :: "Cmd \<Rightarrow> json" where
  "json_of_cmd cmd =
     JObj ((''op'', JStr (Op cmd)) #
       (if Args cmd = [] then [] else [(''args'', JArr (map JStr (Args cmd)))]))"

definition marshal_cmd :: "Cmd \<Rightarrow> bytes" where
  "marshal_cmd cmd = print_json (json_of_cmd cmd)"

record cmd_target =
  t_op :: bytes
  t_args :: slice

definition store_cmd_field :: "bytes \<Rightarrow> json \<Rightarrow> cmd_target \<Rightarrow> cmd_target option" where
  "store_cmd_field name j x =
     (if name = ''op'' then map_option (\<lambda>s. x\<lparr>t_op := s\<rparr>) (decode_string j (t_op x))
      else map_option (\<lambda>s. x\<lparr>t_args := s\<rparr>) (decode_slice j (t_args x)))"

definition unmarshal_cmd :: "bytes \<Rightarrow> Cmd option" where
  "unmarshal_cmd data =
     (case parse_text data of
        None \<Rightarrow> None
      | Some j \<Rightarrow>
          map_option (\<lambda>x. \<lparr>Op = t_op x, Args = take (len (t_args x)) (array (t_args x))\<rparr>)
            (decode_struct False [''op'', ''args''] store_cmd_field j
              \<lparr>t_op = [], t_args = \<lparr>array = [], len = 0\<rparr>\<rparr>))"

section \<open>Applying\<close>

record fsm =
  fsm_db :: MemDB
  leaderAdminAddr :: bytes

datatype fsm_response = DecodeErr | Reply bytes

definition Apply :: "bytes option \<Rightarrow> bytes \<Rightarrow> fsm \<Rightarrow> panic + fsm_response \<times> fsm" where
  "Apply save data f =
     (case unmarshal_cmd data of
        None \<Rightarrow> Inr (DecodeErr, f)
      | Some cmd \<Rightarrow>
          if Op cmd = OpLeaderChanged then
            (case Args cmd of
               [] \<Rightarrow> Inl IndexOutOfRange
             | a # _ \<Rightarrow> Inr (Reply Ok, f\<lparr>leaderAdminAddr := a\<rparr>))
          else
            (let (r, db) = executeOnDB save cmd (fsm_db f) in Inr (Reply r, f\<lparr>fsm_db := db\<rparr>)))"

section \<open>Snapshots\<close>

record memSnapshot =
  snap_state :: "(bytes, bytes) mapping"

definition copy_map :: "(bytes, bytes) mapping \<Rightarrow> (bytes, bytes) mapping" where
  "copy_map m =
     foldl (\<lambda>cp k. case Mapping.lookup m k of Some v \<Rightarrow> Mapping.update k v cp | None \<Rightarrow> cp)
       Mapping.empty (Mapping.ordered_keys m)"

definition Snapshot :: "fsm \<Rightarrow> memSnapshot" where
  "Snapshot f = \<lparr>snap_state = copy_map (keyspace (fsm_db f))\<rparr>"

definition fsmSnapshotFormat :: bytes where
  "fsmSnapshotFormat = ''skiffdb-fsm''"

definition fsmSnapshotVersion :: uint64 where
  "fsmSnapshotVersion = 1"

record fsmSnapshotPayload =
  Format :: bytes
  Version :: uint64
  Keyspace :: "(bytes, bytes) mapping option"

text \<open>A Go map is encoded with its keys in byte order.\<close>

definition json_of_map :: "(bytes, bytes) mapping \<Rightarrow> json" where
  "json_of_map m = JObj (map (\<lambda>k. (k, JStr (the (Mapping.lookup m k)))) (Mapping.ordered_keys m))"

definition json_of_payload :: "fsmSnapshotPayload \<Rightarrow> json" where
  "json_of_payload p =
     JObj [(''format'', JStr (Format p)), (''version'', JNum (show_nat (unat (Version p)))),
       (''keyspace'', case Keyspace p of None \<Rightarrow> JNull | Some m \<Rightarrow> json_of_map m)]"

datatype sink_call = SinkWrite bytes | SinkCancel | SinkClose

text \<open>
  The sink is Raft's: \<open>wr\<close> and \<open>cl\<close> say how its write and its close end. The result is the error
  \<^verbatim>\<open>Persist\<close> returns and the calls it makes on the sink.
\<close>

definition Persist :: "(bytes \<Rightarrow> bytes option) \<Rightarrow> bytes option \<Rightarrow> memSnapshot \<Rightarrow> bytes option \<times> sink_call list" where
  "Persist wr cl m =
     (let payload = \<lparr>Format = fsmSnapshotFormat, Version = fsmSnapshotVersion, Keyspace = Some (snap_state m)\<rparr>;
          text = print_json (json_of_payload payload) @ [LF] in
      case wr text of
        Some err \<Rightarrow> (Some err, [SinkWrite text, SinkCancel])
      | None \<Rightarrow> (cl, [SinkWrite text, SinkClose]))"

definition snapshot_text :: "memSnapshot \<Rightarrow> bytes" where
  "snapshot_text m =
     concat (map (\<lambda>c. case c of SinkWrite b \<Rightarrow> b | _ \<Rightarrow> []) (snd (Persist (\<lambda>_. None) None m)))"

datatype restore_error =
    SnapshotDecode | TrailingValue | TrailingData | UnsupportedFormat bytes | UnsupportedVersion uint64
  | KeyspaceMissing

definition store_payload_field :: "bytes \<Rightarrow> json \<Rightarrow> fsmSnapshotPayload \<Rightarrow> fsmSnapshotPayload option" where
  "store_payload_field name j x =
     (if name = ''format'' then map_option (\<lambda>s. x\<lparr>Format := s\<rparr>) (decode_string j (Format x))
      else if name = ''version'' then map_option (\<lambda>n. x\<lparr>Version := n\<rparr>) (decode_uint64 j (Version x))
      else map_option (\<lambda>m. x\<lparr>Keyspace := m\<rparr>) (decode_map j (Keyspace x)))"

definition decode_payload :: "json \<Rightarrow> fsmSnapshotPayload option" where
  "decode_payload j =
     decode_struct False [''format'', ''version'', ''keyspace''] store_payload_field j
       \<lparr>Format = [], Version = 0, Keyspace = None\<rparr>"

text \<open>\<open>Restore\<close> reads a stream that delivers \<open>s\<close> and then reports \<open>fail\<close>.\<close>

definition Restore :: "io_error \<Rightarrow> bytes \<Rightarrow> fsm \<Rightarrow> restore_error option \<times> fsm" where
  "Restore fail s f =
     (case next_json fail s of
        Value j rest \<Rightarrow>
          (case decode_payload j of
             None \<Rightarrow> (Some SnapshotDecode, f)
           | Some snapshot \<Rightarrow>
               (case next_json fail rest of
                  Value _ _ \<Rightarrow> (Some TrailingValue, f)
                | BadValue \<Rightarrow> (Some TrailingData, f)
                | AtEOF \<Rightarrow>
                    if Format snapshot \<noteq> fsmSnapshotFormat then (Some (UnsupportedFormat (Format snapshot)), f)
                    else if Version snapshot \<noteq> fsmSnapshotVersion then
                      (Some (UnsupportedVersion (Version snapshot)), f)
                    else
                      (case Keyspace snapshot of
                         None \<Rightarrow> (Some KeyspaceMissing, f)
                       | Some m \<Rightarrow> (None, f\<lparr>fsm_db := (fsm_db f)\<lparr>keyspace := m\<rparr>\<rparr>))))
      | _ \<Rightarrow> (Some SnapshotDecode, f))"

section \<open>Encoding and decoding of commands\<close>

definition coerce_cmd :: "Cmd \<Rightarrow> Cmd" where
  "coerce_cmd cmd = \<lparr>Op = coerce (Op cmd), Args = map coerce (Args cmd)\<rparr>"

definition valid_cmd :: "Cmd \<Rightarrow> bool" where
  "valid_cmd cmd \<longleftrightarrow> valid_utf8 (Op cmd) \<and> list_all valid_utf8 (Args cmd)"

lemma coerce_cmd_valid: "valid_cmd cmd \<Longrightarrow> coerce_cmd cmd = cmd"
  by (auto simp: coerce_cmd_def valid_cmd_def coerce_valid list_all_iff intro!: Cmd.equality map_idI)

lemma valid_coerce_cmd [simp]: "valid_cmd (coerce_cmd cmd)"
  by (simp add: coerce_cmd_def valid_cmd_def list_all_iff)

lemma json_of_cmd_shape: "plain_numbers (json_of_cmd cmd)" "json_depth (json_of_cmd cmd) \<le> max_depth"
  by (auto simp: json_of_cmd_def max_depth_def)

lemma coerce_field_names:
  "coerce ''op'' = ''op''" "coerce ''args'' = ''args''" "coerce ''format'' = ''format''"
  "coerce ''version'' = ''version''" "coerce ''keyspace'' = ''keyspace''"
  by (simp_all add: coerce_valid valid_ascii)

lemma coerce_json_of_cmd: "coerce_json (json_of_cmd cmd) = json_of_cmd (coerce_cmd cmd)"
  by (simp add: json_of_cmd_def coerce_cmd_def coerce_field_names)

lemma decode_json_of_cmd:
  "decode_struct False [''op'', ''args''] store_cmd_field (json_of_cmd cmd) \<lparr>t_op = [], t_args = \<lparr>array = [], len = 0\<rparr>\<rparr> =
     Some \<lparr>t_op = Op cmd, t_args = \<lparr>array = Args cmd, len = length (Args cmd)\<rparr>\<rparr>"
  by (simp add: json_of_cmd_def decode_struct_def field_of_known store_cmd_field_def decode_slice_strings)

lemma unmarshal_marshal: "unmarshal_cmd (marshal_cmd cmd) = Some (coerce_cmd cmd)"
  unfolding unmarshal_cmd_def marshal_cmd_def
  by (simp add: parse_text_print json_of_cmd_shape coerce_json_of_cmd decode_json_of_cmd)

text \<open>A decoded command has valid UTF-8 everywhere, whatever the log entry was.\<close>

lemma decode_string_valid: "decode_string j old = Some s \<Longrightarrow> json_valid j \<Longrightarrow> valid_utf8 old \<Longrightarrow> valid_utf8 s"
  by (auto simp: decode_string_def split: json.splits)

lemma decode_elems_valid:
  "decode_elems js old = Some ss \<Longrightarrow> list_all json_valid js \<Longrightarrow> list_all valid_utf8 old \<Longrightarrow> list_all valid_utf8 ss"
proof (induction js old arbitrary: ss rule: decode_elems.induct)
  case (2 j js old)
  then obtain s ss' where s: "decode_string j (case old of [] \<Rightarrow> [] | o1 # _ \<Rightarrow> o1) = Some s"
    "decode_elems js (drop 1 old) = Some ss'" "ss = s # ss'"
    by (auto split: option.splits)
  have "valid_utf8 s" using decode_string_valid [OF s(1)] 2(3,4) by (cases old) auto
  moreover have "list_all valid_utf8 ss'"
    using 2(1) [OF s(1) s(2)] 2(3,4) by (auto simp: list_all_iff dest: in_set_dropD)
  ultimately show ?case using s(3) by simp
qed simp

lemma decode_slice_valid:
  assumes "decode_slice j old = Some s" "json_valid j" "list_all valid_utf8 (array old)"
  shows "list_all valid_utf8 (array s)"
proof -
  consider "array s = []" | js ss where "j = JArr js" "decode_elems js (array old) = Some ss"
      "array s = ss @ drop (length ss) (array old)"
    using assms(1) by (auto simp: decode_slice_def split: json.splits list.splits simp del: decode_elems.simps)
  then show ?thesis
  proof cases
    case 2
    then show ?thesis using assms(2,3) decode_elems_valid [OF 2(2)]
      by (auto simp: list_all_iff dest: in_set_dropD)
  qed simp
qed

definition target_valid :: "cmd_target \<Rightarrow> bool" where
  "target_valid x \<longleftrightarrow> valid_utf8 (t_op x) \<and> list_all valid_utf8 (array (t_args x))"

lemma store_cmd_field_valid:
  "store_cmd_field n j x = Some y \<Longrightarrow> json_valid j \<Longrightarrow> target_valid x \<Longrightarrow> target_valid y"
  by (auto simp: store_cmd_field_def target_valid_def dest: decode_string_valid decode_slice_valid split: if_splits)

lemma decode_fields_inv:
  assumes step: "\<And>n j x y. store n j x = Some y \<Longrightarrow> json_valid j \<Longrightarrow> P x \<Longrightarrow> P y"
  shows "decode_fields strict names store kvs x = Some y \<Longrightarrow> json_valid (JObj kvs) \<Longrightarrow> P x \<Longrightarrow> P y"
proof (induction kvs arbitrary: x)
  case (Cons kv kvs)
  obtain k j where kv: "kv = (k, j)" by (cases kv)
  show ?case
  proof (cases "field_of names k")
    case None
    with Cons kv show ?thesis by (simp split: if_splits)
  next
    case (Some n)
    with Cons.prems kv obtain z where z: "store n j x = Some z" "decode_fields strict names store kvs z = Some y"
      by (auto split: option.splits)
    have "P z" using step [OF z(1)] Cons.prems kv by simp
    with Cons.IH [OF z(2)] Cons.prems show ?thesis by simp
  qed
qed simp

lemma decode_struct_inv:
  assumes step: "\<And>n j x y. store n j x = Some y \<Longrightarrow> json_valid j \<Longrightarrow> P x \<Longrightarrow> P y"
    and "decode_struct strict names store j x = Some y" "json_valid j" "P x"
  shows "P y"
  using assms decode_fields_inv [where P = P and store = store, OF step]
  by (auto simp: decode_struct_def split: json.splits)

lemma unmarshal_valid: "unmarshal_cmd data = Some cmd \<Longrightarrow> valid_cmd cmd"
proof -
  assume "unmarshal_cmd data = Some cmd"
  then obtain j x where j: "parse_text data = Some j"
    and x: "decode_struct False [''op'', ''args''] store_cmd_field j \<lparr>t_op = [], t_args = \<lparr>array = [], len = 0\<rparr>\<rparr> = Some x"
    and cmd: "cmd = \<lparr>Op = t_op x, Args = take (len (t_args x)) (array (t_args x))\<rparr>"
    by (auto simp: unmarshal_cmd_def split: option.splits)
  have "target_valid x"
    by (rule decode_struct_inv [OF store_cmd_field_valid x parse_text_valid [OF j]]) (simp_all add: target_valid_def)
  then show ?thesis by (auto simp: cmd valid_cmd_def target_valid_def list_all_iff dest: in_set_takeD)
qed

section \<open>Applying a replicated command\<close>

lemma Apply_marshal:
  "Op (coerce_cmd cmd) \<noteq> OpLeaderChanged \<Longrightarrow>
   Apply save (marshal_cmd cmd) f =
     Inr (Reply (fst (executeOnDB save (coerce_cmd cmd) (fsm_db f))),
          f\<lparr>fsm_db := snd (executeOnDB save (coerce_cmd cmd) (fsm_db f))\<rparr>)"
  by (simp add: Apply_def unmarshal_marshal split: prod.split)

definition keyspace_ok :: "(bytes, bytes) mapping \<Rightarrow> bool" where
  "keyspace_ok m \<longleftrightarrow> finite (Mapping.keys m) \<and>
     (\<forall>k v. Mapping.lookup m k = Some v \<longrightarrow> valid_utf8 k \<and> valid_utf8 v)"

definition fsm_inv :: "fsm \<Rightarrow> bool" where
  "fsm_inv f \<longleftrightarrow> keyspace_ok (keyspace (fsm_db f))"

lemma keyspace_ok_db: "keyspace_ok (keyspace db) \<longleftrightarrow> db_finite db \<and> db_all valid_utf8 db"
  by (simp add: keyspace_ok_def db_finite_def db_all_def)

lemma keyspace_ok_empty [simp]: "keyspace_ok Mapping.empty"
  by (simp add: keyspace_ok_def lookup_empty)

lemma keyspace_ok_update: "keyspace_ok m \<Longrightarrow> valid_utf8 k \<Longrightarrow> valid_utf8 v \<Longrightarrow> keyspace_ok (Mapping.update k v m)"
  by (auto simp: keyspace_ok_def lookup_update_fun)

lemma valid_Itoa [simp]: "valid_utf8 (Itoa w)"
  by (simp add: valid_ascii)

lemma exec_typed_inv:
  assumes "db_finite db" "db_all valid_utf8 db" "\<And>k v. c = SetC k v \<Longrightarrow> valid_utf8 k \<and> valid_utf8 v"
    "\<And>k d. c = IncrC k d \<Longrightarrow> valid_utf8 k"
  shows "db_finite (snd (exec_typed save c db)) \<and> db_all valid_utf8 (snd (exec_typed save c db))"
  using assms by (cases c) (auto simp: mem.invar_ops db_all_Set db_all_Delete db_all_Incr)

lemma typed_valid:
  assumes "valid_cmd cmd"
  shows "typed cmd = SetC k v \<Longrightarrow> valid_utf8 k \<and> valid_utf8 v" "typed cmd = IncrC k d \<Longrightarrow> valid_utf8 k"
  using assms by (auto simp: typed_def valid_cmd_def Let_def split: if_splits list.splits option.splits)

lemma executeOnDB_inv:
  "valid_cmd cmd \<Longrightarrow> db_finite db \<Longrightarrow> db_all valid_utf8 db \<Longrightarrow>
   db_finite (snd (executeOnDB save cmd db)) \<and> db_all valid_utf8 (snd (executeOnDB save cmd db))"
  unfolding executeOnDB_typed by (rule exec_typed_inv) (auto dest: typed_valid)

lemma Apply_inv:
  assumes "fsm_inv f" "Apply save data f = Inr (r, g)"
  shows "fsm_inv g"
proof (cases "unmarshal_cmd data")
  case None
  with assms show ?thesis by (simp add: Apply_def)
next
  case (Some cmd)
  have "fsm_inv (f\<lparr>fsm_db := snd (executeOnDB save cmd (fsm_db f))\<rparr>)"
    using executeOnDB_inv [OF unmarshal_valid [OF Some]] assms(1) by (simp add: fsm_inv_def keyspace_ok_db)
  moreover have "fsm_inv (f\<lparr>leaderAdminAddr := a\<rparr>)" for a using assms(1) by (simp add: fsm_inv_def)
  ultimately show ?thesis using assms(2) Some
    by (auto simp: Apply_def split: if_splits list.splits prod.splits)
qed

lemma decode_entries_ok:
  "decode_entries kvs m = Some m' \<Longrightarrow> json_valid (JObj kvs) \<Longrightarrow> keyspace_ok m \<Longrightarrow> keyspace_ok m'"
proof (induction kvs m rule: decode_entries.induct)
  case (2 k j kvs m)
  then obtain v where v: "decode_string j [] = Some v" "decode_entries kvs (Mapping.update k v m) = Some m'"
    by (auto split: option.splits)
  have "valid_utf8 v" using decode_string_valid [OF v(1)] 2(3) by simp
  with 2(1) [OF v(1) v(2)] 2(3,4) show ?case by (simp add: keyspace_ok_update)
qed simp

definition payload_inv :: "fsmSnapshotPayload \<Rightarrow> bool" where
  "payload_inv x \<longleftrightarrow> (\<forall>m. Keyspace x = Some m \<longrightarrow> keyspace_ok m)"

lemma decode_map_inv:
  assumes "decode_map j (Keyspace x) = Some m" "json_valid j" "payload_inv x"
  shows "payload_inv (x\<lparr>Keyspace := m\<rparr>)"
proof -
  have "keyspace_ok (case Keyspace x of None \<Rightarrow> Mapping.empty | Some m \<Rightarrow> m)"
    using assms(3) by (cases "Keyspace x") (auto simp: payload_inv_def)
  then show ?thesis
    using assms(1,2) decode_entries_ok by (auto simp: decode_map_def payload_inv_def split: json.splits)
qed

lemma store_payload_field_inv:
  "store_payload_field n j x = Some y \<Longrightarrow> json_valid j \<Longrightarrow> payload_inv x \<Longrightarrow> payload_inv y"
  by (auto simp: store_payload_field_def decode_map_inv split: if_splits) (auto simp: payload_inv_def)

lemma decode_payload_inv:
  assumes "decode_payload j = Some p" "json_valid j"
  shows "payload_inv p"
  by (rule decode_struct_inv [OF store_payload_field_inv assms(1) [unfolded decode_payload_def] assms(2)])
    (simp_all add: payload_inv_def)

lemma next_json_valid: "next_json fail s = Value j r \<Longrightarrow> json_valid j"
  by (auto simp: next_json_def dest: parse_prefix_valid split: option.splits if_splits)

lemma Restore_success:
  "Restore fail s f = (None, g) \<Longrightarrow>
   \<exists>j rest p m. next_json fail s = Value j rest \<and> decode_payload j = Some p \<and> Keyspace p = Some m \<and>
     next_json fail rest = AtEOF \<and> Format p = fsmSnapshotFormat \<and> Version p = fsmSnapshotVersion \<and>
     g = f\<lparr>fsm_db := (fsm_db f)\<lparr>keyspace := m\<rparr>\<rparr>"
  by (auto simp: Restore_def split: next_value.splits option.splits if_splits)

lemma Restore_failure: "Restore fail s f = (Some e, g) \<Longrightarrow> g = f"
  by (auto simp: Restore_def split: next_value.splits option.splits if_splits)

lemma Restore_inv:
  assumes "fsm_inv f" "Restore fail s f = (e, g)"
  shows "fsm_inv g"
proof (cases e)
  case None
  with assms(2) obtain j rest p m where j: "next_json fail s = Value j rest" "decode_payload j = Some p" "Keyspace p = Some m"
      "g = f\<lparr>fsm_db := (fsm_db f)\<lparr>keyspace := m\<rparr>\<rparr>"
    by (blast dest: Restore_success)
  with decode_payload_inv [OF j(2) next_json_valid [OF j(1)]] show ?thesis
    by (simp add: payload_inv_def fsm_inv_def)
next
  case (Some err)
  with assms show ?thesis by (auto dest: Restore_failure)
qed

section \<open>A snapshot restores the store it was taken from\<close>

lemma find_self: "List.find (\<lambda>k. k = x) ks = (if x \<in> set ks then Some x else None)"
  by (induction ks) auto

lemma rebuild_map:
  assumes "finite (Mapping.keys m)"
  shows "foldl (\<lambda>cp k. Mapping.update k (the (Mapping.lookup m k)) cp) Mapping.empty (Mapping.ordered_keys m) = m"
proof (rule mapping_eqI)
  fix x
  show "Mapping.lookup (foldl (\<lambda>cp k. Mapping.update k (the (Mapping.lookup m k)) cp) Mapping.empty
      (Mapping.ordered_keys m)) x = Mapping.lookup m x"
    using assms
    by (auto simp: lookup_foldl_update [where f = "\<lambda>k. k"] find_self lookup_empty keys_dom dom_def)
qed

lemma copy_map_id: "finite (Mapping.keys m) \<Longrightarrow> copy_map m = m"
proof -
  assume fin: "finite (Mapping.keys m)"
  have "copy_map m =
      foldl (\<lambda>cp k. Mapping.update k (the (Mapping.lookup m k)) cp) Mapping.empty (Mapping.ordered_keys m)"
    unfolding copy_map_def by (rule foldl_cong) (use fin in \<open>auto simp: keys_dom\<close>)
  then show ?thesis using rebuild_map [OF fin] by simp
qed

definition snapshot_payload :: "(bytes, bytes) mapping \<Rightarrow> fsmSnapshotPayload" where
  "snapshot_payload m = \<lparr>Format = fsmSnapshotFormat, Version = fsmSnapshotVersion, Keyspace = Some m\<rparr>"

lemma snapshot_text_eq: "snapshot_text m = print_json (json_of_payload (snapshot_payload (snap_state m))) @ [LF]"
  by (simp add: snapshot_text_def Persist_def snapshot_payload_def Let_def)

lemma payload_json_shape:
  "plain_numbers (json_of_payload p)" "json_depth (json_of_payload p) \<le> max_depth" "composite (json_of_payload p)"
  by (auto simp: json_of_payload_def json_of_map_def max_depth_def composite_def split: option.splits)

lemma coerce_json_of_map:
  assumes "keyspace_ok m"
  shows "coerce_json (json_of_map m) = json_of_map m"
  using assms by (auto simp: json_of_map_def keyspace_ok_def keys_dom dom_def intro!: coerce_valid)

lemma decode_json_of_map:
  "finite (Mapping.keys m) \<Longrightarrow> decode_map (json_of_map m) None = Some (Some m)"
  by (simp add: decode_map_def json_of_map_def decode_entries_strings [where f = "\<lambda>k. k"] rebuild_map)

lemma decode_json_of_payload:
  assumes "keyspace_ok m"
  shows "decode_payload (coerce_json (json_of_payload (snapshot_payload m))) = Some (snapshot_payload m)"
proof -
  have c: "coerce fsmSnapshotFormat = fsmSnapshotFormat"
    by (simp add: coerce_valid valid_ascii fsmSnapshotFormat_def)
  have "unat fsmSnapshotVersion < 2 ^ 64" by (simp add: fsmSnapshotVersion_def)
  then have n: "ParseUint64 (show_nat (unat fsmSnapshotVersion)) = Some fsmSnapshotVersion"
    by (simp add: ParseUint64_show_nat)
  show ?thesis
    using assms
    by (simp add: decode_payload_def json_of_payload_def snapshot_payload_def decode_struct_def field_of_known
        store_payload_field_def coerce_field_names c n decode_uint64_def coerce_json_of_map decode_json_of_map
        keyspace_ok_def [of m])
qed

lemma Restore_snapshot:
  assumes "keyspace_ok m"
  shows "Restore EOF (snapshot_text \<lparr>snap_state = m\<rparr>) g = (None, g\<lparr>fsm_db := (fsm_db g)\<lparr>keyspace := m\<rparr>\<rparr>)"
proof -
  let ?j = "json_of_payload (snapshot_payload m)"
  have v: "next_json EOF (snapshot_text \<lparr>snap_state = m\<rparr>) = Value (coerce_json ?j) [LF]"
    by (simp add: snapshot_text_eq next_json_composite payload_json_shape)
  have e: "next_json EOF [LF] = AtEOF"
    by (rule next_json_blank) (simp add: skip_ws_def is_space_def)
  show ?thesis
    by (simp add: Restore_def v e decode_json_of_payload [OF assms]) (simp add: snapshot_payload_def)
qed

lemma MemDB_replace: "(db :: MemDB)\<lparr>keyspace := keyspace db'\<rparr> = db'"
  by (cases db; cases db') simp

lemma Restore_Snapshot:
  assumes "fsm_inv f"
  shows "Restore EOF (snapshot_text (Snapshot f)) g = (None, g\<lparr>fsm_db := fsm_db f\<rparr>)"
proof -
  have "keyspace_ok (keyspace (fsm_db f))" using assms by (simp add: fsm_inv_def)
  then show ?thesis
    by (simp add: Snapshot_def copy_map_id keyspace_ok_def Restore_snapshot MemDB_replace)
qed

section \<open>The contract between Raft and its state machine\<close>

text \<open>
  Raft rebuilds a replica from a snapshot and the log entries after it, and brings a lagging one up
  to date the same way. \<open>view\<close> is the part of the state that snapshots carry. The laws are the ones a
  state machine owes to Raft; the lemmas are what Raft's recovery needs.
\<close>

primrec replay :: "('e \<Rightarrow> 's \<Rightarrow> 's option) \<Rightarrow> 'e list \<Rightarrow> 's \<Rightarrow> 's option" where
  "replay step [] s = Some s"
| "replay step (e # es) s = Option.bind (step e s) (replay step es)"

lemma replay_append: "replay step (xs @ ys) s = Option.bind (replay step xs s) (replay step ys)"
  by (induction xs arbitrary: s) (simp_all add: Option.bind_assoc split: Option.bind_split)

locale raft_fsm =
  fixes step :: "'e \<Rightarrow> 's \<Rightarrow> 's option"
    and snapshot :: "'s \<Rightarrow> 'i"
    and restore :: "'i \<Rightarrow> 's \<Rightarrow> 's option"
    and view :: "'s \<Rightarrow> 'v"
    and inv :: "'s \<Rightarrow> bool"
  assumes step_inv: "inv s \<Longrightarrow> step e s = Some s' \<Longrightarrow> inv s'"
    and step_view: "view s = view t \<Longrightarrow> step e s = Some s' \<Longrightarrow> \<exists>t'. step e t = Some t' \<and> view t' = view s'"
    and restore_snapshot: "inv s \<Longrightarrow> inv t \<Longrightarrow> \<exists>t'. restore (snapshot s) t = Some t' \<and> inv t' \<and> view t' = view s"
begin

lemma replay_inv: "inv s \<Longrightarrow> replay step es s = Some s' \<Longrightarrow> inv s'"
  by (induction es arbitrary: s) (auto simp: bind_eq_Some_conv intro: step_inv)

lemma replay_view:
  "view s = view t \<Longrightarrow> replay step es s = Some s' \<Longrightarrow> \<exists>t'. replay step es t = Some t' \<and> view t' = view s'"
proof (induction es arbitrary: s t)
  case (Cons e es)
  then obtain s1 where s1: "step e s = Some s1" "replay step es s1 = Some s'" by (auto simp: bind_eq_Some_conv)
  obtain t1 where "step e t = Some t1" "view t1 = view s1" using step_view [OF Cons.prems(1) s1(1)] by blast
  with Cons.IH [of s1 t1] s1(2) show ?case by auto
qed simp

theorem recovery:
  assumes "inv s" "inv t" "replay step (xs @ ys) s = Some s2"
  shows "\<exists>s1 t1 t2. replay step xs s = Some s1 \<and> restore (snapshot s1) t = Some t1 \<and>
    replay step ys t1 = Some t2 \<and> view t2 = view s2"
proof -
  obtain s1 where s1: "replay step xs s = Some s1" "replay step ys s1 = Some s2"
    using assms(3) by (auto simp: replay_append bind_eq_Some_conv)
  obtain t1 where t1: "restore (snapshot s1) t = Some t1" "view t1 = view s1"
    using restore_snapshot [OF replay_inv [OF assms(1) s1(1)] assms(2)] by blast
  with replay_view [OF t1(2) [symmetric] s1(2)] s1(1) show ?thesis by blast
qed

end

definition apply_entry :: "bytes option \<Rightarrow> bytes \<Rightarrow> fsm \<Rightarrow> fsm option" where
  "apply_entry save data f = (case Apply save data f of Inl _ \<Rightarrow> None | Inr (_, g) \<Rightarrow> Some g)"

definition restore_image :: "bytes \<Rightarrow> fsm \<Rightarrow> fsm option" where
  "restore_image img f = (case Restore EOF img f of (None, g) \<Rightarrow> Some g | (Some _, _) \<Rightarrow> None)"

lemma apply_entry_view:
  assumes "fsm_db f = fsm_db g" "apply_entry save data f = Some f'"
  shows "\<exists>g'. apply_entry save data g = Some g' \<and> fsm_db g' = fsm_db f'"
proof (cases "unmarshal_cmd data")
  case None
  with assms show ?thesis by (auto simp: apply_entry_def Apply_def)
next
  case (Some cmd)
  show ?thesis
  proof (cases "Op cmd = OpLeaderChanged")
    case True
    with assms Some show ?thesis by (cases "Args cmd") (auto simp: apply_entry_def Apply_def)
  next
    case False
    obtain r db where "executeOnDB save cmd (fsm_db f) = (r, db)" by fastforce
    with False assms Some show ?thesis by (auto simp: apply_entry_def Apply_def)
  qed
qed

lemma apply_entry_inv: "fsm_inv f \<Longrightarrow> apply_entry save data f = Some g \<Longrightarrow> fsm_inv g"
  by (auto simp: apply_entry_def dest: Apply_inv split: sum.splits)

lemma restore_image_snapshot:
  "fsm_inv s \<Longrightarrow> restore_image (snapshot_text (Snapshot s)) t = Some (t\<lparr>fsm_db := fsm_db s\<rparr>)"
  by (simp add: restore_image_def Restore_Snapshot)

interpretation replica: raft_fsm "apply_entry save" "\<lambda>f. snapshot_text (Snapshot f)" restore_image fsm_db fsm_inv for save
  by unfold_locales
    (auto simp: restore_image_snapshot fsm_inv_def intro: apply_entry_inv [unfolded fsm_inv_def] apply_entry_view)

section \<open>Properties\<close>

text \<open>The states a replica can be in: it starts empty, applies any log entries and restores any images.\<close>

inductive replica_reach :: "fsm \<Rightarrow> bool" where
  start: "replica_reach \<lparr>fsm_db = Init \<lparr>keyspace = m\<rparr>, leaderAdminAddr = []\<rparr>"
| applied: "replica_reach f \<Longrightarrow> Apply save data f = Inr (r, g) \<Longrightarrow> replica_reach g"
| restored: "replica_reach f \<Longrightarrow> Restore fail s f = (e, g) \<Longrightarrow> replica_reach g"

lemma replica_reach_inv: "replica_reach f \<Longrightarrow> fsm_inv f"
proof (induction rule: replica_reach.induct)
  case (start m)
  then show ?case by (simp add: fsm_inv_def Init_def)
qed (auto intro: Apply_inv Restore_inv)

text \<open>
  C21. Replication is transparent for text: applying the log entry of a command whose name and
  arguments are valid UTF-8, other than the announcement \<^verbatim>\<open>LEADER_CHANGED\<close> that the program itself logs, has exactly the
  reply and the effect of executing the command on the local store. An announcement only records its first
  argument as the leader's admin address and leaves the store alone; one without arguments panics.
\<close>

theorem replication_transparent:
  assumes "valid_cmd cmd"
  shows "Apply save (marshal_cmd cmd) f =
    (if Op cmd = OpLeaderChanged
     then (case Args cmd of [] \<Rightarrow> Inl IndexOutOfRange | a # _ \<Rightarrow> Inr (Reply Ok, f\<lparr>leaderAdminAddr := a\<rparr>))
     else Inr (Reply (fst (executeOnDB save cmd (fsm_db f))), f\<lparr>fsm_db := snd (executeOnDB save cmd (fsm_db f))\<rparr>))"
  using Apply_marshal [of cmd save f] assms by (simp add: coerce_cmd_valid Apply_def unmarshal_marshal)

theorem replication_transparent_witness:
  "Apply None (marshal_cmd \<lparr>Op = ''SET'', Args = [''k'', ''<v>'']\<rparr>)
     \<lparr>fsm_db = \<lparr>keyspace = Mapping.empty\<rparr>, leaderAdminAddr = []\<rparr> =
   Inr (Reply Ok, \<lparr>fsm_db = Set ''k'' ''<v>'' \<lparr>keyspace = Mapping.empty\<rparr>, leaderAdminAddr = []\<rparr>)"
proof -
  let ?c = "\<lparr>Op = ''SET'', Args = [''k'', ''<v>'']\<rparr>" and ?f = "\<lparr>fsm_db = \<lparr>keyspace = Mapping.empty\<rparr>, leaderAdminAddr = []\<rparr>"
  have "valid_cmd ?c" by (simp add: valid_cmd_def valid_ascii)
  from replication_transparent [OF this, of None ?f] show ?thesis by (simp add: executeOnDB_def OpLeaderChanged_def)
qed

text \<open>
  C31. Bytes that are not valid UTF-8 are altered by replication: a \<^verbatim>\<open>SET\<close> of such a value that goes
  through the log is acknowledged, but the store then holds a different value.
\<close>

theorem replication_alters_binary:
  assumes "\<not> valid_utf8 v" "valid_utf8 k"
  shows "\<exists>g w. Apply save (marshal_cmd \<lparr>Op = ''SET'', Args = [k, v]\<rparr>) f = Inr (Reply Ok, g)
    \<and> Get k (fsm_db g) = Some w \<and> w = coerce v \<and> w \<noteq> v"
proof -
  let ?c = "\<lparr>Op = ''SET'', Args = [k, v]\<rparr>"
  have "coerce_cmd ?c = \<lparr>Op = ''SET'', Args = [k, coerce v]\<rparr>"
    using assms(2) by (simp add: coerce_cmd_def coerce_valid valid_ascii)
  then have "Apply save (marshal_cmd ?c) f = Inr (Reply Ok, f\<lparr>fsm_db := Set k (coerce v) (fsm_db f)\<rparr>)"
    using Apply_marshal [of ?c save f] by (simp add: OpLeaderChanged_def executeOnDB_def)
  then show ?thesis using assms(1) by (simp add: db_simps coerce_eq_iff)
qed

theorem replication_alters_binary_witness:
  "\<exists>g w. Apply None (marshal_cmd \<lparr>Op = ''SET'', Args = [''k'', [CHR 0xFF]]\<rparr>)
      \<lparr>fsm_db = \<lparr>keyspace = Mapping.empty\<rparr>, leaderAdminAddr = []\<rparr> = Inr (Reply Ok, g)
    \<and> Get ''k'' (fsm_db g) = Some w \<and> w = coerce [CHR 0xFF] \<and> w \<noteq> [CHR 0xFF]"
  by (rule replication_alters_binary)
    (simp_all add: valid_ascii valid_utf8_bad DecodeRune_def)

text \<open>
  A replica's store is always finite and holds valid UTF-8 keys and values only, whatever log
  entries it applies and whatever snapshot images it restores, well-formed or not.
\<close>

lemma replica_store_valid:
  assumes "replica_reach f"
  shows "db_finite (fsm_db f) \<and> db_all valid_utf8 (fsm_db f)"
  using replica_reach_inv [OF assms] by (simp add: fsm_inv_def keyspace_ok_db)

text \<open>
  C19. Restoring a snapshot of a replica gives back its store exactly, in any other replica: the
  image that \<^verbatim>\<open>Persist\<close> writes is accepted by \<^verbatim>\<open>Restore\<close> and replaces the store.
\<close>

theorem snapshot_restore_exact:
  assumes "replica_reach f"
  shows "Restore EOF (snapshot_text (Snapshot f)) g = (None, g\<lparr>fsm_db := fsm_db f\<rparr>)"
  by (rule Restore_Snapshot [OF replica_reach_inv [OF assms]])

lemma replica_reach_set:
  "replica_reach \<lparr>fsm_db = Set ''k'' ''v'' (Init \<lparr>keyspace = Mapping.empty\<rparr>), leaderAdminAddr = []\<rparr>"
proof -
  let ?c = "\<lparr>Op = ''SET'', Args = [''k'', ''v'']\<rparr>"
  have "coerce_cmd ?c = ?c" by (simp add: coerce_cmd_valid valid_cmd_def valid_ascii)
  then have "Apply None (marshal_cmd ?c) \<lparr>fsm_db = Init \<lparr>keyspace = Mapping.empty\<rparr>, leaderAdminAddr = []\<rparr> =
      Inr (Reply Ok, \<lparr>fsm_db = Set ''k'' ''v'' (Init \<lparr>keyspace = Mapping.empty\<rparr>), leaderAdminAddr = []\<rparr>)"
    using Apply_marshal [of ?c None] by (simp add: OpLeaderChanged_def executeOnDB_def)
  then show ?thesis by (rule replica_reach.applied [OF replica_reach.start])
qed

theorem snapshot_restore_exact_witness:
  "Restore EOF (snapshot_text (Snapshot
      \<lparr>fsm_db = Set ''k'' ''v'' (Init \<lparr>keyspace = Mapping.empty\<rparr>), leaderAdminAddr = []\<rparr>))
     \<lparr>fsm_db = \<lparr>keyspace = Mapping.empty\<rparr>, leaderAdminAddr = ''a''\<rparr> =
   (None, \<lparr>fsm_db = Set ''k'' ''v'' (Init \<lparr>keyspace = Mapping.empty\<rparr>), leaderAdminAddr = ''a''\<rparr>)"
  using snapshot_restore_exact [OF replica_reach_set,
      of "\<lparr>fsm_db = \<lparr>keyspace = Mapping.empty\<rparr>, leaderAdminAddr = ''a''\<rparr>"] by simp

text \<open>
  C5. Recovery: a replica that restores the snapshot taken after a prefix of the log and then
  applies the remaining entries has the same store as one that applied the whole log.
\<close>

theorem snapshot_plus_tail:
  assumes "replica_reach f" "replica_reach g" "replay (apply_entry save) (xs @ ys) f = Some f2"
  shows "\<exists>f1 g1 g2. replay (apply_entry save) xs f = Some f1
    \<and> restore_image (snapshot_text (Snapshot f1)) g = Some g1
    \<and> replay (apply_entry save) ys g1 = Some g2 \<and> fsm_db g2 = fsm_db f2"
  by (rule replica.recovery [OF replica_reach_inv [OF assms(1)] replica_reach_inv [OF assms(2)] assms(3)])

theorem snapshot_plus_tail_witness:
  "\<exists>f1 g1 g2. replay (apply_entry None) [''{}''] \<lparr>fsm_db = Init \<lparr>keyspace = Mapping.empty\<rparr>, leaderAdminAddr = []\<rparr> = Some f1
    \<and> restore_image (snapshot_text (Snapshot f1)) \<lparr>fsm_db = Init \<lparr>keyspace = Mapping.empty\<rparr>, leaderAdminAddr = []\<rparr> = Some g1
    \<and> replay (apply_entry None) [marshal_cmd \<lparr>Op = ''SET'', Args = [''k'', ''v'']\<rparr>] g1 = Some g2
    \<and> fsm_db g2 = Set ''k'' ''v'' (Init \<lparr>keyspace = Mapping.empty\<rparr>)"
proof -
  let ?f = "\<lparr>fsm_db = Init \<lparr>keyspace = Mapping.empty\<rparr>, leaderAdminAddr = []\<rparr>"
  let ?c = "\<lparr>Op = ''SET'', Args = [''k'', ''v'']\<rparr>"
  have c: "coerce_cmd ?c = ?c" by (simp add: coerce_cmd_valid valid_cmd_def valid_ascii)
  have 1: "unmarshal_cmd ''{}'' = Some \<lparr>Op = [], Args = []\<rparr>"
    using parse_text_print [of "JObj []"] by (simp add: unmarshal_cmd_def max_depth_def decode_struct_def)
  have 2: "replay (apply_entry None) ([''{}''] @ [marshal_cmd ?c]) ?f = Some (?f\<lparr>fsm_db := Set ''k'' ''v'' (fsm_db ?f)\<rparr>)"
    using 1 Apply_marshal [of ?c None ?f] c
    by (simp add: apply_entry_def Apply_def OpLeaderChanged_def executeOnDB_def unmarshal_marshal)
  from snapshot_plus_tail [OF replica_reach.start replica_reach.start 2, of Mapping.empty] show ?thesis by simp
qed

text \<open>
  Restoring is all or nothing and forgets the old store: an image that is refused, for any
  reason, leaves the replica as it was; one that is accepted puts every replica into the same store,
  whatever it held before.
\<close>

lemma restore_all_or_nothing:
  "case Restore fail s f of
     (Some e, g) \<Rightarrow> g = f
   | (None, g) \<Rightarrow> \<forall>h. Restore fail s h = (None, h\<lparr>fsm_db := fsm_db g\<rparr>)"
proof (cases "Restore fail s f")
  case (Pair e g)
  show ?thesis
  proof (cases e)
    case None
    with Pair obtain j rest p m where j: "next_json fail s = Value j rest" "decode_payload j = Some p" "Keyspace p = Some m"
      "next_json fail rest = AtEOF" "Format p = fsmSnapshotFormat" "Version p = fsmSnapshotVersion"
      "g = f\<lparr>fsm_db := (fsm_db f)\<lparr>keyspace := m\<rparr>\<rparr>"
      by (blast dest: Restore_success)
    then have "Restore fail s h = (None, h\<lparr>fsm_db := (fsm_db h)\<lparr>keyspace := m\<rparr>\<rparr>)" for h
      by (simp add: Restore_def)
    then show ?thesis using None Pair j(7) MemDB_replace [of "fsm_db _" "(fsm_db f)\<lparr>keyspace := m\<rparr>"] by simp
  next
    case (Some err)
    with Pair show ?thesis by (auto dest: Restore_failure)
  qed
qed

text \<open>
  C20. A snapshot file that was cut short is refused: if any part of the image before its closing
  brace is missing, \<^verbatim>\<open>Restore\<close> reports a decoding error and the replica keeps its store.
\<close>

theorem torn_snapshot_refused:
  assumes "snapshot_text m = p @ q" "2 \<le> length q"
  shows "Restore fail p f = (Some SnapshotDecode, f)"
proof (cases "p = []")
  case True
  have "next_json fail [] = AtEOF \<or> next_json fail [] = BadValue"
    using parse_value_blank [of "[]"] by (simp add: next_json_def skip_ws_def)
  then show ?thesis using True by (auto simp: Restore_def)
next
  case False
  obtain q' where q: "q = q' @ [LF]" "q' \<noteq> []"
    using assms by (cases q rule: rev_cases) (auto simp: snapshot_text_eq Suc_le_eq)
  then have "print_json (json_of_payload (snapshot_payload (snap_state m))) = p @ q'"
    using assms(1) by (simp add: snapshot_text_eq)
  then have "next_json fail p = BadValue"
    using next_json_prefix [OF _ q(2) False] payload_json_shape [of "snapshot_payload (snap_state m)"]
    unfolding json_of_payload_def by blast
  then show ?thesis by (simp add: Restore_def)
qed

theorem torn_snapshot_refused_witness:
  "Restore EOF (take 40 (snapshot_text \<lparr>snap_state = Mapping.empty\<rparr>)) \<lparr>fsm_db = \<lparr>keyspace = Mapping.empty\<rparr>, leaderAdminAddr = []\<rparr> =
   (Some SnapshotDecode, \<lparr>fsm_db = \<lparr>keyspace = Mapping.empty\<rparr>, leaderAdminAddr = []\<rparr>)"
proof (rule torn_snapshot_refused)
  show "snapshot_text \<lparr>snap_state = Mapping.empty\<rparr> =
      take 40 (snapshot_text \<lparr>snap_state = Mapping.empty\<rparr>) @ drop 40 (snapshot_text \<lparr>snap_state = Mapping.empty\<rparr>)"
    by simp
  show "2 \<le> length (drop 40 (snapshot_text \<lparr>snap_state = Mapping.empty\<rparr>))"
    by (simp add: snapshot_text_eq json_of_payload_def snapshot_payload_def fsmSnapshotFormat_def fsmSnapshotVersion_def
        json_of_map_def quote_def runes_of_ascii quote_rune_def Let_def EncodeRune_ascii show_nat.simps invalid_rune_def
        RuneError_def)
qed

end
