(* ===== verification/Replication.thy ===== *)
theory Replication
  imports Fsm
begin

text \<open>
  How a process reaches the replicated state machine (\<^verbatim>\<open>src/core/raft.go\<close>): the checks for an enabled
  Raft node and for leadership, the submission of a command to the log, the on-demand snapshot and
  the goroutines that announce a new leader. The Raft library is a parameter: a \<open>raft_lib\<close> says how
  its \<^verbatim>\<open>Apply\<close> and \<^verbatim>\<open>Snapshot\<close> calls end, and \<open>raft_contract\<close> states what its documentation promises.
\<close>

section \<open>Processes and the Raft library\<close>

datatype raft_state = Follower | Candidate | Leader | ShutdownState

text \<open>
  The state of one process: the Raft node's state if there is a node, and the state machine,
  whose store is the package variable \<^verbatim>\<open>memdb\<close>.
\<close>

record process =
  raft_role :: "raft_state option"
  machine :: fsm

definition memdb :: "process \<Rightarrow> MemDB" where
  "memdb p = fsm_db (machine p)"

text \<open>The dynamic value a future holds as its response.\<close>

datatype go_value = NilValue | ErrorValue | StringValue bytes | OtherValue

datatype apply_future = FutureError | FutureResponse go_value

record raft_lib =
  lib_apply :: "bytes \<Rightarrow> process \<Rightarrow> apply_future \<times> process"
  lib_snapshot :: "process \<Rightarrow> bytes option"

definition response_value :: "fsm_response \<Rightarrow> go_value" where
  "response_value r = (case r of DecodeErr \<Rightarrow> ErrorValue | Reply s \<Rightarrow> StringValue s)"

text \<open>
  The documented behaviour of \<^verbatim>\<open>Apply\<close>: it succeeds on the leader only, and then the entry has been
  applied by the state machine of this process, in log order after the entries committed before it,
  and the future holds what the state machine returned. An error promises nothing about the entry.
\<close>

definition raft_contract :: "raft_lib \<Rightarrow> bool" where
  "raft_contract lib \<longleftrightarrow>
     (\<forall>data p v q. lib_apply lib data p = (FutureResponse v, q) \<longrightarrow>
        raft_role p = Some Leader \<and>
        (\<exists>earlier save f r. replay (apply_entry save) earlier (machine p) = Some f \<and>
           Apply save data f = Inr (r, machine q) \<and> v = response_value r))"

section \<open>Operations\<close>

definition RaftEnabled :: "process \<Rightarrow> bool" where
  "RaftEnabled p \<longleftrightarrow> raft_role p \<noteq> None"

definition IsLeader :: "process \<Rightarrow> bool" where
  "IsLeader p = (case raft_role p of None \<Rightarrow> False | Some st \<Rightarrow> st = Leader)"

definition GetLeaderAdminAddr :: "process \<Rightarrow> bytes" where
  "GetLeaderAdminAddr p = leaderAdminAddr (machine p)"

definition SaveSnapshot :: "raft_lib \<Rightarrow> process \<Rightarrow> bytes option" where
  "SaveSnapshot lib p =
     (case raft_role p of
        None \<Rightarrow> None
      | Some _ \<Rightarrow> (case lib_snapshot lib p of Some err \<Rightarrow> Some (''raft snapshot: '' @ err) | None \<Rightarrow> None))"

definition ExecuteLocally :: "raft_lib \<Rightarrow> Cmd \<Rightarrow> process \<Rightarrow> bytes \<times> process" where
  "ExecuteLocally lib cmd p =
     (let (reply, db) = executeOnDB (SaveSnapshot lib p) cmd (memdb p)
      in (reply, p\<lparr>machine := (machine p)\<lparr>fsm_db := db\<rparr>\<rparr>))"

definition ResetMemDB :: "process \<Rightarrow> process" where
  "ResetMemDB p = p\<lparr>machine := (machine p)\<lparr>fsm_db := Init (memdb p)\<rparr>\<rparr>"

definition applyCmdViaRaftNode :: "raft_lib \<Rightarrow> Cmd \<Rightarrow> process \<Rightarrow> bytes \<times> process" where
  "applyCmdViaRaftNode lib cmd p =
     (case lib_apply lib (marshal_cmd cmd) p of
        (FutureError, q) \<Rightarrow> (ErrInternal, q)
      | (FutureResponse respVal, q) \<Rightarrow>
          (case respVal of
             NilValue \<Rightarrow> (Ok, q)
           | ErrorValue \<Rightarrow> (ErrInternal, q)
           | StringValue msg \<Rightarrow> (msg, q)
           | OtherValue \<Rightarrow> (ErrInternal, q)))"

definition ApplyCmdViaRaft :: "raft_lib \<Rightarrow> Cmd \<Rightarrow> process \<Rightarrow> bytes \<times> process" where
  "ApplyCmdViaRaft lib cmd p =
     (case raft_role p of
        None \<Rightarrow> ExecuteLocally lib cmd p
      | Some _ \<Rightarrow> applyCmdViaRaftNode lib cmd p)"

section \<open>Leader announcements\<close>

text \<open>
  \<^verbatim>\<open>observeClusterLeaderChange\<close> runs two goroutines. The first forwards the observations that name
  this node as the leader; the second drops an observation that repeats the last one it handled and
  submits a \<^verbatim>\<open>LEADER_CHANGED\<close> entry for each other one. The channel between them keeps the order, so the
  pair is a function from the observed leaders to the submissions; the initial \<^verbatim>\<open>lastLeader\<close> is empty.
\<close>

definition forward_own :: "bytes \<Rightarrow> bytes list \<Rightarrow> bytes list" where
  "forward_own localID events = filter (\<lambda>leader. leader = localID) events"

fun drop_repeats :: "bytes \<Rightarrow> bytes list \<Rightarrow> bytes list" where
  "drop_repeats lastLeader [] = []"
| "drop_repeats lastLeader (ev # evs) =
     (if ev = lastLeader then drop_repeats lastLeader evs else ev # drop_repeats ev evs)"

definition announcements :: "bytes \<Rightarrow> bytes list \<Rightarrow> bytes list" where
  "announcements localID events = drop_repeats [] (forward_own localID events)"

definition announce_cmd :: "process \<Rightarrow> Cmd" where
  "announce_cmd p = \<lparr>Op = OpLeaderChanged, Args = [GetLeaderAdminAddr p]\<rparr>"

definition announce :: "raft_lib \<Rightarrow> process \<Rightarrow> bytes \<times> process" where
  "announce lib p = applyCmdViaRaftNode lib (announce_cmd p) p"

lemma ResetMemDB_empties: "db_view (memdb (ResetMemDB p)) = Map.empty" "raft_role (ResetMemDB p) = raft_role p"
  by (simp_all add: ResetMemDB_def memdb_def view_Init)

section \<open>Replies of replicated commands\<close>

lemma applyCmdViaRaftNode_response:
  "lib_apply lib (marshal_cmd cmd) p = (FutureResponse (response_value (Reply s)), q) \<Longrightarrow>
   applyCmdViaRaftNode lib cmd p = (s, q)"
  by (simp add: applyCmdViaRaftNode_def response_value_def)

lemma OpLeaderChanged_valid: "valid_utf8 OpLeaderChanged"
  by (simp add: valid_ascii OpLeaderChanged_def)

lemma ErrInternal_neq_Ok: "ErrInternal \<noteq> Ok"
  by (simp add: resp_text)

lemma Apply_Ok_reply:
  assumes "Apply save (marshal_cmd cmd) f = Inr (r, g)" "Op (coerce_cmd cmd) \<noteq> OpLeaderChanged"
  shows "r = Reply (fst (executeOnDB save (coerce_cmd cmd) (fsm_db f)))"
    "fsm_db g = snd (executeOnDB save (coerce_cmd cmd) (fsm_db f))"
  using assms Apply_marshal [OF assms(2), of save f] by auto

section \<open>The replicated log\<close>

text \<open>
  A cluster as Raft presents it: one committed log, of which every node has applied a prefix. Clients
  submit write commands and nodes announce themselves; nodes apply the next entry, or jump ahead by
  installing another node's snapshot. That all nodes see one log is Raft's promise, not this
  program's.
\<close>

record cluster =
  log :: "bytes list"
  node :: "nat \<Rightarrow> fsm"
  applied :: "nat \<Rightarrow> nat"

definition cluster_start :: cluster where
  "cluster_start = \<lparr>log = [], node = (\<lambda>_. \<lparr>fsm_db = \<lparr>keyspace = Mapping.empty\<rparr>, leaderAdminAddr = []\<rparr>), applied = (\<lambda>_. 0)\<rparr>"

inductive cluster_step :: "cluster \<Rightarrow> cluster \<Rightarrow> bool" where
  client_write: "IsWriteOp cmd \<Longrightarrow> cluster_step c (c\<lparr>log := log c @ [marshal_cmd cmd]\<rparr>)"
| leader_announced:
    "cluster_step c (c\<lparr>log := log c @ [marshal_cmd \<lparr>Op = OpLeaderChanged, Args = [leaderAdminAddr (node c i)]\<rparr>]\<rparr>)"
| entry_applied:
    "applied c i < length (log c) \<Longrightarrow> Apply save (log c ! applied c i) (node c i) = Inr (r, f) \<Longrightarrow>
     cluster_step c (c\<lparr>node := (node c)(i := f), applied := (applied c)(i := Suc (applied c i))\<rparr>)"
| snapshot_installed:
    "applied c i \<le> applied c j \<Longrightarrow> Restore EOF (snapshot_text (Snapshot (node c j))) (node c i) = (e, f) \<Longrightarrow>
     cluster_step c (c\<lparr>node := (node c)(i := f), applied := (applied c)(i := applied c j)\<rparr>)"

inductive cluster_reach :: "cluster \<Rightarrow> bool" where
  start: "cluster_reach cluster_start"
| step: "cluster_reach c \<Longrightarrow> cluster_step c c' \<Longrightarrow> cluster_reach c'"

inductive_cases cluster_stepE: "cluster_step c c'"


text \<open>The commands that the entries of a log stand for, as a list of writes for the executor.\<close>

definition log_writes :: "bytes list \<Rightarrow> Cmd list" where
  "log_writes es = filter IsWriteOp (map (\<lambda>e. case unmarshal_cmd e of Some cmd \<Rightarrow> cmd | None \<Rightarrow> \<lparr>Op = [], Args = []\<rparr>) es)"

definition entry_ok :: "bytes \<Rightarrow> bool" where
  "entry_ok e \<longleftrightarrow> (\<exists>cmd. unmarshal_cmd e = Some cmd \<and>
     (IsWriteOp cmd \<or> cmd = \<lparr>Op = OpLeaderChanged, Args = [[]]\<rparr>))"

definition empty_db :: MemDB where
  "empty_db = \<lparr>keyspace = Mapping.empty\<rparr>"

definition node_ok :: "bytes list \<Rightarrow> nat \<Rightarrow> fsm \<Rightarrow> bool" where
  "node_ok es n f \<longleftrightarrow> n \<le> length es \<and> fsm_inv f \<and> leaderAdminAddr f = [] \<and>
     fsm_db f = run_commands (executeOnDB None) (log_writes (take n es)) empty_db"

definition cluster_inv :: "cluster \<Rightarrow> bool" where
  "cluster_inv c \<longleftrightarrow> list_all entry_ok (log c) \<and> (\<forall>i. node_ok (log c) (applied c i) (node c i))"

lemma coerce_write_op: "IsWriteOp cmd \<Longrightarrow> Op (coerce_cmd cmd) = Op cmd"
  by (auto simp: IsWriteOp_def coerce_cmd_def coerce_valid valid_ascii)

lemma entry_ok_write: "IsWriteOp cmd \<Longrightarrow> entry_ok (marshal_cmd cmd)"
  using coerce_write_op [of cmd] by (auto simp: entry_ok_def unmarshal_marshal IsWriteOp_def)

lemma entry_ok_announce: "entry_ok (marshal_cmd \<lparr>Op = OpLeaderChanged, Args = [[]]\<rparr>)"
  by (simp add: entry_ok_def unmarshal_marshal coerce_cmd_def coerce_valid OpLeaderChanged_valid)

lemma write_not_announce: "IsWriteOp cmd \<Longrightarrow> Op cmd \<noteq> OpLeaderChanged"
  by (auto simp: IsWriteOp_def OpLeaderChanged_def)

lemma executeOnDB_save: "snd (executeOnDB save cmd db) = snd (executeOnDB None cmd db)"
  unfolding executeOnDB_typed by (cases "typed cmd") auto

lemma Apply_entry_ok:
  assumes "entry_ok e" "leaderAdminAddr f = []"
  shows "\<exists>r g. Apply save e f = Inr (r, g) \<and> leaderAdminAddr g = [] \<and>
    fsm_db g = run_commands (executeOnDB None) (log_writes [e]) (fsm_db f)"
proof -
  obtain cmd where cmd: "unmarshal_cmd e = Some cmd" "IsWriteOp cmd \<or> cmd = \<lparr>Op = OpLeaderChanged, Args = [[]]\<rparr>"
    using assms(1) by (auto simp: entry_ok_def)
  from cmd(2) show ?thesis
  proof
    assume w: "IsWriteOp cmd"
    obtain r db where ex: "executeOnDB save cmd (fsm_db f) = (r, db)" by fastforce
    then have "db = snd (executeOnDB None cmd (fsm_db f))" using executeOnDB_save [of save cmd "fsm_db f"] by simp
    with ex w cmd(1) assms(2) write_not_announce [OF w] show ?thesis
      by (simp add: Apply_def log_writes_def)
  next
    assume "cmd = \<lparr>Op = OpLeaderChanged, Args = [[]]\<rparr>"
    with cmd(1) assms(2) show ?thesis
      by (simp add: Apply_def log_writes_def IsWriteOp_def OpLeaderChanged_def)
  qed
qed

lemma log_writes_append: "log_writes (xs @ ys) = log_writes xs @ log_writes ys"
  by (simp add: log_writes_def)

lemma node_ok_append: "node_ok es n f \<Longrightarrow> node_ok (es @ xs) n f"
  by (auto simp: node_ok_def)

lemma node_ok_apply:
  assumes "node_ok es n f" "n < length es" "entry_ok (es ! n)" "Apply save (es ! n) f = Inr (r, g)"
  shows "node_ok es (Suc n) g"
proof -
  have "leaderAdminAddr g = []" "fsm_db g = run_commands (executeOnDB None) (log_writes [es ! n]) (fsm_db f)"
    using Apply_entry_ok [OF assms(3), of f save] assms(1,4) by (auto simp: node_ok_def)
  moreover have "fsm_inv g" using Apply_inv [OF _ assms(4)] assms(1) by (simp add: node_ok_def)
  ultimately show ?thesis
    using assms(1,2) by (simp add: node_ok_def take_Suc_conv_app_nth log_writes_append)
qed

lemma cluster_inv_step: "cluster_step c c' \<Longrightarrow> cluster_inv c \<Longrightarrow> cluster_inv c'"
proof (induction rule: cluster_step.induct)
  case (client_write cmd c)
  then show ?case by (simp add: cluster_inv_def entry_ok_write node_ok_append)
next
  case (leader_announced c i)
  then have "leaderAdminAddr (node c i) = []" by (simp add: cluster_inv_def node_ok_def)
  with leader_announced show ?case by (simp add: cluster_inv_def entry_ok_announce node_ok_append)
next
  case (entry_applied c i save r f)
  then have "node_ok (log c) (Suc (applied c i)) f"
    by (intro node_ok_apply [of _ _ "node c i"]) (auto simp: cluster_inv_def list_all_length)
  with entry_applied show ?case by (simp add: cluster_inv_def)
next
  case (snapshot_installed c i j e f)
  have ij: "node_ok (log c) (applied c i) (node c i)" "node_ok (log c) (applied c j) (node c j)"
    using snapshot_installed by (simp_all add: cluster_inv_def)
  have "f = (node c i)\<lparr>fsm_db := fsm_db (node c j)\<rparr>"
    using snapshot_installed(2) Restore_Snapshot [of "node c j" "node c i"] ij(2) by (simp add: node_ok_def)
  then have "node_ok (log c) (applied c j) f" using ij by (auto simp: node_ok_def fsm_inv_def)
  with snapshot_installed show ?case by (simp add: cluster_inv_def)
qed

lemma cluster_reach_inv: "cluster_reach c \<Longrightarrow> cluster_inv c"
proof (induction rule: cluster_reach.induct)
  case start
  then show ?case
    by (simp add: cluster_start_def cluster_inv_def node_ok_def log_writes_def fsm_inv_def empty_db_def)
qed (rule cluster_inv_step)

lemma drop_repeats_own:
  "drop_repeats l (filter (\<lambda>leader. leader = x) evs) = (if x \<in> set evs \<and> x \<noteq> l then [x] else [])"
  by (induction evs arbitrary: l) auto

section \<open>Properties\<close>

text \<open>
  C2. State machine replication: in every reachable cluster state, each node's store is what
  executing the committed write commands up to the node's applied index, one after the other on an
  empty store, produces; snapshots that were installed on the way do not show.
\<close>

theorem replica_executes_log:
  assumes "cluster_reach c"
  shows "applied c i \<le> length (log c)
    \<and> fsm_db (node c i) = run_commands (executeOnDB None) (log_writes (take (applied c i) (log c))) empty_db"
  using cluster_reach_inv [OF assms] by (auto simp: cluster_inv_def node_ok_def)

text \<open>A cluster in which a client has written once, node 0 has applied the entry, and node 1 has not.\<close>

definition one_applied :: cluster where
  "one_applied =
     cluster_start\<lparr>log := [marshal_cmd \<lparr>Op = ''SET'', Args = [''k'', ''v'']\<rparr>],
       node := (node cluster_start)(0 := \<lparr>fsm_db = Set ''k'' ''v'' empty_db, leaderAdminAddr = []\<rparr>),
       applied := (applied cluster_start)(0 := 1)\<rparr>"

lemma reach_one_applied: "cluster_reach one_applied"
proof -
  let ?c = "\<lparr>Op = ''SET'', Args = [''k'', ''v'']\<rparr>" and ?f = "\<lparr>fsm_db = Set ''k'' ''v'' empty_db, leaderAdminAddr = []\<rparr>"
  let ?c1 = "cluster_start\<lparr>log := [marshal_cmd ?c]\<rparr>"
  have r: "cluster_reach ?c1"
    using cluster_reach.step [OF cluster_reach.start client_write [of ?c]] by (simp add: IsWriteOp_def cluster_start_def)
  have "coerce_cmd ?c = ?c" by (simp add: coerce_cmd_valid valid_cmd_def valid_ascii)
  then have "Apply None (log ?c1 ! applied ?c1 0) (node ?c1 0) = Inr (Reply Ok, ?f)"
    using Apply_marshal [of ?c None "node ?c1 0"] by (simp add: OpLeaderChanged_def executeOnDB_def cluster_start_def empty_db_def)
  from cluster_reach.step [OF r cluster_step.entry_applied [OF _ this]] show ?thesis
    by (simp add: one_applied_def cluster_start_def)
qed

theorem replica_executes_log_witness:
  "applied one_applied 0 = 1 \<and> fsm_db (node one_applied 0) =
     run_commands (executeOnDB None) (log_writes [marshal_cmd \<lparr>Op = ''SET'', Args = [''k'', ''v'']\<rparr>]) empty_db"
  using replica_executes_log [OF reach_one_applied, of 0] by (simp add: one_applied_def)

text \<open>
  Replicas agree: two nodes that have applied the same number of entries hold the same store,
  whether each applied the entries itself or installed a snapshot.
\<close>

lemma replicas_agree:
  assumes "cluster_reach c" "applied c i = applied c j"
  shows "fsm_db (node c i) = fsm_db (node c j)"
  using cluster_reach_inv [OF assms(1)] assms(2) by (auto simp: cluster_inv_def node_ok_def)

text \<open>
  No log entry the program submits can crash a replica: the next entry is always applied, in
  particular the leader announcement always carries the argument that \<^verbatim>\<open>Apply\<close> indexes.
\<close>

lemma log_never_panics:
  assumes "cluster_reach c" "applied c i < length (log c)"
  shows "\<exists>r f. Apply save (log c ! applied c i) (node c i) = Inr (r, f)"
proof -
  have "entry_ok (log c ! applied c i)" "leaderAdminAddr (node c i) = []"
    using cluster_reach_inv [OF assms(1)] assms(2) by (auto simp: cluster_inv_def node_ok_def list_all_length)
  from Apply_entry_ok [OF this] show ?thesis by blast
qed

text \<open>
  The leader's admin address is never learnt: in every reachable cluster state every node's
  \<^verbatim>\<open>leaderAdminAddr\<close> is empty, because a new leader announces the value of that variable itself, so a
  node that asks a follower to join is never redirected.
\<close>

lemma leader_address_never_learnt:
  assumes "cluster_reach c"
  shows "leaderAdminAddr (node c i) = []"
  using cluster_reach_inv [OF assms] by (auto simp: cluster_inv_def node_ok_def)

text \<open>
  A node announces itself at most once in its lifetime: only observations that name the node
  itself pass the first goroutine, so the second one takes every election after the first for
  a repetition, also when another node has led the cluster in between.
\<close>

lemma announced_at_most_once:
  "announcements localID events = (if localID \<in> set events \<and> localID \<noteq> [] then [localID] else [])"
  by (simp add: announcements_def forward_own_def drop_repeats_own)

end
