(* ===== verification/RespServer.thy ===== *)
theory RespServer
  imports Parser Replication
begin

text \<open>
  The client-facing server of \<^verbatim>\<open>src/server/resp_server.go\<close>: dispatch of one command between the local
  store and Raft, and the loop that serves a connection. The loop may run forever (the source's
  \<^verbatim>\<open>for\<close> has no bound of its own), so it is a \<open>partial_function\<close> in the option monad: \<open>None\<close> means that it
  does not return. Replies are collected in the order they are written to the connection; a write
  error is logged by the source and does not change what the loop does.
\<close>

section \<open>Dispatch\<close>

definition executeRESPCmd :: "raft_lib \<Rightarrow> Cmd option \<Rightarrow> process \<Rightarrow> bytes \<times> process" where
  "executeRESPCmd lib cmdp p =
     (case cmdp of
        None \<Rightarrow> (ErrNoCommandSpecified, p)
      | Some cmd \<Rightarrow>
          if IsWriteOp cmd \<and> RaftEnabled p then
            if \<not> IsLeader p then (ErrWriteNotAllowed, p)
            else ApplyCmdViaRaft lib cmd p
          else ExecuteLocally lib cmd p)"

definition isBrokenPipe :: "bytes \<Rightarrow> bool" where
  "isBrokenPipe err \<longleftrightarrow> Contains err ''broken pipe'' \<or> Contains err ''connection reset''"

text \<open>What \<^verbatim>\<open>writeResponse\<close> logs, given how the write ended; the connection stays open in every case.\<close>

definition writeResponse :: "bytes option \<Rightarrow> bytes option" where
  "writeResponse err = (case err of Some e \<Rightarrow> if isBrokenPipe e then None else Some e | None \<Rightarrow> None)"

section \<open>The connection loop\<close>

datatype conn_end = Closed | Crashed panic

partial_function (option) serve ::
  "raft_lib \<Rightarrow> (nat \<Rightarrow> nat) \<Rightarrow> reader \<Rightarrow> ParserContext \<Rightarrow> process \<Rightarrow> bytes list \<Rightarrow> (conn_end \<times> bytes list \<times> process) option"
where
  "serve lib up reader parserContext p out =
     (case ParseRESPCommand reader parserContext of
        (err, reader', ctx) \<Rightarrow>
          (case err of
             Panic x \<Rightarrow> Some (Crashed x, out, p)
           | Failure e \<Rightarrow>
               if e = ReadError EOF then Some (Closed, out, p)
               else serve lib up reader' (Reset ctx) p (out @ [ErrInvalidCommand])
           | Success \<Rightarrow>
               (case BuildCmd up (case CmdArgs ctx of None \<Rightarrow> [] | Some cmdArgs \<Rightarrow> cmdArgs) of
                  None \<Rightarrow> serve lib up reader' (Reset ctx) p (out @ [ErrInvalidCommand])
                | Some cmd \<Rightarrow>
                    (case executeRESPCmd lib (Some cmd) p of
                       (ret, q) \<Rightarrow> serve lib up reader' (Reset ctx) q (out @ [ret])))))"

definition handleConnection :: "raft_lib \<Rightarrow> (nat \<Rightarrow> nat) \<Rightarrow> reader \<Rightarrow> process \<Rightarrow> (conn_end \<times> bytes list \<times> process) option" where
  "handleConnection lib up reader p = serve lib up reader InitParserContext p []"

section \<open>Dispatch laws\<close>

lemma execute_follower:
  "IsWriteOp cmd \<Longrightarrow> raft_role p = Some st \<Longrightarrow> st \<noteq> Leader \<Longrightarrow>
   executeRESPCmd lib (Some cmd) p = (ErrWriteNotAllowed, p)"
  by (simp add: executeRESPCmd_def RaftEnabled_def IsLeader_def)

lemma execute_leader:
  "IsWriteOp cmd \<Longrightarrow> raft_role p = Some Leader \<Longrightarrow>
   executeRESPCmd lib (Some cmd) p = applyCmdViaRaftNode lib cmd p"
  by (simp add: executeRESPCmd_def RaftEnabled_def IsLeader_def ApplyCmdViaRaft_def)

lemma execute_local:
  "\<not> IsWriteOp cmd \<or> raft_role p = None \<Longrightarrow> executeRESPCmd lib (Some cmd) p = ExecuteLocally lib cmd p"
  by (auto simp: executeRESPCmd_def RaftEnabled_def)

lemma execute_read: "\<not> IsWriteOp cmd \<Longrightarrow> snd (executeRESPCmd lib (Some cmd) p) = p"
  using executeOnDB_read [of cmd "SaveSnapshot lib p" "memdb p"]
  by (auto simp: execute_local ExecuteLocally_def memdb_def split: prod.splits)

section \<open>Sessions\<close>

text \<open>Serving a list of commands one after the other.\<close>

fun run_session :: "raft_lib \<Rightarrow> Cmd list \<Rightarrow> process \<Rightarrow> bytes list \<times> process" where
  "run_session lib [] p = ([], p)"
| "run_session lib (cmd # cmds) p =
     (let (ret, q) = executeRESPCmd lib (Some cmd) p; (rets, q') = run_session lib cmds q
      in (ret # rets, q'))"

fun spec_session :: "command list \<Rightarrow> (bytes \<rightharpoonup> bytes) \<Rightarrow> reply list \<times> (bytes \<rightharpoonup> bytes)" where
  "spec_session [] m = ([], m)"
| "spec_session (c # cs) m =
     (let (r, m1) = spec_step None c m; (rs, m2) = spec_session cs m1 in (r # rs, m2))"

definition request_cmds :: "(nat \<Rightarrow> nat) \<Rightarrow> bytes list list \<Rightarrow> Cmd list" where
  "request_cmds up reqs = map (\<lambda>req. \<lparr>Op = ToUpper up (hd req), Args = tl req\<rparr>) reqs"

definition request_bytes :: "bytes list list \<Rightarrow> bytes" where
  "request_bytes reqs = concat (map (\<lambda>req. BuildArray (Some req)) reqs)"

definition sendable_request :: "bytes list \<Rightarrow> bool" where
  "sendable_request req \<longleftrightarrow> req \<noteq> [] \<and> sendable_args req"

lemma BuildCmd_Cons: "BuildCmd up (name # args) = Some \<lparr>Op = ToUpper up name, Args = args\<rparr>"
  by (cases args) (simp_all add: BuildCmd_def)

lemma state_Init [simp]: "state InitParserContext = CommandStart"
  by (simp add: InitParserContext_def)

lemma serve_end: "state ctx = CommandStart \<Longrightarrow> serve lib up \<lparr>rbuf = [], rfail = EOF\<rparr> ctx p out = Some (Closed, out, p)"
  by (subst serve.simps) (simp add: ParseRESPCommand_at_end)

lemma serve_requests:
  assumes "list_all sendable_request reqs" "state ctx = CommandStart"
  shows "serve lib up \<lparr>rbuf = request_bytes reqs, rfail = EOF\<rparr> ctx p out =
    (case run_session lib (request_cmds up reqs) p of (rets, q) \<Rightarrow> Some (Closed, out @ rets, q))"
  using assms
proof (induction reqs arbitrary: ctx p out)
  case Nil
  then show ?case by (simp add: request_bytes_def request_cmds_def serve_end)
next
  case (Cons req reqs)
  obtain name args where req: "req = name # args" using Cons.prems(1) by (cases req) (auto simp: sendable_request_def)
  obtain ctx' where p1: "ParseRESPCommand \<lparr>rbuf = BuildArray (Some req) @ request_bytes reqs, rfail = EOF\<rparr> ctx
      = (Success, \<lparr>rbuf = request_bytes reqs, rfail = EOF\<rparr>, ctx')" "CmdArgs ctx' = Some req"
    using ParseRESPCommand_BuildArray [OF Cons.prems(2), of req "request_bytes reqs" EOF] Cons.prems(1)
    by (auto simp: sendable_request_def)
  obtain ret q where ex: "executeRESPCmd lib (Some \<lparr>Op = ToUpper up name, Args = args\<rparr>) p = (ret, q)" by fastforce
  have "serve lib up \<lparr>rbuf = request_bytes (req # reqs), rfail = EOF\<rparr> ctx p out =
      serve lib up \<lparr>rbuf = request_bytes reqs, rfail = EOF\<rparr> (Reset ctx') q (out @ [ret])"
    using p1 ex by (subst serve.simps) (simp add: request_bytes_def req BuildCmd_Cons)
  also have "\<dots> = (case run_session lib (request_cmds up reqs) q of (rets, q') \<Rightarrow> Some (Closed, (out @ [ret]) @ rets, q'))"
    using Cons.IH [of "Reset ctx'"] Cons.prems by simp
  finally show ?case by (simp add: request_cmds_def req ex split: prod.split)
qed

lemma run_session_local:
  assumes "raft_role p = None" "run_session lib cmds p = (rets, q)"
    and "spec_session (map typed cmds) (db_view (memdb p)) = (rs, m)"
  shows "rets = map print_reply rs \<and> db_view (memdb q) = m \<and> raft_role q = None"
  using assms
proof (induction cmds arbitrary: p rets rs)
  case (Cons cmd cmds)
  obtain ret db where ex: "executeOnDB None cmd (memdb p) = (ret, db)" by fastforce
  define p1 where "p1 = p\<lparr>machine := (machine p)\<lparr>fsm_db := db\<rparr>\<rparr>"
  have e1: "executeRESPCmd lib (Some cmd) p = (ret, p1)"
    using ex Cons.prems(1) by (simp add: execute_local ExecuteLocally_def SaveSnapshot_def p1_def)
  obtain r m1 where s1: "spec_step None (typed cmd) (db_view (memdb p)) = (r, m1)" by fastforce
  have r: "ret = print_reply r" "db_view (memdb p1) = m1"
    using exec_typed_spec [of None "typed cmd" "memdb p"] ex s1 by (simp_all add: executeOnDB_typed p1_def memdb_def)
  obtain rets' where rs: "run_session lib cmds p1 = (rets', q)" "rets = ret # rets'"
    using Cons.prems(2) e1 by (auto split: prod.splits)
  obtain rs' where sp: "spec_session (map typed cmds) m1 = (rs', m)" "rs = r # rs'"
    using Cons.prems(3) s1 by (auto split: prod.splits)
  have "rets' = map print_reply rs' \<and> db_view (memdb q) = m \<and> raft_role q = None"
    using Cons.IH [of p1 rets' rs'] Cons.prems(1) rs(1) sp(1) r(2) by (simp add: p1_def)
  then show ?case using r(1) rs(2) sp(2) by simp
qed simp

lemma handleConnection_local:
  assumes "list_all sendable_request reqs" "raft_role p = None"
  shows "\<exists>q. handleConnection lib up \<lparr>rbuf = request_bytes reqs, rfail = EOF\<rparr> p =
      Some (Closed, map print_reply (fst (spec_session (map typed (request_cmds up reqs)) (db_view (memdb p)))), q)
    \<and> db_view (memdb q) = snd (spec_session (map typed (request_cmds up reqs)) (db_view (memdb p)))"
proof -
  obtain rets q where run: "run_session lib (request_cmds up reqs) p = (rets, q)" by fastforce
  obtain rs m where spec: "spec_session (map typed (request_cmds up reqs)) (db_view (memdb p)) = (rs, m)" by fastforce
  have "handleConnection lib up \<lparr>rbuf = request_bytes reqs, rfail = EOF\<rparr> p = Some (Closed, rets, q)"
    using serve_requests [OF assms(1), of InitParserContext lib up p "[]"] run
    by (simp add: handleConnection_def)
  then show ?thesis using run_session_local [OF assms(2) run spec] spec by simp
qed

lemma serve_returns:
  assumes "rfail r = EOF" "state ctx = CommandStart" "parser_inv ctx"
  shows "\<exists>e rets q. serve lib up r ctx p out = Some (e, out @ rets, q) \<and> (e = Closed \<or> e = Crashed MakeSliceOutOfRange)"
  using assms
proof (induction "length (rbuf r)" arbitrary: r ctx p out rule: less_induct)
  case less
  obtain st r' ctx' where pr: "ParseRESPCommand r ctx = (st, r', ctx')" by (metis prod_cases3)
  show ?case
  proof (cases "rbuf r = []")
    case True
    then have "serve lib up r ctx p out = Some (Closed, out, p)"
      using less.prems by (subst serve.simps) (simp add: ParseRESPCommand_at_end)
    then show ?thesis by simp
  next
    case False
    have prog: "rfail r' = EOF" "length (rbuf r') < length (rbuf r)"
      using ParseRESPCommand_progress [OF less.prems(2) pr False] less.prems(1) by auto
    have rec: "\<exists>e rets q. serve lib up r' (Reset ctx') p' (out @ [x]) = Some (e, out @ rets, q)
        \<and> (e = Closed \<or> e = Crashed MakeSliceOutOfRange)" for p' x
      using less.hyps [OF prog(2) prog(1), of "Reset ctx'" p' "out @ [x]"] by auto
    show ?thesis
    proof (cases st)
      case (Panic x)
      have "x \<noteq> IndexOutOfRange" using ParseRESPCommand_inv [OF less.prems(3), of r] pr Panic by (auto simp: inv_result_def)
      then have "x = MakeSliceOutOfRange" by (cases x) auto
      then show ?thesis using pr Panic by (subst serve.simps) simp
    next
      case (Failure e)
      then show ?thesis using pr rec by (subst serve.simps) simp
    next
      case Success
      then show ?thesis using pr rec by (subst serve.simps) (simp split: option.split prod.split)
    qed
  qed
qed

lemma serve_diverges:
  assumes "serve lib up r ctx p out = Some res"
  shows "\<not> (rbuf r = [] \<and> rfail r \<noteq> EOF \<and> state ctx = CommandStart)"
proof (rule serve.raw_induct
    [where P = "\<lambda>lib up r ctx p out res. \<not> (rbuf r = [] \<and> rfail r \<noteq> EOF \<and> state ctx = CommandStart)", OF _ assms],
    rule notI)
  fix rec lib up r ctx p out res
  assume IH: "\<And>lib up r ctx p out res. rec lib up r ctx p out = Some res \<Longrightarrow>
      \<not> (rbuf r = [] \<and> rfail r \<noteq> EOF \<and> state ctx = CommandStart)"
    and body: "(case ParseRESPCommand r ctx of
        (err, reader', ctx) \<Rightarrow>
          (case err of
             Panic x \<Rightarrow> Some (Crashed x, out, p)
           | Failure e \<Rightarrow>
               if e = ReadError EOF then Some (Closed, out, p)
               else rec lib up reader' (Reset ctx) p (out @ [ErrInvalidCommand])
           | Success \<Rightarrow>
               (case BuildCmd up (case CmdArgs ctx of None \<Rightarrow> [] | Some cmdArgs \<Rightarrow> cmdArgs) of
                  None \<Rightarrow> rec lib up reader' (Reset ctx) p (out @ [ErrInvalidCommand])
                | Some cmd \<Rightarrow>
                    (case executeRESPCmd lib (Some cmd) p of
                       (ret, q) \<Rightarrow> rec lib up reader' (Reset ctx) q (out @ [ret]))))) = Some res"
    and r: "rbuf r = [] \<and> rfail r \<noteq> EOF \<and> state ctx = CommandStart"
  have "rec lib up r (Reset ctx) p (out @ [ErrInvalidCommand]) = Some res"
    using body r by (simp add: ParseRESPCommand_at_end)
  from IH [OF this] r show False by simp
qed

section \<open>Properties\<close>

text \<open>
  C1. End to end without Raft: for any sequence of pipelined requests with nonempty arguments, the
  connection loop returns when the client closes the connection, has written exactly one reply per
  request, in order, and these replies and the final store are those of the abstract key-value
  specification run on the decoded commands.
\<close>

theorem local_session_refines_spec:
  assumes "list_all sendable_request reqs" "raft_role p = None"
  shows "\<exists>q. handleConnection lib up \<lparr>rbuf = request_bytes reqs, rfail = EOF\<rparr> p =
      Some (Closed, map print_reply (fst (spec_session (map typed (request_cmds up reqs)) (db_view (memdb p)))), q)
    \<and> db_view (memdb q) = snd (spec_session (map typed (request_cmds up reqs)) (db_view (memdb p)))"
  using handleConnection_local [OF assms] .

theorem local_session_refines_spec_witness:
  "\<exists>q. handleConnection \<lparr>lib_apply = \<lambda>_ p. (FutureError, p), lib_snapshot = \<lambda>_. None\<rparr> id
      \<lparr>rbuf = request_bytes [[''set'', ''k'', ''v''], [''GET'', ''k'']], rfail = EOF\<rparr>
      \<lparr>raft_role = None, machine = \<lparr>fsm_db = empty_db, leaderAdminAddr = []\<rparr>\<rparr> =
      Some (Closed, [Ok, BuildBulkString (Some ''v'')], q)
    \<and> db_view (memdb q) ''k'' = Some ''v''"
proof -
  let ?reqs = "[[''set'', ''k'', ''v''], [''GET'', ''k'']]"
    and ?p = "\<lparr>raft_role = None, machine = \<lparr>fsm_db = empty_db, leaderAdminAddr = []\<rparr>\<rparr>"
    and ?lib = "\<lparr>lib_apply = \<lambda>_ p. (FutureError, p), lib_snapshot = \<lambda>_. None\<rparr>"
  have s: "spec_session (map typed (request_cmds id ?reqs)) (db_view (memdb ?p)) =
      ([ROk, RBulk (Some ''v'')], (db_view (memdb ?p))(''k'' \<mapsto> ''v''))"
    by (simp add: request_cmds_def typed_def ToUpper_ascii upper_char_def char_of_def bit_0)
  have ok: "list_all sendable_request ?reqs"
    by (simp add: sendable_request_def sendable_args_def sendable_def maxAlloc_def)
  have "\<exists>q. handleConnection ?lib id \<lparr>rbuf = request_bytes ?reqs, rfail = EOF\<rparr> ?p =
      Some (Closed, map print_reply [ROk, RBulk (Some ''v'')], q) \<and> db_view (memdb q) = (db_view (memdb ?p))(''k'' \<mapsto> ''v'')"
    using local_session_refines_spec [OF ok, of ?p ?lib id] unfolding s by simp
  then show ?thesis by (auto simp: fun_eq_iff)
qed

text \<open>
  C16. A connection always ends with its input: for arbitrary bytes followed by the end of the
  stream, the loop returns, either because the stream ended or because of the one panic a request can
  cause, the length of an allocation; it never indexes out of range.
\<close>

theorem connection_returns:
  assumes "rfail r = EOF"
  shows "\<exists>e rets q. handleConnection lib up r p = Some (e, rets, q)
    \<and> (e = Closed \<or> e = Crashed MakeSliceOutOfRange)"
  using serve_returns [OF assms, of InitParserContext lib up p "[]"]
  by (simp add: handleConnection_def)

theorem connection_returns_witness:
  "\<exists>e rets q. handleConnection \<lparr>lib_apply = \<lambda>_ p. (FutureError, p), lib_snapshot = \<lambda>_. None\<rparr> id
      \<lparr>rbuf = ''garbage'', rfail = EOF\<rparr>
      \<lparr>raft_role = None, machine = \<lparr>fsm_db = empty_db, leaderAdminAddr = []\<rparr>\<rparr> = Some (e, rets, q)
    \<and> (e = Closed \<or> e = Crashed MakeSliceOutOfRange)"
  by (rule connection_returns) simp

text \<open>
  As long as the transport keeps reporting an error other than the end of the stream, the
  connection loop does not return: it answers every failed read with an error reply and reads again.
\<close>

lemma connection_spins_on_transport_error:
  assumes "rfail r \<noteq> EOF" "rbuf r = []"
  shows "handleConnection lib up r p = None"
  using serve_diverges [of lib up r InitParserContext p "[]"] assms
  by (cases "handleConnection lib up r p") (auto simp: handleConnection_def)

text \<open>
  Only the leader writes: a process with Raft enabled that is not the leader refuses every
  write command and changes nothing, and every command that is not a write leaves the process
  unchanged on any node.
\<close>

lemma writes_only_on_leader:
  assumes "raft_role p = Some st" "st \<noteq> Leader"
  shows "snd (executeRESPCmd lib (Some cmd) p) = p
    \<and> (IsWriteOp cmd \<longrightarrow> fst (executeRESPCmd lib (Some cmd) p) = ErrWriteNotAllowed)"
  using execute_follower [OF _ assms, of cmd lib] execute_read [of cmd lib p] by (cases "IsWriteOp cmd") simp_all

text \<open>
  C6. An acknowledged write has been applied: if the leader answers a write command with \<^verbatim>\<open>+OK\<close>, then,
  under Raft's contract, its store is the result of executing that command (in UTF-8 form) after
  the entries committed before it, and the execution itself replied \<^verbatim>\<open>+OK\<close>.
\<close>

theorem acknowledged_write_applied:
  assumes "raft_contract lib" "IsWriteOp cmd" "raft_role p = Some Leader"
    and "executeRESPCmd lib (Some cmd) p = (Ok, q)"
  shows "\<exists>earlier save f. replay (apply_entry save) earlier (machine p) = Some f
    \<and> executeOnDB save (coerce_cmd cmd) (fsm_db f) = (Ok, memdb q)"
proof -
  have ap: "applyCmdViaRaftNode lib cmd p = (Ok, q)" using assms(2-4) by (simp add: execute_leader)
  then obtain v where v: "lib_apply lib (marshal_cmd cmd) p = (FutureResponse v, q)"
    using ErrInternal_neq_Ok by (auto simp: applyCmdViaRaftNode_def split: prod.splits apply_future.splits go_value.splits)
  then obtain earlier save f r where c: "replay (apply_entry save) earlier (machine p) = Some f"
    "Apply save (marshal_cmd cmd) f = Inr (r, machine q)" "v = response_value r"
    using assms(1) unfolding raft_contract_def by blast
  have op: "Op (coerce_cmd cmd) \<noteq> OpLeaderChanged"
    using coerce_write_op [OF assms(2)] write_not_announce [OF assms(2)] by simp
  note r = Apply_Ok_reply [OF c(2) op]
  have "applyCmdViaRaftNode lib cmd p = (fst (executeOnDB save (coerce_cmd cmd) (fsm_db f)), q)"
    using v c(3) unfolding r(1) by (intro applyCmdViaRaftNode_response) simp
  then have "executeOnDB save (coerce_cmd cmd) (fsm_db f) = (Ok, memdb q)"
    using ap r(2) by (simp add: memdb_def prod_eq_iff)
  with c(1) show ?thesis by blast
qed

text \<open>A Raft library for one node, which commits and applies every entry at once.\<close>

definition single_node_lib :: raft_lib where
  "single_node_lib =
     \<lparr>lib_apply = (\<lambda>data p.
        if raft_role p = Some Leader then
          (case Apply None data (machine p) of
             Inl _ \<Rightarrow> (FutureError, p)
           | Inr (r, f) \<Rightarrow> (FutureResponse (response_value r), p\<lparr>machine := f\<rparr>))
        else (FutureError, p)),
      lib_snapshot = (\<lambda>_. None)\<rparr>"

lemma single_node_contract: "raft_contract single_node_lib"
  unfolding raft_contract_def
proof (intro allI impI conjI)
  fix data p v q
  assume a: "lib_apply single_node_lib data p = (FutureResponse v, q)"
  then show l: "raft_role p = Some Leader"
    by (simp add: single_node_lib_def split: if_splits)
  from a l obtain x where x: "Apply None data (machine p) = Inr x"
    by (cases "Apply None data (machine p)") (auto simp: single_node_lib_def)
  with a l obtain r f where "Apply None data (machine p) = Inr (r, f)" "v = response_value r" "q = p\<lparr>machine := f\<rparr>"
    by (cases x) (auto simp: single_node_lib_def)
  then have "replay (apply_entry None) [] (machine p) = Some (machine p)
      \<and> Apply None data (machine p) = Inr (r, machine q) \<and> v = response_value r" by simp
  then show "\<exists>earlier save f r. replay (apply_entry save) earlier (machine p) = Some f \<and>
      Apply save data f = Inr (r, machine q) \<and> v = response_value r" by blast
qed

theorem acknowledged_write_applied_witness:
  "\<exists>earlier save f. replay (apply_entry save) earlier \<lparr>fsm_db = empty_db, leaderAdminAddr = []\<rparr> = Some f
    \<and> executeOnDB save (coerce_cmd \<lparr>Op = ''DEL'', Args = [''k'']\<rparr>) (fsm_db f) = (Ok, empty_db)"
proof -
  let ?c = "\<lparr>Op = ''DEL'', Args = [''k'']\<rparr>"
    and ?p = "\<lparr>raft_role = Some Leader, machine = \<lparr>fsm_db = empty_db, leaderAdminAddr = []\<rparr>\<rparr>"
  have c: "coerce_cmd ?c = ?c" by (simp add: coerce_cmd_valid valid_cmd_def valid_ascii)
  have d: "Delete ''k'' empty_db = empty_db" by (simp add: Delete_def empty_db_def lookup_empty)
  have w: "IsWriteOp ?c" by (simp add: IsWriteOp_def)
  have "lib_apply single_node_lib (marshal_cmd ?c) ?p = (FutureResponse (response_value (Reply Ok)), ?p)"
    using Apply_marshal [of ?c None "machine ?p"] c d
    by (simp add: single_node_lib_def OpLeaderChanged_def executeOnDB_def)
  then have "executeRESPCmd single_node_lib (Some ?c) ?p = (Ok, ?p)"
    using execute_leader [OF w, of ?p single_node_lib] by (simp add: applyCmdViaRaftNode_response)
  from acknowledged_write_applied [OF single_node_contract w _ this] show ?thesis by (simp add: memdb_def)
qed

end
