(* ===== verification/Client.thy ===== *)
theory Client
  imports RespServer
begin

text \<open>
  The RESP client of the benchmark harness, \<^verbatim>\<open>src/benchmarks/harness/client.go\<close>: requests are
  formatted into a \<^verbatim>\<open>bufio.Writer\<close> over the connection, replies are read back from a
  \<^verbatim>\<open>bufio.Reader\<close>. The writer is modelled with its buffer of 4096 bytes and its sticky error; the
  connection below accepts a number of bytes (\<open>room\<close>, \<open>None\<close> when it never fails) and then fails.
  Deadlines show up as failures of the connection.

  Lemmas: the writer delivers exactly the bytes written, in order, or a prefix of them with an
  error; a request is the text the server's parser reads; every reply of the server is read back
  whole. The locale \<open>frame_codec\<close> states the last fact for any framed encoding and lifts it to
  streams of frames.
\<close>

section \<open>The buffered writer\<close>

record writer =
  sent :: bytes
  room :: "nat option"
  wbuf :: bytes
  werr :: bool

definition bufio_size :: nat where
  "bufio_size = 4096"

definition conn_write :: "bytes \<Rightarrow> writer \<Rightarrow> writer" where
  "conn_write p w =
     (case room w of
        None \<Rightarrow> w\<lparr>sent := sent w @ p\<rparr>
      | Some k \<Rightarrow>
          if length p \<le> k then w\<lparr>sent := sent w @ p, room := Some (k - length p)\<rparr>
          else w\<lparr>sent := sent w @ take k p, room := Some 0, werr := True\<rparr>)"

definition Flush :: "writer \<Rightarrow> writer" where
  "Flush w =
     (if werr w \<or> wbuf w = [] then w
      else
        (let w1 = conn_write (wbuf w) w
         in w1\<lparr>wbuf := (if werr w1 then drop (length (sent w1) - length (sent w)) (wbuf w) else [])\<rparr>))"

text \<open>\<^verbatim>\<open>Writer.Write\<close>: the loop fills and flushes the buffer at most once before the rest fits or goes straight to the connection.\<close>

definition buf_Write :: "bytes \<Rightarrow> writer \<Rightarrow> writer" where
  "buf_Write p w =
     (if werr w then w
      else if length p \<le> bufio_size - length (wbuf w) then w\<lparr>wbuf := wbuf w @ p\<rparr>
      else if wbuf w = [] then conn_write p w
      else
        (let n = bufio_size - length (wbuf w);
             w1 = Flush (w\<lparr>wbuf := wbuf w @ take n p\<rparr>);
             rest = drop n p
         in if werr w1 then w1
            else if length rest \<le> bufio_size then w1\<lparr>wbuf := rest\<rparr>
            else conn_write rest w1))"

section \<open>Requests\<close>

fun write_args :: "bytes list \<Rightarrow> writer \<Rightarrow> bool \<times> writer" where
  "write_args [] w = (False, w)"
| "write_args (arg # args) w =
     (let w1 = buf_Write (CHR ''$'' # show_nat (length arg) @ Separator @ arg @ Separator) w
      in if werr w1 then (True, w1) else write_args args w1)"

definition writeCommand :: "bytes list \<Rightarrow> writer \<Rightarrow> bool \<times> writer" where
  "writeCommand args w =
     (let w1 = buf_Write (CHR ''*'' # show_nat (length args) @ Separator) w
      in if werr w1 then (True, w1) else write_args args w1)"

section \<open>Replies\<close>

datatype client_error =
    WriteFailed
  | ReadFailed io_error
  | InvalidResponse
  | BulkLength bytes
  | InvalidBulkTerminator
  | UnsupportedPrefix char

definition readResponse :: "reader \<Rightarrow> (client_error status + bytes) \<times> reader" where
  "readResponse r =
     (case ReadBytes LF r of
        (Inl e, r1) \<Rightarrow> (Inl (Failure (ReadFailed e)), r1)
      | (Inr line, r1) \<Rightarrow>
          if length line < 3 \<or> \<not> HasSuffix line Separator then (Inl (Failure InvalidResponse), r1)
          else if hd line = CHR ''+'' \<or> hd line = CHR ''-'' \<or> hd line = CHR '':'' then (Inr line, r1)
          else if hd line = CHR ''$'' then
            (case Atoi (TrimSuffix (tl line) Separator) of
               None \<Rightarrow> (Inl (Failure (BulkLength line)), r1)
             | Some n \<Rightarrow>
                 if sint n < 0 then (Inr line, r1)
                 else if \<not> make_ok 1 (n + 2) then (Inl (Panic MakeSliceOutOfRange), r1)
                 else
                   (case ReadFull (nat (sint (n + 2))) r1 of
                      (Inl e, r2) \<Rightarrow> (Inl (Failure (ReadFailed e)), r2)
                    | (Inr body, r2) \<Rightarrow>
                        if drop (nat (sint n)) body \<noteq> Separator then (Inl (Failure InvalidBulkTerminator), r2)
                        else (Inr (line @ body), r2)))
          else (Inl (Failure (UnsupportedPrefix (hd line))), r1))"

definition responseOK :: "bytes \<Rightarrow> bool" where
  "responseOK response \<longleftrightarrow> response \<noteq> [] \<and> hd response \<noteq> CHR ''-''"

record respClient =
  cr :: reader
  cw :: writer

definition client_command :: "bytes list \<Rightarrow> respClient \<Rightarrow> (client_error status + bytes) \<times> respClient" where
  "client_command args c =
     (case writeCommand args (cw c) of
        (True, w1) \<Rightarrow> (Inl (Failure WriteFailed), c\<lparr>cw := w1\<rparr>)
      | (False, w1) \<Rightarrow>
          (let w2 = Flush w1 in
           if werr w2 then (Inl (Failure WriteFailed), c\<lparr>cw := w2\<rparr>)
           else (case readResponse (cr c) of (res, r) \<Rightarrow> (res, c\<lparr>cr := r, cw := w2\<rparr>))))"

text \<open>A new client over a connection that delivers \<open>incoming\<close> and then fails with \<open>e\<close>.\<close>

definition dialed :: "bytes \<Rightarrow> io_error \<Rightarrow> nat option \<Rightarrow> respClient" where
  "dialed incoming e k = \<lparr>cr = \<lparr>rbuf = incoming, rfail = e\<rparr>, cw = \<lparr>sent = [], room = k, wbuf = [], werr = False\<rparr>\<rparr>"

section \<open>Preloading the key space\<close>

datatype preload_error =
    DialFailed bytes
  | CommandFailed "client_error status"
  | SetReturned bytes

definition bench_key :: "nat \<Rightarrow> bytes" where
  "bench_key i = ''bench:'' @ show_nat i"

fun preload_loop :: "nat list \<Rightarrow> bytes \<Rightarrow> respClient \<Rightarrow> preload_error option \<times> respClient" where
  "preload_loop [] value c = (None, c)"
| "preload_loop (i # is') value c =
     (case client_command [''SET'', bench_key i, value] c of
        (Inl e, c1) \<Rightarrow> (Some (CommandFailed e), c1)
      | (Inr response, c1) \<Rightarrow>
          if \<not> responseOK response then (Some (SetReturned (TrimSpace response)), c1)
          else preload_loop is' value c1)"

definition preloadKeys :: "(bytes \<Rightarrow> bytes + respClient) \<Rightarrow> bytes \<Rightarrow> bytes \<Rightarrow> preload_error option \<times> respClient option" where
  "preloadKeys dial addr value =
     (case dial addr of
        Inl e \<Rightarrow> (Some (DialFailed e), None)
      | Inr c \<Rightarrow> (case preload_loop [0..<256] value c of (res, c1) \<Rightarrow> (res, Some c1)))"

section \<open>What the writer delivers\<close>

text \<open>The bytes a writer has taken over: those the connection accepted and those still buffered.\<close>

definition stream :: "writer \<Rightarrow> bytes" where
  "stream w = sent w @ wbuf w"

text \<open>\<open>carries w t\<close>: either no error yet and everything of \<open>t\<close> was taken over, or an error and only a prefix was sent.\<close>

definition carries :: "writer \<Rightarrow> bytes \<Rightarrow> bool" where
  "carries w t \<longleftrightarrow> (if werr w then prefix (sent w) t else stream w = t) \<and> (room w = None \<longrightarrow> \<not> werr w)
    \<and> (\<not> werr w \<longrightarrow> length (wbuf w) \<le> bufio_size)"

lemma conn_write_room [simp]: "room (conn_write p w) = None \<longleftrightarrow> room w = None"
  by (simp add: conn_write_def split: option.split)

lemma conn_write_sent:
  assumes "\<not> werr w"
  shows "if werr (conn_write p w) then room w \<noteq> None \<and> (\<exists>k. sent (conn_write p w) = sent w @ take k p)
    else sent (conn_write p w) = sent w @ p"
  using assms by (auto simp: conn_write_def split: option.split)

lemma conn_write_wbuf [simp]: "wbuf (conn_write p w) = wbuf w"
  by (simp add: conn_write_def split: option.split)

lemma conn_write_carries: "carries w t \<Longrightarrow> \<not> werr w \<Longrightarrow> wbuf w = [] \<Longrightarrow> carries (conn_write p w) (t @ p)"
  using conn_write_sent [of w p] by (auto simp: carries_def stream_def take_is_prefix split: if_splits)

lemma Flush_carries: "carries w t \<Longrightarrow> carries (Flush w) t"
  using conn_write_sent [of w "wbuf w"]
  by (auto simp: Flush_def Let_def carries_def stream_def take_is_prefix simp del: not_None_eq split: if_splits)

lemma Flush_wbuf: "\<not> werr (Flush w) \<Longrightarrow> wbuf (Flush w) = []"
  by (auto simp: Flush_def Let_def split: if_splits)

lemma Flush_room [simp]: "room (Flush w) = None \<longleftrightarrow> room w = None"
  by (simp add: Flush_def Let_def)

lemma conn_write_error: "\<not> werr w \<Longrightarrow> room w = None \<Longrightarrow> \<not> werr (conn_write p w)"
  by (simp add: conn_write_def)

lemma carries_taken: "carries w t \<Longrightarrow> \<not> werr w \<Longrightarrow> length (wbuf w @ p) \<le> bufio_size \<Longrightarrow> carries (w\<lparr>wbuf := wbuf w @ p\<rparr>) (t @ p)"
  by (auto simp: carries_def stream_def)

lemma carries_error: "carries w t \<Longrightarrow> werr w \<Longrightarrow> carries w (t @ p)"
  by (auto simp: carries_def)

lemma buf_Write_carries:
  assumes "carries w t"
  shows "carries (buf_Write p w) (t @ p)"
proof (cases "werr w")
  case True
  then show ?thesis using carries_error [OF assms] by (simp add: buf_Write_def)
next
  case ok: False
  define n where "n = bufio_size - length (wbuf w)"
  have le: "length (wbuf w) \<le> bufio_size" using assms ok by (simp add: carries_def)
  show ?thesis
  proof (cases "length p \<le> n \<or> wbuf w = []")
    case True
    then show ?thesis
      using assms ok le carries_taken [OF assms ok, of p] conn_write_carries [OF assms ok, of p]
      by (auto simp: buf_Write_def n_def)
  next
    case False
    define w1 where "w1 = Flush (w\<lparr>wbuf := wbuf w @ take n p\<rparr>)"
    have c1: "carries w1 (t @ take n p)"
      unfolding w1_def using le by (intro Flush_carries carries_taken assms ok) (simp add: n_def)
    have e1: "wbuf w1 = []" if "\<not> werr w1" using that Flush_wbuf by (simp add: w1_def)
    have "buf_Write p w = (if werr w1 then w1 else if length (drop n p) \<le> bufio_size then w1\<lparr>wbuf := drop n p\<rparr>
        else conn_write (drop n p) w1)"
      using False ok by (simp add: buf_Write_def Let_def w1_def n_def)
    moreover have "t @ p = (t @ take n p) @ drop n p" by simp
    ultimately show ?thesis
      using c1 e1 carries_error [OF c1, of "drop n p"] carries_taken [OF c1, of "drop n p"]
        conn_write_carries [OF c1, of "drop n p"]
      by (auto simp del: append_assoc)
  qed
qed

lemma write_args_carries:
  assumes "carries w t" "write_args args w = (failed, w')"
  shows "carries w' (t @ concat (map (\<lambda>v. BuildBulkString (Some v)) args)) \<and> (\<not> failed \<longrightarrow> \<not> werr w \<longrightarrow> \<not> werr w') \<and> (failed \<longrightarrow> werr w')"
  using assms
proof (induction args arbitrary: w t)
  case (Cons arg args)
  define w1 where "w1 = buf_Write (BuildBulkString (Some arg)) w"
  have c: "carries w1 (t @ BuildBulkString (Some arg))" unfolding w1_def by (rule buf_Write_carries [OF Cons.prems(1)])
  have eq: "write_args (arg # args) w = (if werr w1 then (True, w1) else write_args args w1)"
    by (simp add: w1_def BuildBulkString_Some Let_def)
  show ?case
  proof (cases "werr w1")
    case True
    then show ?thesis using eq Cons.prems(2) carries_error [OF c True] by simp
  next
    case False
    then show ?thesis using eq Cons.prems(2) Cons.IH [OF c] by simp
  qed
qed simp

text \<open>A request leaves the client as the text the server's parser reads, or as a prefix of it.\<close>

lemma writeCommand_carries:
  assumes "carries w t" "writeCommand args w = (failed, w')"
  shows "carries w' (t @ BuildArray (Some args)) \<and> failed = werr w'"
proof -
  define w1 where "w1 = buf_Write (CHR ''*'' # show_nat (length args) @ Separator) w"
  have c: "carries w1 (t @ CHR ''*'' # show_nat (length args) @ Separator)"
    unfolding w1_def by (rule buf_Write_carries [OF assms(1)])
  have eq: "writeCommand args w = (if werr w1 then (True, w1) else write_args args w1)"
    by (simp add: writeCommand_def w1_def Let_def)
  show ?thesis
  proof (cases "werr w1")
    case True
    then show ?thesis using eq assms(2) carries_error [OF c True] by (simp add: BuildArray_Some)
  next
    case False
    then have "write_args args w1 = (failed, w')" using eq assms(2) by simp
    from write_args_carries [OF c this] False show ?thesis by (auto simp: BuildArray_Some)
  qed
qed

section \<open>What the client reads\<close>

lemma ReadBytes_line:
  assumes "LF \<notin> set h"
  shows "ReadBytes LF \<lparr>rbuf = h @ Separator @ rest, rfail = e\<rparr> = (Inr (h @ Separator), \<lparr>rbuf = rest, rfail = e\<rparr>)"
proof -
  let ?line = "h @ [CHR 0x0D]"
  have buf: "h @ Separator @ rest = ?line @ LF # rest" by (simp add: Separator_def)
  have tw: "takeWhile (\<lambda>c. c \<noteq> LF) (?line @ LF # rest) = ?line"
    and dw: "dropWhile (\<lambda>c. c \<noteq> LF) (?line @ LF # rest) = LF # rest"
    by (rule takeWhile_append_stop dropWhile_append_stop; use assms(1) in auto)+
  show ?thesis unfolding buf by (simp add: ReadBytes_def tw dw del: append_assoc) (simp add: Separator_def)
qed

lemma HasSuffix_line [simp]: "HasSuffix (c # h @ Separator) Separator"
  using HasSuffix_append [of "c # h" Separator] by simp

lemma readResponse_line:
  assumes "LF \<notin> set h" "c = CHR ''+'' \<or> c = CHR ''-'' \<or> c = CHR '':''"
  shows "readResponse \<lparr>rbuf = c # h @ Separator @ rest, rfail = e\<rparr> = (Inr (c # h @ Separator), \<lparr>rbuf = rest, rfail = e\<rparr>)"
proof -
  have "LF \<notin> set (c # h)" using assms by auto
  from ReadBytes_line [OF this, of rest e] assms(2) show ?thesis by (auto simp: readResponse_def)
qed

lemma readResponse_bulk:
  assumes "int (length v) + 2 \<le> maxAlloc"
  shows "readResponse \<lparr>rbuf = BuildBulkString (Some v) @ rest, rfail = e\<rparr> = (Inr (BuildBulkString (Some v)), \<lparr>rbuf = rest, rfail = e\<rparr>)"
proof -
  let ?h = "CHR ''$'' # show_nat (length v)" and ?n = "of_nat (length v) :: 64 word"
  have len: "length v < 2 ^ 63" using assms by (simp add: maxAlloc_def)
  have n: "sint ?n = int (length v)" "sint (?n + 2) = int (length v + 2)"
    using sint_of_nat_64 [OF len] sint_of_nat_add2 [OF assms] by simp_all
  have mk: "make_ok 1 (?n + 2)" using assms n by (simp add: make_ok_def)
  have "LF \<notin> set ?h" by simp
  from ReadBytes_line [OF this, of "v @ Separator @ rest" e]
  have line: "ReadBytes LF \<lparr>rbuf = CHR ''$'' # show_nat (length v) @ Separator @ v @ Separator @ rest, rfail = e\<rparr>
      = (Inr (?h @ Separator), \<lparr>rbuf = v @ Separator @ rest, rfail = e\<rparr>)" by simp
  have rd: "ReadFull (nat (sint (?n + 2))) \<lparr>rbuf = v @ Separator @ rest, rfail = e\<rparr> = (Inr (v @ Separator), \<lparr>rbuf = rest, rfail = e\<rparr>)"
    unfolding n(2) nat_int by (simp add: ReadFull_def)
  have at: "Atoi (show_nat (length v)) = Some ?n" by (rule Atoi_show_nat [OF len])
  show ?thesis
    using mk line rd at n(1) by (simp add: readResponse_def BuildBulkString_Some)
qed

definition one_line :: "bytes \<Rightarrow> bool" where
  "one_line s \<longleftrightarrow> (\<exists>c h. s = c # h @ Separator \<and> LF \<notin> set h \<and> (c = CHR ''+'' \<or> c = CHR ''-'' \<or> c = CHR '':''))"

lemma LF_notin_code_text [simp]: "LF \<notin> set (code_text c)"
  by (cases c) simp_all

lemma one_line_builders:
  "LF \<notin> set s \<Longrightarrow> one_line (BuildSimpleString s)"
  "LF \<notin> set s \<Longrightarrow> one_line (BuildErrorMsg code s)"
  "one_line (BuildInteger i)"
  unfolding one_line_def BuildSimpleString_def BuildErrorMsg_def BuildInteger_def
  by (blast, rule exI [of _ "CHR ''-''"], rule exI [of _ "code_text code @ CHR '' '' # s"], simp,
      rule exI [of _ "CHR '':''"], rule exI [of _ "show_int i"], simp)

text \<open>The replies a client can read back: bulk strings fit in one allocation, error texts are one line.\<close>

fun readable_reply :: "reply \<Rightarrow> bool" where
  "readable_reply (RBulk (Some v)) = (int (length v) + 2 \<le> maxAlloc)"
| "readable_reply (RSaveFailed e) = (LF \<notin> set e)"
| "readable_reply _ = True"

lemma readResponse_reply:
  assumes "readable_reply x"
  shows "readResponse \<lparr>rbuf = print_reply x @ rest, rfail = e\<rparr> = (Inr (print_reply x), \<lparr>rbuf = rest, rfail = e\<rparr>)"
proof -
  consider v where "x = RBulk (Some v)" | "x = RBulk None" | "x \<notin> range RBulk" by (metis option.exhaust rangeE)
  then show ?thesis
  proof cases
    case 1
    then show ?thesis using readResponse_bulk assms by simp
  next
    case 2
    have "LF \<notin> set ''$-1''" by simp
    from ReadBytes_line [OF this, of rest e] have "ReadBytes LF \<lparr>rbuf = ''$-1'' @ Separator @ rest, rfail = e\<rparr> = (Inr (''$-1'' @ Separator), \<lparr>rbuf = rest, rfail = e\<rparr>)" .
    moreover have "Atoi ''-1'' = Some (- 1)" using Atoi_show_int [of "-1"] by (simp add: show_int_def show_nat.simps [of "Suc 0"] digit_char_def char_of_def bit_0 in_int64_def)
    moreover have "HasSuffix (''$-1'' @ Separator) Separator" "TrimSuffix (''-1'' @ Separator) Separator = ''-1''"
      by (rule HasSuffix_append TrimSuffix_append)+
    ultimately show ?thesis using 2 by (simp add: readResponse_def BuildBulkString_def)
  next
    case 3
    then have "one_line (print_reply x)" using assms by (cases x) (auto simp: fixed_replies intro!: one_line_builders)
    then show ?thesis using readResponse_line by (auto simp: one_line_def)
  qed
qed

section \<open>The contract of a reply stream\<close>

text \<open>A writer that has delivered everything and whose connection does not fail.\<close>

definition ready :: "writer \<Rightarrow> bool" where
  "ready w \<longleftrightarrow> \<not> werr w \<and> wbuf w = [] \<and> room w = None"

text \<open>Sending requests one after the other on one connection, each waiting for its reply.\<close>

fun client_session :: "bytes list list \<Rightarrow> respClient \<Rightarrow> (client_error status option \<times> bytes list) \<times> respClient" where
  "client_session [] c = ((None, []), c)"
| "client_session (req # reqs) c =
     (case client_command req c of
        (Inl e, c1) \<Rightarrow> ((Some e, []), c1)
      | (Inr response, c1) \<Rightarrow>
          (case client_session reqs c1 of ((err, responses), c2) \<Rightarrow> ((err, response # responses), c2)))"

lemma buf_Write_room [simp]: "room (buf_Write p w) = None \<longleftrightarrow> room w = None"
  by (simp add: buf_Write_def Let_def)

lemma write_args_room: "write_args args w = (failed, w') \<Longrightarrow> room w' = None \<longleftrightarrow> room w = None"
  by (induction args arbitrary: w) (auto simp: Let_def simp del: not_None_eq split: if_splits)

lemma writeCommand_room: "writeCommand args w = (failed, w') \<Longrightarrow> room w' = None \<longleftrightarrow> room w = None"
  using write_args_room by (fastforce simp: writeCommand_def Let_def simp del: not_None_eq split: if_splits)

lemma writeCommand_ready:
  assumes "ready w"
  shows "\<exists>w'. writeCommand args w = (False, w') \<and> ready (Flush w') \<and> sent (Flush w') = sent w @ BuildArray (Some args)"
proof -
  obtain failed w' where wr: "writeCommand args w = (failed, w')" by fastforce
  have "carries w (sent w)" using assms by (simp add: carries_def ready_def stream_def)
  from writeCommand_carries [OF this wr]
  have c: "carries w' (sent w @ BuildArray (Some args))" "failed = werr w'" by auto
  have rm: "room w' = None" using writeCommand_room [OF wr] assms by (simp add: ready_def)
  have f: "carries (Flush w') (sent w @ BuildArray (Some args))" by (rule Flush_carries [OF c(1)])
  then have "ready (Flush w')" "sent (Flush w') = sent w @ BuildArray (Some args)"
    using rm Flush_wbuf [of w'] by (auto simp: ready_def carries_def stream_def)
  moreover have "\<not> failed" using c rm by (simp add: carries_def)
  ultimately show ?thesis using wr by simp
qed

locale reply_stream =
  fixes good :: "'x \<Rightarrow> bool"
    and text_of :: "'x \<Rightarrow> bytes"
  assumes reads: "good x \<Longrightarrow> readResponse \<lparr>rbuf = text_of x @ rest, rfail = e\<rparr> = (Inr (text_of x), \<lparr>rbuf = rest, rfail = e\<rparr>)"
begin

lemma command_reads:
  assumes "good x" "ready (cw c)" "cr c = \<lparr>rbuf = text_of x @ rest, rfail = e\<rparr>"
  shows "\<exists>w'. client_command args c = (Inr (text_of x), \<lparr>cr = \<lparr>rbuf = rest, rfail = e\<rparr>, cw = w'\<rparr>)
    \<and> ready w' \<and> sent w' = sent (cw c) @ BuildArray (Some args)"
  using writeCommand_ready [OF assms(2), of args] reads [OF assms(1), of rest e] assms(3)
  by (cases c) (auto simp: client_command_def ready_def Let_def)

lemma session_reads:
  assumes "list_all good xs" "ready (cw c)" "cr c = \<lparr>rbuf = concat (map text_of xs) @ rest, rfail = e\<rparr>" "length reqs = length xs"
  shows "\<exists>w'. client_session reqs c = ((None, map text_of xs), \<lparr>cr = \<lparr>rbuf = rest, rfail = e\<rparr>, cw = w'\<rparr>)
    \<and> ready w' \<and> sent w' = sent (cw c) @ request_bytes reqs"
  using assms
proof (induction reqs arbitrary: c xs)
  case Nil
  then show ?case by (cases c) (simp add: request_bytes_def)
next
  case (Cons req reqs)
  obtain x xs' where xs: "xs = x # xs'" using Cons.prems(4) by (cases xs) auto
  obtain w1 where w1: "client_command req c = (Inr (text_of x), \<lparr>cr = \<lparr>rbuf = concat (map text_of xs') @ rest, rfail = e\<rparr>, cw = w1\<rparr>)"
    "ready w1" "sent w1 = sent (cw c) @ BuildArray (Some req)"
    using command_reads [of x c "concat (map text_of xs') @ rest" e req] Cons.prems xs by auto
  obtain w2 where "client_session reqs \<lparr>cr = \<lparr>rbuf = concat (map text_of xs') @ rest, rfail = e\<rparr>, cw = w1\<rparr>
      = ((None, map text_of xs'), \<lparr>cr = \<lparr>rbuf = rest, rfail = e\<rparr>, cw = w2\<rparr>)" "ready w2" "sent w2 = sent w1 @ request_bytes reqs"
    using Cons.IH [of xs' "\<lparr>cr = \<lparr>rbuf = concat (map text_of xs') @ rest, rfail = e\<rparr>, cw = w1\<rparr>"] Cons.prems xs w1(2) by auto
  then show ?case using w1 xs by (simp add: request_bytes_def)
qed

end

interpretation replies: reply_stream readable_reply print_reply
  by unfold_locales (rule readResponse_reply)

section \<open>The server's replies are readable\<close>

abbreviation small :: "bytes \<Rightarrow> bool" where
  "small v \<equiv> int (length v) + 2 \<le> maxAlloc"

definition small_store :: "(bytes \<rightharpoonup> bytes) \<Rightarrow> bool" where
  "small_store m \<longleftrightarrow> (\<forall>v \<in> ran m. small v)"

lemma length_show_nat: "n < 10 ^ k \<Longrightarrow> 0 < k \<Longrightarrow> length (show_nat n) \<le> k"
proof (induction k arbitrary: n)
  case (Suc k)
  show ?case
  proof (cases "n < 10")
    case True
    then show ?thesis by (subst show_nat.simps) simp
  next
    case False
    with Suc.prems have "n div 10 < 10 ^ k" "0 < k" by (auto simp: less_mult_imp_div_less intro: gr0I)
    then show ?thesis using Suc.IH [of "n div 10"] False by (subst show_nat.simps) simp
  qed
qed simp

lemma small_Itoa: "small (Itoa w)"
proof -
  have "\<bar>sint w\<bar> < 10 ^ 20" using sint_64_bounds [of w] by auto
  then have "nat \<bar>sint w\<bar> < 10 ^ 20" by (simp add: nat_less_iff)
  then have "length (show_nat (nat \<bar>sint w\<bar>)) \<le> 20" by (rule length_show_nat) simp
  then show ?thesis by (auto simp: Itoa_def show_int_def maxAlloc_def abs_if split: if_splits)
qed

lemma small_store_update: "small_store m \<Longrightarrow> small v \<Longrightarrow> small_store (m(k \<mapsto> v))"
  by (auto simp: small_store_def ran_def)

lemma small_store_delete: "small_store m \<Longrightarrow> small_store (m(k := None))"
  by (auto simp: small_store_def ran_def)

lemma spec_step_small:
  assumes "small_store m" "list_all small (Args cmd)" "spec_step None (typed cmd) m = (r, m')"
  shows "readable_reply r \<and> small_store m'"
proof (cases "typed cmd")
  case (Ping a)
  then show ?thesis using assms by (cases a) (auto simp: typed_def Let_def split: if_splits list.splits option.splits)
next
  case (SetC k v)
  then have "small v" using assms(2) by (auto simp: typed_def Let_def split: if_splits list.splits option.splits)
  then show ?thesis using assms SetC by (auto intro: small_store_update)
next
  case (GetC k)
  have "small v" if "m k = Some v" for v using that assms(1) by (auto simp: small_store_def ran_def)
  then show ?thesis using assms GetC by (cases "m k") auto
next
  case (IncrC k d)
  then show ?thesis using assms by (auto intro!: small_store_update small_Itoa split: option.splits)
qed (use assms in \<open>auto intro: small_store_delete\<close>)

lemma spec_session_small:
  assumes "small_store m" "list_all (\<lambda>cmd. list_all small (Args cmd)) cmds" "spec_session (map typed cmds) m = (rs, m')"
  shows "list_all readable_reply rs \<and> length rs = length cmds"
  using assms
proof (induction cmds arbitrary: m rs)
  case (Cons cmd cmds)
  obtain r m1 where s1: "spec_step None (typed cmd) m = (r, m1)" by fastforce
  obtain rs' where "spec_session (map typed cmds) m1 = (rs', m')" "rs = r # rs'"
    using Cons.prems(3) s1 by (auto split: prod.splits)
  then show ?case using Cons.IH [of m1 rs'] spec_step_small [OF Cons.prems(1) _ s1] Cons.prems(2) by simp
qed simp

lemma request_cmds_small: "list_all sendable_request reqs \<Longrightarrow> list_all (\<lambda>cmd. list_all small (Args cmd)) (request_cmds up reqs)"
proof (induction reqs)
  case (Cons req reqs)
  then show ?case by (cases req) (auto simp: request_cmds_def sendable_request_def sendable_args_def sendable_def list_all_iff)
qed (simp add: request_cmds_def)

lemma ready_dialed [simp]: "ready (cw (dialed incoming e None))" "cr (dialed incoming e k) = \<lparr>rbuf = incoming, rfail = e\<rparr>"
  "sent (cw (dialed incoming e k)) = []"
  by (simp_all add: dialed_def ready_def)

lemma client_session_local:
  assumes "list_all sendable_request reqs" "raft_role p = None" "small_store (db_view (memdb p))"
    and "spec_session (map typed (request_cmds up reqs)) (db_view (memdb p)) = (rs, m)"
  shows "\<exists>c q. client_session reqs (dialed (concat (map print_reply rs)) e None) = ((None, map print_reply rs), c)
    \<and> handleConnection lib up \<lparr>rbuf = sent (cw c), rfail = EOF\<rparr> p = Some (Closed, map print_reply rs, q)
    \<and> db_view (memdb q) = m"
proof -
  have rs: "list_all readable_reply rs" "length rs = length reqs"
    using spec_session_small [OF assms(3) request_cmds_small [OF assms(1)] assms(4)] by (simp_all add: request_cmds_def)
  let ?c = "dialed (concat (map print_reply rs)) e None"
  obtain c where "client_session reqs ?c = ((None, map print_reply rs), c)" "sent (cw c) = request_bytes reqs"
    using replies.session_reads [of rs ?c "[]" e reqs] rs by auto
  moreover obtain q where "handleConnection lib up \<lparr>rbuf = request_bytes reqs, rfail = EOF\<rparr> p = Some (Closed, map print_reply rs, q)"
    "db_view (memdb q) = m"
    using handleConnection_local [OF assms(1,2), of lib up] assms(4) by auto
  ultimately show ?thesis by auto
qed

section \<open>Preloading\<close>

lemma responseOK_Ok [simp]: "responseOK Ok"
  by (simp add: responseOK_def fixed_replies)

lemma preload_loop_session:
  assumes "client_session (map (\<lambda>i. [''SET'', bench_key i, v]) ks) c = ((None, replicate (length ks) Ok), c')"
  shows "preload_loop ks v c = (None, c')"
  using assms
proof (induction ks arbitrary: c)
  case (Cons i ks)
  then show ?case by (auto split: prod.splits sum.splits)
qed simp

definition preload_requests :: "bytes \<Rightarrow> bytes list list" where
  "preload_requests v = map (\<lambda>i. [''SET'', bench_key i, v]) [0..<256]"

lemma ToUpper_SET [simp]: "ToUpper up ''SET'' = ''SET''"
  by (simp add: ToUpper_ascii upper_char_def)

lemma spec_session_sets:
  "spec_session (map typed (request_cmds up (map (\<lambda>i. [''SET'', bench_key i, v]) ks))) m =
   (replicate (length ks) ROk, \<lambda>k. if k \<in> bench_key ` set ks then Some v else m k)"
proof (induction ks arbitrary: m)
  case (Cons i ks)
  then show ?case by (auto simp: request_cmds_def typed_def fun_eq_iff)
qed (simp add: request_cmds_def)

lemma preload_sendable: "sendable v \<Longrightarrow> list_all sendable_request (preload_requests v)"
proof -
  assume v: "sendable v"
  have "length (show_nat i) \<le> 3" if "i < 256" for i using length_show_nat [of i 3] that by simp
  then have "sendable (bench_key i)" if "i < 256" for i using that by (fastforce simp: sendable_def bench_key_def maxAlloc_def)
  then show ?thesis using v
    by (auto simp: preload_requests_def list_all_iff sendable_request_def sendable_args_def sendable_def [of "''SET''"] maxAlloc_def)
qed

section \<open>Properties\<close>

text \<open>
  C17. Client and server agree: whatever sequence of requests with nonempty arguments the client of the
  harness sends to a server without Raft, every command call succeeds, the bytes the client wrote make
  the server's connection loop return with exactly the replies the client read, and these replies and
  the final store are those of the abstract key-value specification. This covers the client's
  buffering, the framing of both directions and the execution of the commands.
\<close>

theorem client_server_agree:
  assumes "list_all sendable_request reqs" "raft_role p = None" "small_store (db_view (memdb p))"
  shows "\<exists>c q rets. client_session reqs (dialed (concat rets) e None) = ((None, rets), c)
    \<and> handleConnection lib up \<lparr>rbuf = sent (cw c), rfail = EOF\<rparr> p = Some (Closed, rets, q)
    \<and> rets = map print_reply (fst (spec_session (map typed (request_cmds up reqs)) (db_view (memdb p))))
    \<and> db_view (memdb q) = snd (spec_session (map typed (request_cmds up reqs)) (db_view (memdb p)))"
proof -
  obtain rs m where s: "spec_session (map typed (request_cmds up reqs)) (db_view (memdb p)) = (rs, m)" by fastforce
  from client_session_local [OF assms s, of e lib] show ?thesis using s by auto
qed

theorem client_server_agree_witness:
  "\<exists>c q. client_session [[''INCR'', ''n''], [''GET'', ''n'']] (dialed (Ok @ BuildBulkString (Some ''1'')) EOF None) =
      ((None, [Ok, BuildBulkString (Some ''1'')]), c)
    \<and> handleConnection \<lparr>lib_apply = \<lambda>_ p. (FutureError, p), lib_snapshot = \<lambda>_. None\<rparr> id \<lparr>rbuf = sent (cw c), rfail = EOF\<rparr>
        \<lparr>raft_role = None, machine = \<lparr>fsm_db = empty_db, leaderAdminAddr = []\<rparr>\<rparr> =
      Some (Closed, [Ok, BuildBulkString (Some ''1'')], q)
    \<and> db_view (memdb q) ''n'' = Some ''1''"
proof -
  let ?reqs = "[[''INCR'', ''n''], [''GET'', ''n'']]"
    and ?p = "\<lparr>raft_role = None, machine = \<lparr>fsm_db = empty_db, leaderAdminAddr = []\<rparr>\<rparr>"
    and ?lib = "\<lparr>lib_apply = \<lambda>_ p. (FutureError, p), lib_snapshot = \<lambda>_. None\<rparr>"
  have one: "Itoa 1 = ''1''" by (simp add: Itoa_def show_int_def show_nat.simps [of "Suc 0"] digit_char_def char_of_def bit_0)
  have e: "db_view (memdb ?p) = Map.empty" by (simp add: memdb_def empty_db_def lookup_empty fun_eq_iff)
  have s: "spec_session (map typed (request_cmds id ?reqs)) Map.empty = ([ROk, RBulk (Some ''1'')], [''n'' \<mapsto> ''1''])"
    by (simp add: request_cmds_def typed_def ToUpper_ascii upper_char_def counter_value_def one)
  have ok: "list_all sendable_request ?reqs" by (simp add: sendable_request_def sendable_args_def sendable_def maxAlloc_def)
  have sm: "small_store (db_view (memdb ?p))" by (simp add: e small_store_def)
  from client_server_agree [OF ok _ sm, of EOF ?lib id] show ?thesis unfolding e s by auto
qed

text \<open>
  Preloading works: against a server without Raft, \<^verbatim>\<open>preloadKeys\<close> succeeds for every nonempty value
  that fits in a request, and when it returns the server's store holds the value under each of the
  256 benchmark keys and is otherwise unchanged.
\<close>

lemma preload_fills_store:
  assumes "sendable value" "raft_role p = None"
  shows "\<exists>c q. preloadKeys (\<lambda>_. Inr (dialed (concat (replicate 256 Ok)) e None)) addr value = (None, Some c)
    \<and> handleConnection lib up \<lparr>rbuf = sent (cw c), rfail = EOF\<rparr> p = Some (Closed, replicate 256 Ok, q)
    \<and> db_view (memdb q) = (\<lambda>k. if k \<in> bench_key ` {..<256} then Some value else db_view (memdb p) k)"
proof -
  let ?reqs = "preload_requests value" and ?c = "dialed (concat (replicate 256 Ok)) e None"
  have s: "spec_session (map typed (request_cmds up ?reqs)) (db_view (memdb p)) =
      (replicate 256 ROk, \<lambda>k. if k \<in> bench_key ` {..<256} then Some value else db_view (memdb p) k)"
    using spec_session_sets [of up "value" "[0..<256]"] by (simp add: preload_requests_def atLeast0LessThan)
  obtain c where c: "client_session ?reqs ?c = ((None, replicate 256 Ok), c)" "sent (cw c) = request_bytes ?reqs"
    using replies.session_reads [of "replicate 256 ROk" ?c "[]" e ?reqs] by (auto simp: preload_requests_def list_all_iff)
  have "preload_loop [0..<256] value ?c = (None, c)"
    by (rule preload_loop_session) (use c(1) in \<open>simp add: preload_requests_def\<close>)
  moreover have "\<exists>q. handleConnection lib up \<lparr>rbuf = request_bytes ?reqs, rfail = EOF\<rparr> p = Some (Closed, replicate 256 Ok, q)
      \<and> db_view (memdb q) = (\<lambda>k. if k \<in> bench_key ` {..<256} then Some value else db_view (memdb p) k)"
    using handleConnection_local [OF preload_sendable [OF assms(1)] assms(2), of lib up] unfolding s by simp
  ultimately show ?thesis using c(2) by (auto simp: preloadKeys_def)
qed

end
