(* ===== verification/Sessions.thy ===== *)
theory Sessions
  imports Client
begin

text \<open>
  Many connections at once. The accept loop of \<^verbatim>\<open>src/server/resp_server.go\<close> starts one goroutine per
  connection, and all of them work on the same store and the same Raft node. Here the body of
  \<^verbatim>\<open>handleConnection\<close> and of \<^verbatim>\<open>executeRESPCmd\<close> is cut into the steps between which another goroutine can
  run: reading a request, the check for an enabled Raft node, the check for leadership, the execution of
  the command (one critical section of the store, or one call into Raft), and writing the reply. The
  scheduler is free to choose the next connection.

  \<open>history\<close> records the executed commands in the order in which they took effect; it is not part of
  the program's state. \<open>input i\<close> is what connection \<open>i\<close> delivers.

  Lemmas: a connection that runs alone does what \<open>serve\<close> does; the invariant that ties each connection to
  its share of the history; from it, linearizability.
\<close>

section \<open>One connection\<close>

datatype conn_pc =
    Reading | Dispatch Cmd | CheckLeader Cmd | Submit Cmd | RunLocal Cmd | Writing bytes | Ended conn_end

record conn =
  creader :: reader
  cctx :: ParserContext
  cpc :: conn_pc
  cout :: "bytes list"

definition new_conn :: "reader \<Rightarrow> conn" where
  "new_conn r = \<lparr>creader = r, cctx = InitParserContext, cpc = Reading, cout = []\<rparr>"

definition read_request :: "(nat \<Rightarrow> nat) \<Rightarrow> conn \<Rightarrow> conn" where
  "read_request up c =
     (case ParseRESPCommand (creader c) (cctx c) of
        (err, r, ctx) \<Rightarrow>
          c\<lparr>creader := r, cctx := Reset ctx,
            cpc :=
              (case err of
                 Panic x \<Rightarrow> Ended (Crashed x)
               | Failure e \<Rightarrow> if e = ReadError EOF then Ended Closed else Writing ErrInvalidCommand
               | Success \<Rightarrow>
                   (case BuildCmd up (case CmdArgs ctx of None \<Rightarrow> [] | Some cmdArgs \<Rightarrow> cmdArgs) of
                      None \<Rightarrow> Writing ErrInvalidCommand
                    | Some cmd \<Rightarrow> Dispatch cmd))\<rparr>)"

text \<open>One step of a connection: its new state, the new state of the process and the command that took effect, if any.\<close>

definition conn_step :: "raft_lib \<Rightarrow> (nat \<Rightarrow> nat) \<Rightarrow> conn \<Rightarrow> process \<Rightarrow> conn \<times> process \<times> (Cmd \<times> bytes) list" where
  "conn_step lib up c p =
     (case cpc c of
        Reading \<Rightarrow> (read_request up c, p, [])
      | Dispatch cmd \<Rightarrow> (c\<lparr>cpc := (if IsWriteOp cmd \<and> RaftEnabled p then CheckLeader cmd else RunLocal cmd)\<rparr>, p, [])
      | CheckLeader cmd \<Rightarrow> (c\<lparr>cpc := (if \<not> IsLeader p then Writing ErrWriteNotAllowed else Submit cmd)\<rparr>, p, [])
      | Submit cmd \<Rightarrow> (case ApplyCmdViaRaft lib cmd p of (ret, q) \<Rightarrow> (c\<lparr>cpc := Writing ret\<rparr>, q, [(cmd, ret)]))
      | RunLocal cmd \<Rightarrow> (case ExecuteLocally lib cmd p of (ret, q) \<Rightarrow> (c\<lparr>cpc := Writing ret\<rparr>, q, [(cmd, ret)]))
      | Writing ret \<Rightarrow> (c\<lparr>cout := cout c @ [ret], cpc := Reading\<rparr>, p, [])
      | Ended e \<Rightarrow> (c, p, []))"

section \<open>The server\<close>

record server =
  conns :: "nat \<Rightarrow> conn option"
  proc :: process
  crashed :: "panic option"
  history :: "(nat \<times> Cmd \<times> bytes) list"

definition server_start :: "process \<Rightarrow> server" where
  "server_start p = \<lparr>conns = (\<lambda>_. None), proc = p, crashed = None, history = []\<rparr>"

text \<open>
  A panic in one goroutine ends the whole process. The last two rules are what the Raft library does to
  this process on its own: the node changes its role, and the state machine applies entries of the log.
\<close>

inductive server_step :: "raft_lib \<Rightarrow> (nat \<Rightarrow> nat) \<Rightarrow> (nat \<Rightarrow> reader) \<Rightarrow> server \<Rightarrow> server \<Rightarrow> bool"
  for lib up input where
  accepted: "crashed s = None \<Longrightarrow> conns s i = None \<Longrightarrow>
    server_step lib up input s (s\<lparr>conns := (conns s)(i \<mapsto> new_conn (input i))\<rparr>)"
| served: "crashed s = None \<Longrightarrow> conns s i = Some c \<Longrightarrow> (\<forall>e. cpc c \<noteq> Ended e) \<Longrightarrow> conn_step lib up c (proc s) = (c', p', ev) \<Longrightarrow>
    server_step lib up input s
      (s\<lparr>conns := (conns s)(i \<mapsto> c'), proc := p',
         crashed := (case cpc c' of Ended (Crashed x) \<Rightarrow> Some x | _ \<Rightarrow> None),
         history := history s @ map (Pair i) ev\<rparr>)"
| role_changed: "crashed s = None \<Longrightarrow> raft_role (proc s) = Some st \<Longrightarrow>
    server_step lib up input s (s\<lparr>proc := (proc s)\<lparr>raft_role := Some st'\<rparr>\<rparr>)"
| entry_applied: "crashed s = None \<Longrightarrow> raft_role (proc s) = Some st \<Longrightarrow> Apply save data (machine (proc s)) = Inr (r, f) \<Longrightarrow>
    server_step lib up input s (s\<lparr>proc := (proc s)\<lparr>machine := f\<rparr>\<rparr>)"

inductive server_reach :: "raft_lib \<Rightarrow> (nat \<Rightarrow> nat) \<Rightarrow> (nat \<Rightarrow> reader) \<Rightarrow> process \<Rightarrow> server \<Rightarrow> bool"
  for lib up input p0 where
  start: "server_reach lib up input p0 (server_start p0)"
| step: "server_reach lib up input p0 s \<Longrightarrow> server_step lib up input s t \<Longrightarrow> server_reach lib up input p0 t"

section \<open>A connection on its own\<close>

lemmas conn_step_simps =
  conn_step_def read_request_def

inductive alone :: "raft_lib \<Rightarrow> (nat \<Rightarrow> nat) \<Rightarrow> conn \<Rightarrow> process \<Rightarrow> conn \<Rightarrow> process \<Rightarrow> bool" for lib up where
  stop: "alone lib up c p c p"
| go: "(\<forall>e. cpc c \<noteq> Ended e) \<Longrightarrow> conn_step lib up c p = (c1, p1, ev) \<Longrightarrow> alone lib up c1 p1 c2 p2 \<Longrightarrow> alone lib up c p c2 p2"

lemma alone_command:
  assumes "cpc c = Dispatch cmd" "executeRESPCmd lib (Some cmd) p = (ret, q)"
    and "alone lib up (c\<lparr>cpc := Reading, cout := cout c @ [ret]\<rparr>) q c2 p2"
  shows "alone lib up c p c2 p2"
proof -
  have w: "alone lib up (c\<lparr>cpc := Writing ret\<rparr>) q c2 p2"
    by (rule alone.go [OF _ _ assms(3)]) (simp_all add: conn_step_def)
  show ?thesis
  proof (cases "IsWriteOp cmd \<and> RaftEnabled p")
    case local: False
    have "alone lib up (c\<lparr>cpc := RunLocal cmd\<rparr>) p c2 p2"
      by (rule alone.go [OF _ _ w]) (use local assms(2) in \<open>simp_all add: conn_step_def executeRESPCmd_def split: if_splits\<close>)
    from alone.go [OF _ _ this, of c p] show ?thesis using assms(1) local by (simp add: conn_step_def)
  next
    case raft: True
    have "alone lib up (c\<lparr>cpc := CheckLeader cmd\<rparr>) p c2 p2"
    proof (cases "IsLeader p")
      case True
      have "alone lib up (c\<lparr>cpc := Submit cmd\<rparr>) p c2 p2"
        by (rule alone.go [OF _ _ w]) (use True assms(2) raft in \<open>simp_all add: conn_step_def executeRESPCmd_def\<close>)
      from alone.go [OF _ _ this, of "c\<lparr>cpc := CheckLeader cmd\<rparr>" p] show ?thesis using True by (simp add: conn_step_def)
    next
      case False
      show ?thesis by (rule alone.go [OF _ _ w]) (use False assms(2) raft in \<open>auto simp: conn_step_def executeRESPCmd_def\<close>)
    qed
    from alone.go [OF _ _ this, of c p] show ?thesis using assms(1) raft by (simp add: conn_step_def)
  qed
qed

text \<open>How a connection that runs alone ends: its last program counter, all it wrote, and the process it leaves.\<close>

definition ends_as :: "raft_lib \<Rightarrow> (nat \<Rightarrow> nat) \<Rightarrow> conn \<Rightarrow> process \<Rightarrow> conn_end \<times> bytes list \<times> process \<Rightarrow> bool" where
  "ends_as lib up c p res \<longleftrightarrow>
     (case res of (e, out, q) \<Rightarrow> \<exists>c'. alone lib up c p c' q \<and> cpc c' = Ended e \<and> cout c' = out)"

lemma ends_now: "cpc c = Ended e \<Longrightarrow> ends_as lib up c p (e, cout c, p)"
  by (auto simp: ends_as_def intro: alone.stop)

lemma ends_step:
  "(\<forall>e. cpc c \<noteq> Ended e) \<Longrightarrow> conn_step lib up c p = (c1, p1, ev) \<Longrightarrow> ends_as lib up c1 p1 res \<Longrightarrow> ends_as lib up c p res"
  unfolding ends_as_def by (cases res) (auto intro: alone.go)

lemma ends_read: "cpc c = Reading \<Longrightarrow> ends_as lib up (read_request up c) p res \<Longrightarrow> ends_as lib up c p res"
  by (rule ends_step) (simp_all add: conn_step_def)

lemma ends_write: "cpc c = Writing ret \<Longrightarrow> ends_as lib up (c\<lparr>cpc := Reading, cout := cout c @ [ret]\<rparr>) p res \<Longrightarrow> ends_as lib up c p res"
  by (rule ends_step) (simp_all add: conn_step_def)

lemma ends_command:
  "cpc c = Dispatch cmd \<Longrightarrow> executeRESPCmd lib (Some cmd) p = (ret, q) \<Longrightarrow>
   ends_as lib up (c\<lparr>cpc := Reading, cout := cout c @ [ret]\<rparr>) q res \<Longrightarrow> ends_as lib up c p res"
  unfolding ends_as_def by (cases res) (auto intro: alone_command)

abbreviation reading_conn :: "reader \<Rightarrow> ParserContext \<Rightarrow> bytes list \<Rightarrow> conn" where
  "reading_conn r ctx out \<equiv> \<lparr>creader = r, cctx = ctx, cpc = Reading, cout = out\<rparr>"

text \<open>A connection that runs alone ends exactly as the loop \<open>serve\<close> does.\<close>

lemma serve_alone:
  assumes "serve lib up r ctx p out = Some res"
  shows "ends_as lib up (reading_conn r ctx out) p res"
proof (rule serve.raw_induct [where P = "\<lambda>lib up r ctx p out res. ends_as lib up (reading_conn r ctx out) p res", OF _ assms], rule ends_read)
  fix rec lib up r ctx p out res
  assume IH: "\<And>lib up r ctx p out res. rec lib up r ctx p out = Some res \<Longrightarrow> ends_as lib up (reading_conn r ctx out) p res"
    and body: "(case ParseRESPCommand r ctx of
        (err, reader', ctx) \<Rightarrow>
          (case err of
             Panic x \<Rightarrow> Some (Crashed x, out, p)
           | Failure e \<Rightarrow>
               if e = ReadError EOF then Some (Closed, out, p)
               else rec lib up reader' (Reset ctx) p (out @ [ErrInvalidCommand])
           | Success \<Rightarrow>
               (case BuildCmd up (case CmdArgs ctx of None \<Rightarrow> [] | Some cmdArgs \<Rightarrow> cmdArgs) of
                  None \<Rightarrow> rec lib up reader' (Reset ctx) p (out @ [ErrInvalidCommand])
                | Some cmd \<Rightarrow>
                    (case executeRESPCmd lib (Some cmd) p of
                       (ret, q) \<Rightarrow> rec lib up reader' (Reset ctx) q (out @ [ret]))))) = Some res"
  obtain err r1 ctx1 where pr: "ParseRESPCommand r ctx = (err, r1, ctx1)" by (cases "ParseRESPCommand r ctx")
  define c1 where "c1 = read_request up (reading_conn r ctx out)"
  note c1 = c1_def read_request_def pr
  have err_reply: "ends_as lib up c1 p res"
    if "cpc c1 = Writing ErrInvalidCommand" "rec lib up r1 (Reset ctx1) p (out @ [ErrInvalidCommand]) = Some res"
    using ends_write [OF that(1)] IH [OF that(2)] by (simp add: c1)
  have "ends_as lib up c1 p res"
  proof (cases err)
    case (Panic x)
    then show ?thesis using ends_now [of c1 "Crashed x"] pr body by (auto simp: c1)
  next
    case (Failure f)
    then show ?thesis using ends_now [of c1 Closed] err_reply pr body by (cases "f = ReadError EOF") (auto simp: c1)
  next
    case Success
    let ?args = "case CmdArgs ctx1 of None \<Rightarrow> [] | Some cmdArgs \<Rightarrow> cmdArgs"
    show ?thesis
    proof (cases "BuildCmd up ?args")
      case None
      then show ?thesis using err_reply pr body Success by (simp add: c1)
    next
      case (Some cmd)
      obtain ret q where ex: "executeRESPCmd lib (Some cmd) p = (ret, q)" by fastforce
      then have "rec lib up r1 (Reset ctx1) q (out @ [ret]) = Some res" using pr body Success Some by simp
      from IH [OF this] show ?thesis using Success Some by (intro ends_command [OF _ ex]) (simp_all add: c1)
    qed
  qed
  then show "ends_as lib up (read_request up (reading_conn r ctx out)) p res" by (simp add: c1_def)
qed simp

section \<open>The share of a connection in the history\<close>

definition cmds_of :: "nat \<Rightarrow> (nat \<times> Cmd \<times> bytes) list \<Rightarrow> Cmd list" where
  "cmds_of i h = map (\<lambda>(_, cmd, _). cmd) (filter (\<lambda>(j, _, _). j = i) h)"

definition replies_of :: "nat \<Rightarrow> (nat \<times> Cmd \<times> bytes) list \<Rightarrow> bytes list" where
  "replies_of i h = map (\<lambda>(_, _, ret). ret) (filter (\<lambda>(j, _, _). j = i) h)"

lemma share_append [simp]:
  "cmds_of i [] = []" "replies_of i [] = []"
  "cmds_of i (h @ [(j, cmd, ret)]) = cmds_of i h @ (if j = i then [cmd] else [])"
  "replies_of i (h @ [(j, cmd, ret)]) = replies_of i h @ (if j = i then [ret] else [])"
  by (simp_all add: cmds_of_def replies_of_def)

text \<open>
  The history so far, executed one command after the other by the abstract specification, gives the
  recorded replies and the current store.
\<close>

definition sequential :: "(nat \<times> Cmd \<times> bytes) list \<Rightarrow> (bytes \<rightharpoonup> bytes) \<Rightarrow> (bytes \<rightharpoonup> bytes) \<Rightarrow> bool" where
  "sequential h m m' \<longleftrightarrow>
     (\<exists>rs. spec_session (map (\<lambda>(_, cmd, _). typed cmd) h) m = (rs, m') \<and> map (\<lambda>(_, _, ret). ret) h = map print_reply rs)"

lemma spec_session_append:
  "spec_session (cs @ ds) m = (let (rs, m1) = spec_session cs m; (ts, m2) = spec_session ds m1 in (rs @ ts, m2))"
  by (induction cs arbitrary: m) (simp_all add: Let_def split: prod.splits)

lemma sequential_Nil [simp]: "sequential [] m m"
  by (simp add: sequential_def)

lemma sequential_snoc:
  "sequential h m m1 \<Longrightarrow> spec_step None (typed cmd) m1 = (r, m2) \<Longrightarrow> sequential (h @ [(i, cmd, print_reply r)]) m m2"
  by (auto simp: sequential_def spec_session_append)

lemma ExecuteLocally_spec:
  assumes "raft_role p = None" "ExecuteLocally lib cmd p = (ret, q)"
  shows "\<exists>r. ret = print_reply r \<and> spec_step None (typed cmd) (db_view (memdb p)) = (r, db_view (memdb q)) \<and> raft_role q = None"
  using assms exec_typed_spec [of None "typed cmd" "memdb p"]
  by (cases "spec_step None (typed cmd) (db_view (memdb p))")
    (auto simp: ExecuteLocally_def SaveSnapshot_def executeOnDB_typed memdb_def split: prod.splits)

text \<open>Where a connection stands: the requests it has executed are those of its share of the history.\<close>

definition conn_inv :: "(nat \<Rightarrow> nat) \<Rightarrow> bytes list list \<Rightarrow> (nat \<times> Cmd \<times> bytes) list \<Rightarrow> nat \<Rightarrow> conn \<Rightarrow> bool" where
  "conn_inv up reqs h i c \<longleftrightarrow>
     (\<exists>ds rest. reqs = ds @ rest \<and> creader c = \<lparr>rbuf = request_bytes rest, rfail = EOF\<rparr> \<and> state (cctx c) = CommandStart \<and>
        (case cpc c of
           Reading \<Rightarrow> cmds_of i h = request_cmds up ds \<and> replies_of i h = cout c
         | Dispatch cmd \<Rightarrow> cmds_of i h @ [cmd] = request_cmds up ds \<and> replies_of i h = cout c
         | RunLocal cmd \<Rightarrow> cmds_of i h @ [cmd] = request_cmds up ds \<and> replies_of i h = cout c
         | Writing ret \<Rightarrow> cmds_of i h = request_cmds up ds \<and> replies_of i h = cout c @ [ret]
         | Ended e \<Rightarrow> e = Closed \<and> rest = [] \<and> cmds_of i h = request_cmds up ds \<and> replies_of i h = cout c
         | _ \<Rightarrow> False))"

lemma conn_inv_share: "cmds_of i h' = cmds_of i h \<Longrightarrow> replies_of i h' = replies_of i h \<Longrightarrow> conn_inv up reqs h' i c = conn_inv up reqs h i c"
  by (cases "cpc c") (simp_all add: conn_inv_def)

lemma conn_inv_new: "cmds_of i h = [] \<Longrightarrow> replies_of i h = [] \<Longrightarrow> conn_inv up reqs h i (new_conn \<lparr>rbuf = request_bytes reqs, rfail = EOF\<rparr>)"
  unfolding conn_inv_def by (intro exI [of _ "[]"] exI [of _ reqs]) (simp add: new_conn_def request_cmds_def)

lemma read_request_at_end:
  "creader c = \<lparr>rbuf = [], rfail = EOF\<rparr> \<Longrightarrow> state (cctx c) = CommandStart \<Longrightarrow>
   cpc (read_request up c) = Ended Closed \<and> creader (read_request up c) = creader c \<and> cout (read_request up c) = cout c
   \<and> state (cctx (read_request up c)) = CommandStart"
  by (simp add: read_request_def ParseRESPCommand_at_end)

lemma read_request_next:
  assumes "creader c = \<lparr>rbuf = request_bytes (req # rest), rfail = EOF\<rparr>" "state (cctx c) = CommandStart" "sendable_request req"
  shows "cpc (read_request up c) = Dispatch \<lparr>Op = ToUpper up (hd req), Args = tl req\<rparr>
    \<and> creader (read_request up c) = \<lparr>rbuf = request_bytes rest, rfail = EOF\<rparr> \<and> cout (read_request up c) = cout c
    \<and> state (cctx (read_request up c)) = CommandStart"
proof -
  obtain name args where req: "req = name # args" using assms(3) by (cases req) (auto simp: sendable_request_def)
  obtain ctx' where "ParseRESPCommand \<lparr>rbuf = BuildArray (Some req) @ request_bytes rest, rfail = EOF\<rparr> (cctx c)
      = (Success, \<lparr>rbuf = request_bytes rest, rfail = EOF\<rparr>, ctx')" "CmdArgs ctx' = Some req"
    using ParseRESPCommand_BuildArray [OF assms(2), of req "request_bytes rest" EOF] assms(3) by (auto simp: sendable_request_def)
  then show ?thesis using assms(1) by (simp add: read_request_def request_bytes_def req BuildCmd_Cons)
qed

lemma request_cmds_snoc: "request_cmds up (ds @ [req]) = request_cmds up ds @ [\<lparr>Op = ToUpper up (hd req), Args = tl req\<rparr>]"
  by (simp add: request_cmds_def)

lemma conn_inv_read:
  assumes "conn_inv up reqs h i c" "cpc c = Reading" "list_all sendable_request reqs"
  shows "conn_inv up reqs h i (read_request up c)"
proof -
  obtain ds rest where d: "reqs = ds @ rest" "creader c = \<lparr>rbuf = request_bytes rest, rfail = EOF\<rparr>" "state (cctx c) = CommandStart"
    "cmds_of i h = request_cmds up ds" "replies_of i h = cout c"
    using assms(1,2) by (auto simp: conn_inv_def)
  show ?thesis
  proof (cases rest)
    case Nil
    then show ?thesis using d read_request_at_end [of c up] unfolding conn_inv_def
      by (intro exI [of _ ds] exI [of _ "[]"]) (simp add: request_bytes_def)
  next
    case (Cons req rest')
    then show ?thesis using d read_request_next [of c req rest' up] assms(3) unfolding conn_inv_def
      by (intro exI [of _ "ds @ [req]"] exI [of _ rest']) (simp add: request_cmds_snoc)
  qed
qed

abbreviation tagged :: "nat \<Rightarrow> (Cmd \<times> bytes) list \<Rightarrow> (nat \<times> Cmd \<times> bytes) list" where
  "tagged i ev \<equiv> map (Pair i) ev"

lemma conn_inv_simps:
  "cpc c = Dispatch cmd \<Longrightarrow> conn_inv up reqs h i (c\<lparr>cpc := RunLocal cmd\<rparr>) = conn_inv up reqs h i c"
  "cpc c = Writing ret \<Longrightarrow> conn_inv up reqs h i (c\<lparr>cout := cout c @ [ret], cpc := Reading\<rparr>) = conn_inv up reqs h i c"
  "cpc c = RunLocal cmd \<Longrightarrow> conn_inv up reqs (h @ [(i, cmd, ret)]) i (c\<lparr>cpc := Writing ret\<rparr>) = conn_inv up reqs h i c"
  by (simp_all add: conn_inv_def)

lemma conn_inv_prefix:
  assumes "conn_inv up reqs h i c"
  shows "prefix (cmds_of i h) (request_cmds up reqs)"
proof -
  obtain ds rest cs where "reqs = ds @ rest" "request_cmds up ds = cmds_of i h @ cs"
    using assms unfolding conn_inv_def by (cases "cpc c") (simp; metis append_Nil2)+
  then show ?thesis by (simp add: request_cmds_def)
qed

lemma conn_inv_ended:
  "conn_inv up reqs h i c \<Longrightarrow> cpc c = Ended e \<Longrightarrow> cmds_of i h = request_cmds up reqs \<and> cout c = replies_of i h"
  by (auto simp: conn_inv_def)

lemma conn_inv_not_crashed: "conn_inv up reqs h i c \<Longrightarrow> cpc c \<noteq> Ended (Crashed x)"
  by (auto simp: conn_inv_def)

lemma conn_step_inv:
  assumes "conn_inv up reqs h i c" "list_all sendable_request reqs" "raft_role p = None"
    and "conn_step lib up c p = (c', p', ev)" "sequential h m (db_view (memdb p))"
  shows "conn_inv up reqs (h @ tagged i ev) i c' \<and> sequential (h @ tagged i ev) m (db_view (memdb p')) \<and> raft_role p' = None"
proof (cases "cpc c")
  case Reading
  then show ?thesis using assms conn_inv_read [OF assms(1) Reading assms(2)] by (auto simp: conn_step_def)
next
  case (Dispatch cmd)
  then show ?thesis using assms by (auto simp: conn_step_def RaftEnabled_def conn_inv_simps)
next
  case (RunLocal cmd)
  obtain ret q where ex: "ExecuteLocally lib cmd p = (ret, q)" by fastforce
  obtain r where r: "ret = print_reply r" "spec_step None (typed cmd) (db_view (memdb p)) = (r, db_view (memdb q))" "raft_role q = None"
    using ExecuteLocally_spec [OF assms(3) ex] by blast
  have "c' = c\<lparr>cpc := Writing ret\<rparr>" "p' = q" "ev = [(cmd, ret)]" using assms(4) RunLocal ex by (auto simp: conn_step_def)
  then show ?thesis using assms(1) sequential_snoc [OF assms(5) r(2)] r(1,3) RunLocal by (simp add: conn_inv_simps)
next
  case (Writing ret)
  then show ?thesis using assms by (auto simp: conn_step_def conn_inv_simps)
next
  case (Ended e)
  then show ?thesis using assms by (auto simp: conn_step_def)
qed (use assms(1) in \<open>simp_all add: conn_inv_def\<close>)

definition slot_inv :: "(nat \<Rightarrow> nat) \<Rightarrow> bytes list list \<Rightarrow> (nat \<times> Cmd \<times> bytes) list \<Rightarrow> nat \<Rightarrow> conn option \<Rightarrow> bool" where
  "slot_inv up reqs h i slot \<longleftrightarrow>
     (case slot of None \<Rightarrow> cmds_of i h = [] \<and> replies_of i h = [] | Some c \<Rightarrow> conn_inv up reqs h i c)"

lemma slot_inv_simps [simp]:
  "slot_inv up reqs h i None \<longleftrightarrow> cmds_of i h = [] \<and> replies_of i h = []"
  "slot_inv up reqs h i (Some c) = conn_inv up reqs h i c"
  by (simp_all add: slot_inv_def)

lemma slot_inv_share: "cmds_of i h' = cmds_of i h \<Longrightarrow> replies_of i h' = replies_of i h \<Longrightarrow> slot_inv up reqs h' i slot = slot_inv up reqs h i slot"
  using conn_inv_share [of i h' h up reqs "the slot"] by (cases slot) simp_all

definition server_inv :: "(nat \<Rightarrow> nat) \<Rightarrow> (nat \<Rightarrow> bytes list list) \<Rightarrow> (bytes \<rightharpoonup> bytes) \<Rightarrow> server \<Rightarrow> bool" where
  "server_inv up reqs m s \<longleftrightarrow> crashed s = None \<and> raft_role (proc s) = None \<and> sequential (history s) m (db_view (memdb (proc s)))
    \<and> (\<forall>i. slot_inv up (reqs i) (history s) i (conns s i))"

lemma share_other: "j \<noteq> i \<Longrightarrow> cmds_of j (h @ tagged i ev) = cmds_of j h" "j \<noteq> i \<Longrightarrow> replies_of j (h @ tagged i ev) = replies_of j h"
  by (auto simp: cmds_of_def replies_of_def filter_empty_conv)

lemma server_inv_served:
  assumes "server_inv up reqs m s" "list_all sendable_request (reqs i)" "conns s i = Some c" "conn_step lib up c (proc s) = (c', p', ev)"
  shows "server_inv up reqs m (s\<lparr>conns := (conns s)(i \<mapsto> c'), proc := p',
    crashed := (case cpc c' of Ended (Crashed x) \<Rightarrow> Some x | _ \<Rightarrow> None), history := history s @ tagged i ev\<rparr>)"
proof -
  have "slot_inv up (reqs i) (history s) i (conns s i)" using assms(1) by (simp add: server_inv_def)
  then have ci: "conn_inv up (reqs i) (history s) i c" using assms(3) by simp
  have st: "conn_inv up (reqs i) (history s @ tagged i ev) i c'" "sequential (history s @ tagged i ev) m (db_view (memdb p'))" "raft_role p' = None"
    using conn_step_inv [OF ci assms(2) _ assms(4)] assms(1) by (auto simp: server_inv_def)
  moreover have "(case cpc c' of Ended (Crashed x) \<Rightarrow> Some x | _ \<Rightarrow> None) = None"
    using conn_inv_not_crashed [OF st(1)] by (auto split: conn_pc.splits conn_end.splits)
  ultimately show ?thesis using assms(1)
    by (auto simp: server_inv_def slot_inv_share [OF share_other])
qed

lemma server_reach_inv:
  assumes "server_reach lib up input p0 s" "raft_role p0 = None"
    and "\<And>i. input i = \<lparr>rbuf = request_bytes (reqs i), rfail = EOF\<rparr>" "\<And>i. list_all sendable_request (reqs i)"
  shows "server_inv up reqs (db_view (memdb p0)) s"
  using assms(1)
proof (induction rule: server_reach.induct)
  case start
  then show ?case using assms(2) by (simp add: server_inv_def server_start_def)
next
  case (step s t)
  from step.hyps(2) step.IH show ?case
  proof (cases rule: server_step.cases)
    case (accepted i)
    moreover have "slot_inv up (reqs i) (history s) i (conns s i)" using step.IH by (simp add: server_inv_def)
    ultimately show ?thesis using step.IH assms(3) [of i] by (simp add: server_inv_def conn_inv_new)
  next
    case (served i c c' p' ev)
    then show ?thesis using server_inv_served [OF step.IH assms(4) served(3,5)] by simp
  qed (simp_all add: server_inv_def)
qed

section \<open>Runs of a single connection inside the server\<close>

text \<open>Steps of the connections that are already there.\<close>

definition quiet_step :: "raft_lib \<Rightarrow> (nat \<Rightarrow> nat) \<Rightarrow> (nat \<Rightarrow> reader) \<Rightarrow> server \<Rightarrow> server \<Rightarrow> bool" where
  "quiet_step lib up input s t \<longleftrightarrow> server_step lib up input s t \<and> dom (conns t) = dom (conns s)"

lemma quiet_steps_server: "(quiet_step lib up input)\<^sup>*\<^sup>* s t \<Longrightarrow> (server_step lib up input)\<^sup>*\<^sup>* s t"
  by (rule rtranclp_mono [THEN predicate2D]) (auto simp: quiet_step_def)

lemma alone_steps:
  assumes "alone lib up c p c2 p2" "crashed s = None" "conns s i = Some c" "proc s = p" "\<forall>x. cpc c2 \<noteq> Ended (Crashed x)"
  shows "\<exists>h. (quiet_step lib up input)\<^sup>*\<^sup>* s (s\<lparr>conns := (conns s)(i \<mapsto> c2), proc := p2, history := h\<rparr>)"
  using assms
proof (induction arbitrary: s rule: alone.induct)
  case (stop c p)
  then have "s\<lparr>conns := (conns s)(i \<mapsto> c), proc := p, history := history s\<rparr> = s" by (simp add: fun_upd_idem)
  then show ?case by (metis rtranclp.rtrancl_refl)
next
  case (go c p c1 p1 ev c2 p2)
  have nc: "cpc c1 \<noteq> Ended (Crashed x)" for x
    using go.hyps(3) go.prems(4) by (cases rule: alone.cases) auto
  let ?t = "s\<lparr>conns := (conns s)(i \<mapsto> c1), proc := p1, history := history s @ tagged i ev\<rparr>"
  have "(case cpc c1 of Ended (Crashed x) \<Rightarrow> Some x | _ \<Rightarrow> None) = crashed s"
    using nc go.prems(1) by (auto split: conn_pc.splits conn_end.splits)
  with server_step.served [OF go.prems(1,2) go.hyps(1), of lib up c1 p1 ev input] go.hyps(2) go.prems(3)
  have "server_step lib up input s ?t" by simp
  then have "quiet_step lib up input s ?t" using go.prems(2) by (auto simp: quiet_step_def)
  moreover have "\<exists>h. (quiet_step lib up input)\<^sup>*\<^sup>* ?t (s\<lparr>conns := (conns s)(i \<mapsto> c2), proc := p2, history := h\<rparr>)"
    using go.IH [of ?t] go.prems by (simp add: fun_upd_same del: fun_upd_apply)
  ultimately show ?case by (meson converse_rtranclp_into_rtranclp)
qed

lemma server_reach_steps:
  "(server_step lib up input)\<^sup>*\<^sup>* s t \<Longrightarrow> server_reach lib up input p0 s \<Longrightarrow> server_reach lib up input p0 t"
  by (induction rule: rtranclp_induct) (auto intro: server_reach.step)

text \<open>A connection that is accepted and then served without interruption ends as \<open>handleConnection\<close> does.\<close>

lemma connection_served:
  assumes "handleConnection lib up (input i) (proc s) = Some (Closed, rets, q)" "crashed s = None"
  shows "\<exists>c h. (quiet_step lib up input)\<^sup>*\<^sup>* (s\<lparr>conns := (conns s)(i \<mapsto> new_conn (input i))\<rparr>)
      (s\<lparr>conns := (conns s)(i \<mapsto> c), proc := q, history := h\<rparr>) \<and> cpc c = Ended Closed \<and> cout c = rets"
proof -
  let ?s1 = "s\<lparr>conns := (conns s)(i \<mapsto> new_conn (input i))\<rparr>"
  obtain c where c: "alone lib up (new_conn (input i)) (proc s) c q" "cpc c = Ended Closed" "cout c = rets"
    using serve_alone [of lib up "input i" InitParserContext "proc s" "[]"] assms(1)
    by (auto simp: handleConnection_def ends_as_def new_conn_def)
  then have "\<exists>h. (quiet_step lib up input)\<^sup>*\<^sup>* ?s1 (s\<lparr>conns := (conns s)(i \<mapsto> c), proc := q, history := h\<rparr>)"
    using alone_steps [OF c(1), of ?s1 i input] assms(2) by (simp add: fun_upd_same del: fun_upd_apply)
  then show ?thesis using c(2,3) by blast
qed

lemma session_reached:
  assumes "handleConnection lib up (input i) p = Some (Closed, rets, q)"
  shows "\<exists>s c. server_reach lib up input p s \<and> conns s i = Some c \<and> cpc c = Ended Closed \<and> cout c = rets"
proof -
  let ?s0 = "server_start p" and ?s1 = "(server_start p)\<lparr>conns := (conns (server_start p))(i \<mapsto> new_conn (input i))\<rparr>"
  obtain c h where run: "(quiet_step lib up input)\<^sup>*\<^sup>* ?s1 (?s0\<lparr>conns := (conns ?s0)(i \<mapsto> c), proc := q, history := h\<rparr>)"
      "cpc c = Ended Closed" "cout c = rets"
    using connection_served [of lib up input i ?s0 rets q] assms by (auto simp: server_start_def)
  have "server_reach lib up input p ?s1"
    by (rule server_reach.step [OF server_reach.start], rule server_step.accepted) (simp_all add: server_start_def)
  from server_reach_steps [OF quiet_steps_server [OF run(1)] this] run(2,3) show ?thesis
    by (intro exI [of _ "?s0\<lparr>conns := (conns ?s0)(i \<mapsto> c), proc := q, history := h\<rparr>"] exI [of _ c]) simp
qed

section \<open>The type of replies\<close>

text \<open>A RESP reply: one line of one of the line types, or a bulk string.\<close>

definition resp_reply :: "bytes \<Rightarrow> bool" where
  "resp_reply s \<longleftrightarrow> one_line s \<or> (\<exists>v. s = BuildBulkString v)"

lemma resp_reply_fixed [simp]: "resp_reply Ok" "resp_reply ErrInternal" "resp_reply ErrInvalidCommand" "resp_reply ErrWriteNotAllowed"
  unfolding resp_reply_def fixed_replies by (simp_all add: one_line_builders)

lemma resp_reply_print: "(\<And>e. r = RSaveFailed e \<Longrightarrow> LF \<notin> set e) \<Longrightarrow> resp_reply (print_reply r)"
  unfolding resp_reply_def by (cases r) (auto simp: fixed_replies intro!: one_line_builders)

lemma spec_step_save_error: "fst (spec_step save c m) = RSaveFailed e \<Longrightarrow> c = SaveC \<and> save = Some e"
proof (cases c)
  case (Ping a)
  then show "fst (spec_step save c m) = RSaveFailed e \<Longrightarrow> ?thesis" by (cases a) auto
qed (auto split: option.splits)

lemma write_not_save: "IsWriteOp cmd \<Longrightarrow> typed cmd \<noteq> SaveC"
  by (auto simp: IsWriteOp_def typed_def Let_def split: list.splits option.splits)

lemma resp_reply_write: "IsWriteOp cmd \<Longrightarrow> resp_reply (fst (executeOnDB save cmd db))"
  using resp_reply_print [of "fst (spec_step save (typed cmd) (db_view db))"] spec_step_save_error [of save "typed cmd"]
    write_not_save [of cmd] exec_typed_spec [of save "typed cmd" db]
  by (auto simp: executeOnDB_typed)

text \<open>
  The reply to a failed \<^verbatim>\<open>SAVE\<close> carries the error text of the Raft library as it is. It is a RESP reply unless that
  text has a line feed: then its first line ends in the middle of the message.
\<close>

definition save_error :: "bytes \<Rightarrow> bytes" where
  "save_error e = print_reply (RSaveFailed (''raft snapshot: '' @ e))"

lemma save_error_breaks_framing: "resp_reply (save_error e) \<longleftrightarrow> LF \<notin> set e"
proof -
  have shape: "save_error e = CHR ''-'' # (''ERROR Snapshot failed: raft snapshot: '' @ e) @ Separator"
    by (simp add: save_error_def BuildErrorMsg_def)
  have "LF \<notin> set e" if ok: "resp_reply (save_error e)"
  proof -
    have "save_error e \<noteq> BuildBulkString v" for v unfolding shape by (cases v) (simp_all add: BuildBulkString_def)
    then obtain c h where "save_error e = c # h @ Separator" "LF \<notin> set h" using ok by (auto simp: resp_reply_def one_line_def)
    then have "LF \<notin> set (''ERROR Snapshot failed: raft snapshot: '' @ e)" unfolding shape by (metis append_same_eq list.inject)
    then show ?thesis by (simp only: set_append Un_iff not_False_eq_True de_Morgan_disj)
  qed
  moreover have "resp_reply (save_error e)" if "LF \<notin> set e"
    using resp_reply_print [of "RSaveFailed (''raft snapshot: '' @ e)"] that by (simp add: save_error_def)
  ultimately show ?thesis by blast
qed

text \<open>What a server on the library \<open>lib\<close> may write: a RESP reply, or the error of a \<^verbatim>\<open>SAVE\<close> whose text has a line feed.\<close>

definition reply_or_save_error :: "raft_lib \<Rightarrow> bytes \<Rightarrow> bool" where
  "reply_or_save_error lib r \<longleftrightarrow>
     resp_reply r \<or> (\<exists>p e. raft_role p \<noteq> None \<and> lib_snapshot lib p = Some e \<and> LF \<in> set e \<and> r = save_error e)"

lemma reply_or_save_errorI [simp]: "resp_reply r \<Longrightarrow> reply_or_save_error lib r"
  by (simp add: reply_or_save_error_def)

lemma reply_local: "reply_or_save_error lib (fst (ExecuteLocally lib cmd p))"
proof -
  let ?x = "spec_step (SaveSnapshot lib p) (typed cmd) (db_view (memdb p))"
  have r: "fst (ExecuteLocally lib cmd p) = print_reply (fst ?x)"
    using exec_typed_spec [of "SaveSnapshot lib p" "typed cmd" "memdb p"]
    by (simp add: ExecuteLocally_def executeOnDB_typed case_prod_unfold Let_def)
  show ?thesis
  proof (cases "\<exists>e. fst ?x = RSaveFailed e \<and> LF \<in> set e")
    case True
    then obtain e where e: "fst ?x = RSaveFailed e" "LF \<in> set e" by blast
    then have "SaveSnapshot lib p = Some e" using spec_step_save_error by blast
    then obtain e' where "raft_role p \<noteq> None" "lib_snapshot lib p = Some e'" "e = ''raft snapshot: '' @ e'"
      by (auto simp: SaveSnapshot_def split: option.splits)
    then show ?thesis using r e by (auto simp: reply_or_save_error_def save_error_def)
  qed (use r resp_reply_print in auto)
qed

lemma resp_reply_raft:
  assumes "raft_contract lib" "IsWriteOp cmd"
  shows "resp_reply (fst (applyCmdViaRaftNode lib cmd p))"
proof (cases "lib_apply lib (marshal_cmd cmd) p")
  case fut: (Pair fut q)
  show ?thesis
  proof (cases fut)
    case FutureError
    then show ?thesis using fut by (simp add: applyCmdViaRaftNode_def)
  next
    case (FutureResponse v)
    then obtain save f r where r: "Apply save (marshal_cmd cmd) f = Inr (r, machine q)" "v = response_value r"
      using assms(1) fut unfolding raft_contract_def by blast
    have w: "IsWriteOp (coerce_cmd cmd)" "Op (coerce_cmd cmd) \<noteq> OpLeaderChanged"
      using coerce_write_op [OF assms(2)] write_not_announce [OF assms(2)] assms(2) by (simp_all add: IsWriteOp_def)
    have "applyCmdViaRaftNode lib cmd p = (fst (executeOnDB save (coerce_cmd cmd) (fsm_db f)), q)"
      using fut FutureResponse r(2) Apply_Ok_reply(1) [OF r(1) w(2)] by (intro applyCmdViaRaftNode_response) simp
    then show ?thesis using resp_reply_write [OF w(1)] by simp
  qed
qed

definition reply_inv :: "raft_lib \<Rightarrow> conn \<Rightarrow> bool" where
  "reply_inv lib c \<longleftrightarrow> list_all (reply_or_save_error lib) (cout c)
    \<and> (case cpc c of Writing ret \<Rightarrow> reply_or_save_error lib ret | CheckLeader cmd \<Rightarrow> IsWriteOp cmd | Submit cmd \<Rightarrow> IsWriteOp cmd | _ \<Rightarrow> True)"

lemma reply_inv_new [simp]: "reply_inv lib (new_conn r)"
  by (simp add: reply_inv_def new_conn_def)

lemma reply_inv_step:
  assumes "raft_contract lib" "reply_inv lib c" "conn_step lib up c p = (c', p', ev)"
  shows "reply_inv lib c'"
proof (cases "cpc c")
  case Reading
  then show ?thesis using assms(2,3)
    by (auto simp: conn_step_def read_request_def reply_inv_def split: prod.splits status.splits option.splits if_splits)
next
  case (Submit cmd)
  then have "reply_or_save_error lib (fst (ApplyCmdViaRaft lib cmd p))"
    using assms(1,2) by (simp add: ApplyCmdViaRaft_def reply_local resp_reply_raft reply_inv_def split: option.split)
  then show ?thesis using Submit assms(2,3) by (auto simp: conn_step_def reply_inv_def split: prod.splits)
next
  case (RunLocal cmd)
  then show ?thesis using reply_local [of lib cmd p] assms(2,3) by (auto simp: conn_step_def reply_inv_def split: prod.splits)
qed (use assms(2,3) in \<open>auto simp: conn_step_def reply_inv_def split: if_splits\<close>)

lemma reply_inv_reach:
  assumes "server_reach lib up input p0 s" "raft_contract lib" "conns s i = Some c"
  shows "reply_inv lib c"
  using assms(1,3)
proof (induction arbitrary: i c rule: server_reach.induct)
  case (step s t)
  from step.hyps(2) show ?case
  proof (cases rule: server_step.cases)
    case (accepted j)
    then show ?thesis using step.IH step.prems by (auto split: if_splits)
  next
    case (served j d d' p' ev)
    then have "reply_inv lib d'" using reply_inv_step [OF assms(2) _ served(5)] step.IH by blast
    then show ?thesis using served(1) step.IH step.prems by (auto split: if_splits)
  qed (use step in auto)
qed (simp add: server_start_def)

section \<open>Properties\<close>

text \<open>
  C13. Concurrent clients see one sequential server: for a server without Raft whose clients send well-formed
  requests with nonempty arguments, however the scheduler interleaves the steps of the connections, the commands took effect one after the other in some order in which the
  replies and the store are those of the abstract specification; each connection's commands appear in
  that order as its requests, in sequence, and a connection that has ended has executed all of them and
  has written exactly their replies. No client input of this kind crashes the server.
\<close>

theorem concurrent_sessions_linearizable:
  assumes "server_reach lib up input p0 s" "raft_role p0 = None"
    and "\<And>i. input i = \<lparr>rbuf = request_bytes (reqs i), rfail = EOF\<rparr>" "\<And>i. list_all sendable_request (reqs i)"
  shows "crashed s = None \<and> sequential (history s) (db_view (memdb p0)) (db_view (memdb (proc s)))
    \<and> (\<forall>i c. conns s i = Some c \<longrightarrow> prefix (cmds_of i (history s)) (request_cmds up (reqs i))
        \<and> (\<forall>e. cpc c = Ended e \<longrightarrow> cmds_of i (history s) = request_cmds up (reqs i) \<and> cout c = replies_of i (history s)))"
proof -
  have inv: "server_inv up reqs (db_view (memdb p0)) s" by (rule server_reach_inv [OF assms(1,2)]) (rule assms(3,4))+
  have "prefix (cmds_of i (history s)) (request_cmds up (reqs i))
      \<and> (\<forall>e. cpc c = Ended e \<longrightarrow> cmds_of i (history s) = request_cmds up (reqs i) \<and> cout c = replies_of i (history s))"
    if "conns s i = Some c" for i c
  proof -
    have "slot_inv up (reqs i) (history s) i (conns s i)" using inv by (simp add: server_inv_def)
    then have "conn_inv up (reqs i) (history s) i c" using that by simp
    then show ?thesis using conn_inv_prefix conn_inv_ended by blast
  qed
  then show ?thesis using inv by (simp add: server_inv_def)
qed

theorem concurrent_sessions_linearizable_witness:
  "\<exists>s c. server_reach \<lparr>lib_apply = \<lambda>_ p. (FutureError, p), lib_snapshot = \<lambda>_. None\<rparr> id
      (\<lambda>_. \<lparr>rbuf = request_bytes [[''SET'', ''k'', ''v'']], rfail = EOF\<rparr>)
      \<lparr>raft_role = None, machine = \<lparr>fsm_db = empty_db, leaderAdminAddr = []\<rparr>\<rparr> s
    \<and> conns s 7 = Some c \<and> cpc c = Ended Closed \<and> cmds_of 7 (history s) = [\<lparr>Op = ''SET'', Args = [''k'', ''v'']\<rparr>]
    \<and> cout c = replies_of 7 (history s)"
proof -
  let ?lib = "\<lparr>lib_apply = \<lambda>_ p. (FutureError, p), lib_snapshot = \<lambda>_. None\<rparr>"
    and ?p = "\<lparr>raft_role = None, machine = \<lparr>fsm_db = empty_db, leaderAdminAddr = []\<rparr>\<rparr>"
    and ?reqs = "[[''SET'', ''k'', ''v'']]"
  let ?input = "\<lambda>_ :: nat. \<lparr>rbuf = request_bytes ?reqs, rfail = EOF\<rparr>"
  have ok: "list_all sendable_request ?reqs" by (simp add: sendable_request_def sendable_args_def sendable_def maxAlloc_def)
  obtain rets q where "handleConnection ?lib id (?input 7) ?p = Some (Closed, rets, q)"
    using handleConnection_local [OF ok, of ?p ?lib id] by auto
  from session_reached [OF this] obtain s c where r: "server_reach ?lib id ?input ?p s" and c: "conns s 7 = Some c" "cpc c = Ended Closed"
    by blast
  from concurrent_sessions_linearizable [OF r, of "\<lambda>_. ?reqs"] ok c
  have "cmds_of 7 (history s) = request_cmds id ?reqs" "cout c = replies_of 7 (history s)" by auto
  then show ?thesis using r c by (auto simp: request_cmds_def)
qed

text \<open>
  C27. Replies are well formed: whatever bytes the clients send, with or without Raft and whatever the Raft
  library does within its contract, everything any connection has written is a sequence of RESP replies,
  each one line of a line type or one bulk string, with one exception: the reply to a \<^verbatim>\<open>SAVE\<close> that failed with an
  error text of the Raft library that contains a line feed, which the program does not replace.
\<close>

theorem replies_well_formed:
  assumes "server_reach lib up input p0 s" "raft_contract lib" "conns s i = Some c" "r \<in> set (cout c)"
  shows "(one_line r \<or> (\<exists>v. r = BuildBulkString v))
    \<or> (\<exists>p e. raft_role p \<noteq> None \<and> lib_snapshot lib p = Some e \<and> LF \<in> set e
        \<and> r = BuildErrorMsg ErrGeneric (''Snapshot failed: raft snapshot: '' @ e))"
  using reply_inv_reach [OF assms(1-3)] assms(4)
  by (auto simp: reply_inv_def reply_or_save_error_def resp_reply_def save_error_def list_all_iff)

theorem replies_well_formed_witness:
  "\<exists>s c. server_reach single_node_lib id (\<lambda>_. \<lparr>rbuf = request_bytes [[''SET'', ''k'', ''v'']], rfail = EOF\<rparr>)
      \<lparr>raft_role = None, machine = \<lparr>fsm_db = empty_db, leaderAdminAddr = []\<rparr>\<rparr> s
    \<and> conns s 3 = Some c \<and> cout c = [Ok] \<and> one_line Ok"
proof -
  let ?p = "\<lparr>raft_role = None, machine = \<lparr>fsm_db = empty_db, leaderAdminAddr = []\<rparr>\<rparr>"
    and ?in = "\<lambda>_ :: nat. \<lparr>rbuf = request_bytes [[''SET'', ''k'', ''v'']], rfail = EOF\<rparr>"
  have "list_all sendable_request [[''SET'', ''k'', ''v'']]"
    by (simp add: sendable_request_def sendable_args_def sendable_def maxAlloc_def)
  from handleConnection_local [OF this, of ?p single_node_lib id] obtain q where
    "handleConnection single_node_lib id (?in 3) ?p = Some (Closed, [Ok], q)" by (auto simp: request_cmds_def typed_def)
  from session_reached [OF this] obtain s c where s: "server_reach single_node_lib id ?in ?p s" "conns s 3 = Some c" "cout c = [Ok]"
    by blast
  have "Ok \<noteq> BuildBulkString v" "Ok \<noteq> BuildErrorMsg ErrGeneric e" for v e
    by (cases v) (simp_all add: Ok_def BuildSimpleString_def BuildBulkString_def BuildErrorMsg_def)
  with replies_well_formed [OF s(1) single_node_contract s(2), of Ok] s show ?thesis by auto
qed

end
