(* ===== verification/Config.thy ===== *)
theory Config
  imports GoStrings
begin

text \<open>
  The configuration of \<^verbatim>\<open>src/core/config.go\<close>: the parsed command-line flags, the record built from them
  and its accessors. Parsing the command line itself is the \<^verbatim>\<open>flag\<close> package's; \<open>flag_values\<close> is its
  result, and \<open>flag_defaults\<close> the values the program declares for flags that are not given.
\<close>

record flag_values =
  f_enable_raft :: bool
  f_bootstrap :: bool
  f_raft_id :: bytes
  f_raft_addr :: bytes
  f_raft_advertise_addr :: bytes
  f_join :: bytes
  f_admin_addr :: bytes
  f_addr :: bytes
  f_data_dir :: bytes
  f_maxmemory :: bytes
  f_log_requests :: bool

definition flag_defaults :: flag_values where
  "flag_defaults =
     \<lparr>f_enable_raft = False, f_bootstrap = False, f_raft_id = [], f_raft_addr = '':7000'',
      f_raft_advertise_addr = [], f_join = [], f_admin_addr = '':50051'', f_addr = '':6379'',
      f_data_dir = [], f_maxmemory = [], f_log_requests = True\<rparr>"

record Config =
  EnableRaft :: bool
  Bootstrap :: bool
  raftID :: bytes
  RaftAddr :: bytes
  RaftAdvertiseAddr :: bytes
  JoinAddr :: bytes
  AdminAddr :: bytes
  ListenAddr :: bytes
  dataDir :: bytes
  maxmemory :: bytes
  LogRequests :: bool

definition InitDBConfig :: "flag_values \<Rightarrow> Config" where
  "InitDBConfig f =
     \<lparr>EnableRaft = f_enable_raft f, Bootstrap = f_bootstrap f, raftID = TrimSpace (f_raft_id f),
      RaftAddr = TrimSpace (f_raft_addr f), RaftAdvertiseAddr = TrimSpace (f_raft_advertise_addr f),
      JoinAddr = TrimSpace (f_join f), AdminAddr = TrimSpace (f_admin_addr f),
      ListenAddr = TrimSpace (f_addr f), dataDir = TrimSpace (f_data_dir f),
      maxmemory = TrimSpace (f_maxmemory f), LogRequests = f_log_requests f\<rparr>"

definition getDefaultDataDir :: bytes where
  "getDefaultDataDir = ''/var/lib/skiffdb''"

definition GetDataDir :: "Config \<Rightarrow> bytes" where
  "GetDataDir config = (if dataDir config = [] then getDefaultDataDir else dataDir config)"

definition GetRaftId :: "Config \<Rightarrow> bytes" where
  "GetRaftId config = TrimSpace (raftID config)"

definition setRaftID :: "bytes \<Rightarrow> Config \<Rightarrow> Config" where
  "setRaftID nodeID config = config\<lparr>raftID := TrimSpace nodeID\<rparr>"

definition GetRaftAdvertiseAddr :: "Config \<Rightarrow> bytes" where
  "GetRaftAdvertiseAddr config =
     (let advertised = TrimSpace (RaftAdvertiseAddr config) in
      if advertised \<noteq> [] then advertised else TrimSpace (RaftAddr config))"

lemma GetRaftId_set [simp]: "GetRaftId (setRaftID i config) = TrimSpace i"
  by (simp add: GetRaftId_def setRaftID_def)

lemma TrimSpace_GetRaftId [simp]: "TrimSpace (GetRaftId config) = GetRaftId config"
  by (simp add: GetRaftId_def)

lemma TrimSpace_GetRaftAdvertiseAddr [simp]: "TrimSpace (GetRaftAdvertiseAddr config) = GetRaftAdvertiseAddr config"
  by (simp add: GetRaftAdvertiseAddr_def Let_def)

lemma set_keeps [simp]:
  "GetDataDir (setRaftID i config) = GetDataDir config"
  "GetRaftAdvertiseAddr (setRaftID i config) = GetRaftAdvertiseAddr config"
  "EnableRaft (setRaftID i config) = EnableRaft config" "Bootstrap (setRaftID i config) = Bootstrap config"
  "JoinAddr (setRaftID i config) = JoinAddr config" "RaftAddr (setRaftID i config) = RaftAddr config"
  by (simp_all add: GetDataDir_def GetRaftAdvertiseAddr_def setRaftID_def Let_def)

lemma GetDataDir_nonempty [simp]: "GetDataDir config \<noteq> []"
  by (simp add: GetDataDir_def getDefaultDataDir_def)

end
