(* ===== verification/Filepath.thy ===== *)
theory Filepath
  imports GoStrings
begin

text \<open>
  The part of Go's \<^verbatim>\<open>path/filepath\<close> (on Unix) the program uses: \<^verbatim>\<open>Clean\<close>, \<^verbatim>\<open>Join\<close>, \<^verbatim>\<open>Base\<close> and \<^verbatim>\<open>Dir\<close>. A path is a
  byte string; \<open>components\<close> are its elements between slashes. The lemmas say when joining a
  name to a path adds exactly one element, and that cleaning is idempotent.
\<close>

definition slash :: char where
  "slash = CHR ''/''"

text \<open>Splitting at every slash; two slashes in a row give an empty element.\<close>

fun split_slash :: "bytes \<Rightarrow> bytes list" where
  "split_slash [] = [[]]"
| "split_slash (c # s) =
     (if c = slash then [] # split_slash s
      else (case split_slash s of [] \<Rightarrow> [[c]] | x # xs \<Rightarrow> (c # x) # xs))"

definition rooted :: "bytes \<Rightarrow> bool" where
  "rooted p \<longleftrightarrow> HasPrefix p ''/''"

text \<open>\<open>Clean\<close>'s treatment of one element, on the elements kept so far (last one first).\<close>

definition clean_step :: "bool \<Rightarrow> bytes list \<Rightarrow> bytes \<Rightarrow> bytes list" where
  "clean_step rt done e =
     (if e = [] \<or> e = ''.'' then done
      else if e = ''..'' then
        (case done of
           [] \<Rightarrow> if rt then [] else [e]
         | d # ds \<Rightarrow> if d = ''..'' then e # done else ds)
      else e # done)"

definition components :: "bytes \<Rightarrow> bytes list" where
  "components p = rev (foldl (clean_step (rooted p)) [] (split_slash p))"

fun join_slash :: "bytes list \<Rightarrow> bytes" where
  "join_slash [] = []"
| "join_slash [x] = x"
| "join_slash (x # xs) = x @ slash # join_slash xs"

definition render :: "bool \<Rightarrow> bytes list \<Rightarrow> bytes" where
  "render rt es =
     (if rt then slash # join_slash es
      else if es = [] then ''.''
      else join_slash es)"

definition Clean :: "bytes \<Rightarrow> bytes" where
  "Clean p = render (rooted p) (components p)"

definition Join :: "bytes list \<Rightarrow> bytes" where
  "Join es =
     (let nonempty = filter (\<lambda>e. e \<noteq> []) es in
      if nonempty = [] then [] else Clean (join_slash nonempty))"

definition Base :: "bytes \<Rightarrow> bytes" where
  "Base p =
     (if p = [] then ''.''
      else
        (let q = rev (dropWhile (\<lambda>c. c = slash) (rev p)) in
         if q = [] then ''/''
         else rev (takeWhile (\<lambda>c. c \<noteq> slash) (rev q))))"

definition Dir :: "bytes \<Rightarrow> bytes" where
  "Dir p = Clean (rev (dropWhile (\<lambda>c. c \<noteq> slash) (rev p)))"

section \<open>Lemmas\<close>

lemma split_slash_nonempty [simp]: "split_slash s \<noteq> []"
  by (induction s) (auto split: list.splits)

lemma split_slash_plain: "slash \<notin> set s \<Longrightarrow> split_slash s = [s]"
  by (induction s) auto

lemma split_slash_append: "split_slash (s @ slash # t) = split_slash s @ split_slash t"
proof (induction s)
  case (Cons c s)
  then show ?case by (cases "split_slash s") auto
qed simp

text \<open>A name that is one proper path element.\<close>

definition plain_name :: "bytes \<Rightarrow> bool" where
  "plain_name s \<longleftrightarrow> s \<noteq> [] \<and> s \<noteq> ''.'' \<and> s \<noteq> ''..'' \<and> slash \<notin> set s"

lemma clean_step_plain: "plain_name s \<Longrightarrow> clean_step rt done s = s # done"
  by (simp add: clean_step_def plain_name_def)

lemma rooted_append: "p \<noteq> [] \<Longrightarrow> rooted (p @ q) = rooted p"
  by (cases p) (simp_all add: rooted_def HasPrefix_def)

lemma components_snoc:
  assumes "p \<noteq> []" "plain_name s"
  shows "components (p @ slash # s) = components p @ [s]"
  using assms(2)
  by (simp add: components_def rooted_append [OF assms(1)] split_slash_append split_slash_plain clean_step_plain plain_name_def
      clean_step_def)

lemma join_slash_snoc: "xs \<noteq> [] \<Longrightarrow> join_slash (xs @ [s]) = join_slash xs @ slash # s"
  by (induction xs rule: join_slash.induct) auto

lemma Join_snoc:
  assumes "p \<noteq> []" "plain_name s"
  shows "Join [p, s] = render (rooted p) (components p @ [s])"
proof -
  have "s \<noteq> []" using assms(2) by (simp add: plain_name_def)
  then have "Join [p, s] = Clean (p @ slash # s)" using assms(1) by (simp add: Join_def)
  then show ?thesis by (simp add: Clean_def components_snoc [OF assms] rooted_append [OF assms(1)])
qed

lemma Join3:
  assumes "p \<noteq> []" "plain_name s" "plain_name t"
  shows "Join [p, s, t] = render (rooted p) (components p @ [s, t])"
proof -
  have ne: "s \<noteq> []" "t \<noteq> []" "slash # s \<noteq> []" using assms by (simp_all add: plain_name_def)
  have "Join [p, s, t] = Clean ((p @ slash # s) @ slash # t)" using assms(1) ne by (simp add: Join_def)
  also have "\<dots> = render (rooted p) (components p @ [s, t])"
    using assms rooted_append [OF assms(1)] by (simp add: Clean_def components_snoc [of "p @ slash # s", simplified] components_snoc)
  finally show ?thesis .
qed

lemma dropWhile_last: "xs \<noteq> [] \<Longrightarrow> \<not> P (last xs) \<Longrightarrow> dropWhile P (rev xs) = rev xs"
  by (cases xs rule: rev_cases) auto

lemma Base_plain: "s \<noteq> [] \<Longrightarrow> slash \<notin> set s \<Longrightarrow> Base s = s"
proof -
  assume s: "s \<noteq> []" "slash \<notin> set s"
  have "last s \<noteq> slash" using s last_in_set by fastforce
  then show ?thesis using s dropWhile_last [of s "\<lambda>c. c = slash"]
    by (auto simp: Base_def rev_swap takeWhile_eq_all_conv)
qed

lemma Base_eq_self:
  assumes "Base s = s"
  shows "s = ''/'' \<or> slash \<notin> set s"
proof (cases "rev (dropWhile (\<lambda>c. c = slash) (rev s)) = []")
  case True
  then show ?thesis using assms by (auto simp: Base_def Let_def split: if_splits)
next
  case False
  let ?q = "rev (dropWhile (\<lambda>c. c = slash) (rev s))"
  have "s \<noteq> []" using False by auto
  then have "s = rev (takeWhile (\<lambda>c. c \<noteq> slash) (rev ?q))" using assms False by (auto simp: Base_def Let_def split: if_splits)
  then have "set s \<subseteq> {c. c \<noteq> slash}" by (metis (mono_tags, lifting) mem_Collect_eq set_rev set_takeWhileD subsetI)
  then show ?thesis by auto
qed


section \<open>Cleaned paths\<close>

text \<open>What the elements of a cleaned path look like: proper names, after some \<^verbatim>\<open>..\<close> if the path is relative.\<close>

definition proper :: "bytes \<Rightarrow> bool" where
  "proper e \<longleftrightarrow> e \<noteq> [] \<and> e \<noteq> ''.'' \<and> slash \<notin> set e"

definition normal :: "bool \<Rightarrow> bytes list \<Rightarrow> bool" where
  "normal rt es \<longleftrightarrow> (\<forall>e \<in> set es. proper e) \<and> (\<exists>k ds. es = replicate k ''..'' @ ds \<and> ''..'' \<notin> set ds \<and> (rt \<longrightarrow> k = 0))"

lemma split_slash_elements: "e \<in> set (split_slash s) \<Longrightarrow> slash \<notin> set e"
proof (induction s arbitrary: e)
  case (Cons c s)
  then show ?case by (cases "split_slash s") (auto split: if_splits)
qed simp

lemma normal_step:
  assumes "normal rt (rev done)" "slash \<notin> set e"
  shows "normal rt (rev (clean_step rt done e))"
proof -
  obtain k ds where es: "rev done = replicate k ''..'' @ ds" "''..'' \<notin> set ds" "rt \<longrightarrow> k = 0" and pr: "\<forall>e \<in> set done. proper e"
    using assms(1) by (auto simp: normal_def)
  then have dn: "done = rev ds @ replicate k ''..''" by (metis rev_append rev_replicate rev_rev_ident)
  consider "e = [] \<or> e = ''.''" | "e = ''..''" | "e \<noteq> []" "e \<noteq> ''.''" "e \<noteq> ''..''" by blast
  then show ?thesis
  proof cases
    case 1
    then show ?thesis using assms(1) by (auto simp: clean_step_def)
  next
    case 2
    have dd: "proper ''..''" by (simp add: proper_def slash_def)
    show ?thesis
    proof (cases "rev ds")
      case Nil
      then have d: "done = replicate k ''..''" using dn by simp
      have "rev (clean_step rt done e) = (if rt \<and> k = 0 then [] else replicate (Suc k) ''..'')"
        using 2 es(3) unfolding d by (cases k) (auto simp: clean_step_def replicate_append_same)
      moreover have "replicate (Suc k) ''..'' = replicate (Suc k) ''..'' @ []" by simp
      ultimately show ?thesis using es(3) dd unfolding normal_def by (auto intro: exI [of _ 0] exI [of _ "Suc k"] simp del: replicate_Suc)
    next
      case (Cons x xs)
      then have ds: "ds = rev xs @ [x]" by (simp add: rev_swap)
      then have d: "done = x # xs @ replicate k ''..''" using dn by simp
      then have "rev (clean_step rt done e) = replicate k ''..'' @ rev xs" using 2 ds es(2) by (auto simp: clean_step_def)
      then show ?thesis using es(2,3) ds d pr unfolding normal_def by (intro conjI exI [of _ k] exI [of _ "rev xs"]) auto
    qed
  next
    case 3
    then have "rev (clean_step rt done e) = replicate k ''..'' @ (ds @ [e])" using dn by (simp add: clean_step_def)
    moreover have "proper e" using 3 assms(2) by (simp add: proper_def)
    ultimately show ?thesis using es(2,3) 3(3) pr dn unfolding normal_def by (intro conjI exI [of _ k] exI [of _ "ds @ [e]"]) auto
  qed
qed

lemma components_normal: "normal (rooted p) (components p)"
proof -
  have "normal rt (rev (foldl (clean_step rt) done es))" if "normal rt (rev done)" "\<forall>e \<in> set es. slash \<notin> set e" for rt "done" es
    using that by (induction es arbitrary: "done") (auto intro: normal_step)
  moreover have "normal rt (rev [])" for rt by (auto simp: normal_def)
  ultimately show ?thesis unfolding components_def using split_slash_elements by blast
qed

lemma clean_normal:
  assumes "normal rt es"
  shows "foldl (clean_step rt) [] es = rev es"
proof -
  obtain k ds where es: "es = replicate k ''..'' @ ds" "''..'' \<notin> set ds" "rt \<longrightarrow> k = 0" and pr: "\<forall>e \<in> set es. proper e"
    using assms by (auto simp: normal_def)
  have up: "foldl (clean_step rt) [] (replicate k ''..'') = replicate k ''..''"
  proof (cases "k = 0")
    case False
    then have "\<not> rt" using es(3) by simp
    have "foldl (clean_step rt) (replicate j ''..'') (replicate m ''..'') = replicate (j + m) ''..''" for j m
    proof (induction m arbitrary: j)
      case (Suc m)
      have "clean_step rt (replicate j ''..'') ''..'' = replicate (Suc j) ''..''"
        using \<open>\<not> rt\<close> by (cases j) (simp_all add: clean_step_def)
      then show ?case using Suc.IH [of "Suc j"] by simp
    qed simp
    from this [of 0 k] show ?thesis by simp
  qed simp
  have down: "foldl (clean_step rt) acc xs = rev xs @ acc" if "\<forall>e \<in> set xs. proper e" "''..'' \<notin> set xs" for acc xs
    using that by (induction xs arbitrary: acc) (auto simp: clean_step_def proper_def)
  show ?thesis using up down [of ds "replicate k ''..''"] pr es(1,2) by simp
qed


lemma split_join_slash: "es \<noteq> [] \<Longrightarrow> \<forall>e \<in> set es. slash \<notin> set e \<Longrightarrow> split_slash (join_slash es) = es"
  by (induction es rule: join_slash.induct) (simp_all add: split_slash_plain split_slash_append)

lemma rooted_render:
  assumes "normal rt es"
  shows "rooted (render rt es) = rt"
proof (cases es)
  case (Cons e es')
  then obtain c e' where e: "e = c # e'" "c \<noteq> slash" using assms by (cases e) (auto simp: normal_def proper_def)
  then obtain t where t: "join_slash es = c # t" using Cons by (cases es') simp_all
  then show ?thesis using Cons e(2) by (cases rt) (auto simp: render_def rooted_def HasPrefix_def slash_def simp del: join_slash.simps)
qed (simp add: render_def rooted_def HasPrefix_def slash_def)

text \<open>Cleaning is idempotent: the elements of a rendered path are the ones it was made of.\<close>

lemma components_render:
  assumes "normal rt es"
  shows "components (render rt es) = es"
proof -
  have ns: "\<forall>e \<in> set es. slash \<notin> set e" using assms by (auto simp: normal_def proper_def)
  have "foldl (clean_step rt) [] (split_slash (render rt es)) = rev es"
  proof (cases "es = []")
    case True
    then show ?thesis by (simp add: render_def clean_step_def slash_def)
  next
    case False
    then have "split_slash (render rt es) = (if rt then [[]] else []) @ es" using split_join_slash [OF False ns] by (simp add: render_def)
    then show ?thesis using clean_normal [OF assms] by (cases rt) (simp_all add: clean_step_def)
  qed
  then show ?thesis by (simp add: components_def rooted_render [OF assms])
qed

lemma Clean_render: "normal rt es \<Longrightarrow> Clean (render rt es) = render rt es"
  by (simp add: Clean_def components_render rooted_render)

lemma Clean_idem [simp]: "Clean (Clean p) = Clean p"
  unfolding Clean_def [of p] by (rule Clean_render [OF components_normal])

lemma normal_snoc: "normal rt es \<Longrightarrow> plain_name s \<Longrightarrow> normal rt (es @ [s])"
proof -
  assume n: "normal rt es" "plain_name s"
  then obtain k ds where "es = replicate k ''..'' @ ds" "''..'' \<notin> set ds" "rt \<longrightarrow> k = 0" by (auto simp: normal_def)
  then show ?thesis using n unfolding normal_def plain_name_def proper_def
    by (intro conjI exI [of _ k] exI [of _ "ds @ [s]"]) auto
qed

lemma rooted_slash [simp]: "rooted (slash # p)"
  by (simp add: rooted_def HasPrefix_def slash_def)

lemma components_trailing: "p \<noteq> [] \<Longrightarrow> components (p @ [slash]) = components p"
  by (simp add: components_def rooted_append split_slash_append clean_step_def)

lemma render_nonempty [simp]: "normal rt es \<Longrightarrow> render rt es \<noteq> []"
  by (cases es rule: join_slash.cases) (auto simp: render_def normal_def proper_def)

lemma Dir_snoc: "slash \<notin> set s \<Longrightarrow> Dir (p @ slash # s) = Clean (p @ [slash])"
proof -
  assume "slash \<notin> set s"
  then have "dropWhile (\<lambda>c. c \<noteq> slash) (rev s @ slash # rev p) = slash # rev p"
    by (intro dropWhile_append_stop) auto
  then show ?thesis by (simp add: Dir_def)
qed

lemma Base_snoc: "s \<noteq> [] \<Longrightarrow> slash \<notin> set s \<Longrightarrow> Base (p @ slash # s) = s"
proof -
  assume s: "s \<noteq> []" "slash \<notin> set s"
  have "last s \<noteq> slash" using s last_in_set by fastforce
  then have d: "dropWhile (\<lambda>c. c = slash) (rev (p @ slash # s)) = rev (p @ slash # s)" using s(1) by (intro dropWhile_last) auto
  have "takeWhile (\<lambda>c. c \<noteq> slash) (rev s @ slash # rev p) = rev s" using s(2) by (intro takeWhile_append_stop) auto
  with d s(1) show ?thesis by (simp add: Base_def)
qed

text \<open>The parent of a rendered path has the elements without the last.\<close>

lemma normal_butlast: "normal rt (es @ [s]) \<Longrightarrow> normal rt es"
proof -
  assume n: "normal rt (es @ [s])"
  then obtain k ds where e: "es @ [s] = replicate k ''..'' @ ds" "''..'' \<notin> set ds" "rt \<longrightarrow> k = 0" by (auto simp: normal_def)
  have "\<exists>k ds. es = replicate k ''..'' @ ds \<and> ''..'' \<notin> set ds \<and> (rt \<longrightarrow> k = 0)"
  proof (cases ds rule: rev_cases)
    case Nil
    then have "es = replicate (k - 1) ''..''" using e(1) by (cases k) (simp_all flip: replicate_append_same)
    then show ?thesis using e(3) by (intro exI [of _ "k - 1"] exI [of _ "[]"]) simp
  next
    case (snoc ds' x)
    then have "es = replicate k ''..'' @ ds'" using e(1) by simp
    then show ?thesis using e(2,3) snoc by auto
  qed
  then show ?thesis using n by (auto simp: normal_def)
qed

lemma Dir_render:
  assumes "normal rt (es @ [s])"
  shows "Dir (render rt (es @ [s])) = render rt es"
proof (cases "es = []")
  case True
  have s: "slash \<notin> set s" using assms by (auto simp: normal_def proper_def)
  show ?thesis
  proof (cases rt)
    case rt: True
    have "components [slash] = []" by (simp add: components_def clean_step_def)
    then show ?thesis using True rt Dir_snoc [OF s, of "[]"] by (simp add: render_def Clean_def)
  next
    case False
    have d: "dropWhile (\<lambda>c. c \<noteq> slash) (rev s) = []" using s unfolding dropWhile_eq_Nil_conv by auto
    have "components [] = []" "\<not> rooted []" by (simp_all add: components_def clean_step_def rooted_def HasPrefix_def)
    then have "Dir s = ''.''" unfolding Dir_def d by (simp add: Clean_def render_def)
    then show ?thesis using True False by (simp add: render_def)
  qed
next
  case False
  have s: "slash \<notin> set s" using assms by (auto simp: normal_def proper_def)
  have n: "normal rt es" by (rule normal_butlast [OF assms])
  have j: "render rt (es @ [s]) = render rt es @ slash # s" using False by (simp add: render_def join_slash_snoc)
  have ne: "render rt es \<noteq> []" using n by simp
  have "Clean (render rt es @ [slash]) = render rt es"
    using components_trailing [OF ne] rooted_append [OF ne] n by (simp add: Clean_def components_render rooted_render)
  then show ?thesis unfolding j Dir_snoc [OF s] .
qed

text \<open>A name in a directory: its parent is the directory, its base the name.\<close>

lemma Clean_snoc_parts:
  assumes "p \<noteq> []" "plain_name s"
  shows "Dir (Clean (p @ slash # s)) = Clean p" "Base (Clean (p @ slash # s)) = s"
proof -
  let ?rt = "rooted p" and ?cs = "components p"
  have n: "normal ?rt ?cs" by (rule components_normal)
  have s: "s \<noteq> []" "slash \<notin> set s" using assms(2) by (simp_all add: plain_name_def)
  have r: "Clean (p @ slash # s) = render ?rt (?cs @ [s])"
    by (simp add: Clean_def components_snoc [OF assms] rooted_append [OF assms(1)])
  show "Dir (Clean (p @ slash # s)) = Clean p" unfolding r Dir_render [OF normal_snoc [OF n assms(2)]] by (simp add: Clean_def)
  have "render ?rt (?cs @ [s]) = s \<or> (\<exists>q. render ?rt (?cs @ [s]) = q @ slash # s)"
    by (cases "?cs = []") (auto simp: render_def join_slash_snoc)
  then show "Base (Clean (p @ slash # s)) = s" unfolding r using Base_snoc [OF s] s by (auto simp: Base_plain)
qed

end
