(* ===== verification/Storage.thy ===== *)
theory Storage
  imports Config Filepath
begin

text \<open>
  Durable storage (\<^verbatim>\<open>src/core/raft_storage.go\<close>): where a node keeps its data, how the stores are opened
  and what is refused. The operating system, bbolt and Raft's snapshot store are parameters: a
  \<open>storage_env\<close> says how each call the program makes on them ends (\<open>None\<close> is success). Opening and
  closing of resources is recorded as a list of events.
\<close>

section \<open>Data\<close>

datatype event =
    StoreOpened | StoreClosed | TransportOpened | TransportClosed | RaftStarted | RaftShutdown

datatype storage_error =
    ConfigRequired | RaftIdRequired | InvalidRaftId bytes
  | CreateDirectory bytes bytes | DirectoryPermissions bytes bytes
  | StoreInUse bytes bytes | OpenStore bytes bytes | DatabasePermissions bytes bytes
  | OpenSnapshotStore bytes bytes | SnapshotPermissions bytes bytes
  | ListSnapshots bytes bytes | ScanSnapshots bytes bytes | UnreadableSnapshots bytes

definition raftSnapshotDirectory :: bytes where
  "raftSnapshotDirectory = ''snapshots''"

definition raftIncompleteSnapshotSuffix :: bytes where
  "raftIncompleteSnapshotSuffix = ''.tmp''"

text \<open>
  The stores a node owns: which of the three are present, and, if there is something to close, how
  closing it ends.
\<close>

record raftStores =
  logStore :: bool
  stableStore :: bool
  snapshotStore :: bool
  closer :: "bytes option option"

definition stores_Close :: "raftStores option \<Rightarrow> bytes option \<times> event list" where
  "stores_Close sp =
     (case sp of
        None \<Rightarrow> (None, [])
      | Some s \<Rightarrow> (case closer s of None \<Rightarrow> (None, []) | Some res \<Rightarrow> (res, [StoreClosed])))"

datatype bolt_open = BoltOpened | BoltTimeout bytes | BoltError bytes

record storage_env =
  env_mkdir :: "bytes option"
  env_chmod_dir :: "bytes option"
  env_bolt :: bolt_open
  env_chmod_db :: "bytes option"
  env_snapshot_store :: "bytes option"
  env_chmod_snapshots :: "bytes option"
  env_list :: "bytes + nat"
  env_read_dir :: "bytes + (bytes \<times> bool) list"
  env_close :: "bytes option"

section \<open>Operations\<close>

definition raftNodeDataDir :: "Config option \<Rightarrow> storage_error + bytes" where
  "raftNodeDataDir configp =
     (case configp of
        None \<Rightarrow> Inl ConfigRequired
      | Some config \<Rightarrow>
          (let nodeID = GetRaftId config in
           if nodeID = [] then Inl RaftIdRequired
           else if nodeID = ''.'' \<or> nodeID = ''..'' \<or> Base nodeID \<noteq> nodeID \<or> Contains nodeID [CHR 0x5C]
           then Inl (InvalidRaftId nodeID)
           else Inr (Join [GetDataDir config, ''raft'', nodeID])))"

text \<open>Directory entries are pairs of a name and whether it is a directory; a list call counts its snapshots.\<close>

definition rejectUnreadableFinalizedSnapshots ::
  "bytes \<Rightarrow> bytes + nat \<Rightarrow> bytes + (bytes \<times> bool) list \<Rightarrow> storage_error option" where
  "rejectUnreadableFinalizedSnapshots snapshotDir listed entries =
     (case listed of
        Inl err \<Rightarrow> Some (ListSnapshots snapshotDir err)
      | Inr n \<Rightarrow>
          if 0 < n then None
          else
            (case entries of
               Inl err \<Rightarrow> Some (ScanSnapshots snapshotDir err)
             | Inr es \<Rightarrow>
                 if list_ex (\<lambda>(name, isDir). isDir \<and> \<not> HasSuffix name raftIncompleteSnapshotSuffix) es
                 then Some (UnreadableSnapshots snapshotDir)
                 else None))"

definition newPersistentRaftStores :: "storage_env \<Rightarrow> Config option \<Rightarrow> (storage_error + raftStores) \<times> event list" where
  "newPersistentRaftStores env config =
     (case raftNodeDataDir config of
        Inl err \<Rightarrow> (Inl err, [])
      | Inr nodeDir \<Rightarrow>
     (case env_mkdir env of
        Some err \<Rightarrow> (Inl (CreateDirectory nodeDir err), [])
      | None \<Rightarrow>
     (case env_chmod_dir env of
        Some err \<Rightarrow> (Inl (DirectoryPermissions nodeDir err), [])
      | None \<Rightarrow>
     (let dbPath = Join [nodeDir, ''raft.db''] in
      case env_bolt env of
        BoltTimeout err \<Rightarrow> (Inl (StoreInUse dbPath err), [])
      | BoltError err \<Rightarrow> (Inl (OpenStore dbPath err), [])
      | BoltOpened \<Rightarrow>
     (case env_chmod_db env of
        Some err \<Rightarrow> (Inl (DatabasePermissions dbPath err), [StoreOpened, StoreClosed])
      | None \<Rightarrow>
     (case env_snapshot_store env of
        Some err \<Rightarrow> (Inl (OpenSnapshotStore nodeDir err), [StoreOpened, StoreClosed])
      | None \<Rightarrow>
     (let snapshotDir = Join [nodeDir, raftSnapshotDirectory] in
      case env_chmod_snapshots env of
        Some err \<Rightarrow> (Inl (SnapshotPermissions snapshotDir err), [StoreOpened, StoreClosed])
      | None \<Rightarrow>
     (case rejectUnreadableFinalizedSnapshots snapshotDir (env_list env) (env_read_dir env) of
        Some err \<Rightarrow> (Inl err, [StoreOpened, StoreClosed])
      | None \<Rightarrow>
          (Inr \<lparr>logStore = True, stableStore = True, snapshotStore = True, closer = Some (env_close env)\<rparr>,
           [StoreOpened])))))))))"

definition newInmemRaftStores :: raftStores where
  "newInmemRaftStores = \<lparr>logStore = True, stableStore = True, snapshotStore = True, closer = None\<rparr>"

section \<open>Lemmas\<close>

lemma Contains_byte: "Contains s [c] \<longleftrightarrow> c \<in> set s"
  by (auto simp: Contains_def sublist_def in_set_conv_decomp)

lemma raft_name [simp]: "plain_name ''raft''"
  by (simp add: plain_name_def slash_def)

lemma node_id_checked:
  assumes "raftNodeDataDir (Some config) = Inr d" "GetRaftId config \<noteq> ''/''"
  shows "plain_name (GetRaftId config) \<and> d = Join [GetDataDir config, ''raft'', GetRaftId config]"
  using assms Base_eq_self [of "GetRaftId config"]
  by (auto simp: raftNodeDataDir_def plain_name_def Let_def split: if_splits)

lemma new_stores_success:
  assumes "newPersistentRaftStores env config = (Inr s, evs)"
  shows "evs = [StoreOpened] \<and> s = \<lparr>logStore = True, stableStore = True, snapshotStore = True, closer = Some (env_close env)\<rparr>
    \<and> (case env_list env of
            Inl _ \<Rightarrow> False
          | Inr n \<Rightarrow> 0 < n \<or> (\<exists>es. env_read_dir env = Inr es \<and> filter (\<lambda>(name, isDir). isDir \<and> \<not> HasSuffix name ''.tmp'') es = []))"
proof -
  have rej: "case listed of Inl _ \<Rightarrow> False
      | Inr n \<Rightarrow> 0 < n \<or> (\<exists>es. entries = Inr es \<and> filter (\<lambda>(name, isDir). isDir \<and> \<not> HasSuffix name ''.tmp'') es = [])"
    if "rejectUnreadableFinalizedSnapshots d listed entries = None" for d listed entries
    using that
    by (auto simp: rejectUnreadableFinalizedSnapshots_def raftIncompleteSnapshotSuffix_def list_ex_iff filter_empty_conv
        split: sum.splits if_splits)
  show ?thesis
    using assms
    by (auto simp: newPersistentRaftStores_def Let_def dest!: rej split: sum.splits option.splits bolt_open.splits)
qed

lemma new_stores_failure:
  "newPersistentRaftStores env config = (Inl e, evs) \<Longrightarrow> evs = [] \<or> evs = [StoreOpened, StoreClosed]"
  by (auto simp: newPersistentRaftStores_def Let_def split: sum.splits option.splits bolt_open.splits)

section \<open>Properties\<close>

text \<open>
  A node's data stays inside the data directory: whatever identity is accepted, other than a
  lone slash, its directory is exactly one level below the Raft directory, under the identity's own
  name.
\<close>

lemma node_dir_below_raft_dir:
  assumes "raftNodeDataDir (Some config) = Inr d" "GetRaftId config \<noteq> ''/''"
  shows "d = render (rooted (GetDataDir config)) (components (GetDataDir config) @ [''raft'', GetRaftId config])
    \<and> slash \<notin> set (GetRaftId config) \<and> GetRaftId config \<notin> {[], ''.'', ''..''}"
  using node_id_checked [OF assms] Join3 [OF GetDataDir_nonempty raft_name, of "GetRaftId config" config]
  by (auto simp: plain_name_def)

text \<open>
  The identity \<^verbatim>\<open>/\<close> slips through the check for path separators: it is accepted and makes the
  directory that all nodes share the data directory of this one.
\<close>

lemma slash_identity_accepted:
  assumes "GetRaftId config = ''/''"
  shows "raftNodeDataDir (Some config) = Inr (Join [GetDataDir config, ''raft''])"
proof -
  have "Base ''/'' = ''/''" by (simp add: Base_def slash_def)
  moreover have "\<not> Contains ''/'' [CHR 0x5C]" by (simp add: Contains_byte)
  moreover have "Join [GetDataDir config, ''raft'', ''/''] = Join [GetDataDir config, ''raft'']"
  proof -
    let ?p = "GetDataDir config @ slash # ''raft''"
    have "components (?p @ slash # ''/'') = components ?p" "rooted (?p @ slash # ''/'') = rooted ?p"
      using rooted_append [of ?p "slash # ''/''"]
      by (simp_all add: components_def split_slash_append slash_def [symmetric] clean_step_def)
    then show ?thesis by (simp add: Join_def Clean_def)
  qed
  ultimately show ?thesis using assms by (simp add: raftNodeDataDir_def)
qed

text \<open>
  Opening the stores leaks nothing: if it fails at any step, in whatever way the file system,
  bbolt and the snapshot store behave, every store that was opened is closed again; if it succeeds,
  exactly one is open. A directory whose finalized snapshots are all unreadable is never opened as
  an empty one.
\<close>

lemma store_opening_balanced:
  "case newPersistentRaftStores env config of
     (Inr s, evs) \<Rightarrow> evs = [StoreOpened] \<and> snd (stores_Close (Some s)) = [StoreClosed]
       \<and> (case env_list env of
            Inl _ \<Rightarrow> False
          | Inr n \<Rightarrow> 0 < n \<or> (\<exists>es. env_read_dir env = Inr es \<and> filter (\<lambda>(name, isDir). isDir \<and> \<not> HasSuffix name ''.tmp'') es = []))
   | (Inl e, evs) \<Rightarrow> evs = [] \<or> evs = [StoreOpened, StoreClosed]"
  using new_stores_success [of env config] new_stores_failure [of env config]
  by (cases "newPersistentRaftStores env config") (auto simp: stores_Close_def split: sum.split)

end
