(* ===== verification/JsonIndent.thy ===== *)
theory JsonIndent
  imports JsonPrefix
begin

text \<open>
  \<^verbatim>\<open>json.MarshalIndent\<close> for a nonempty structure of scalars, with no prefix and two spaces of
  indentation, and that the decoder reads it like the compact form.
\<close>

definition indent_line :: "bytes \<times> json \<Rightarrow> bytes" where
  "indent_line kv = quote (fst kv) @ CHR '':'' # CHR 0x20 # print_json (snd kv)"

fun indent_lines :: "(bytes \<times> json) list \<Rightarrow> bytes" where
  "indent_lines [] = []"
| "indent_lines [kv] = indent_line kv"
| "indent_lines (kv # kvs) = indent_line kv @ CHR '','' # LF # CHR 0x20 # CHR 0x20 # indent_lines kvs"

definition print_indent :: "(bytes \<times> json) list \<Rightarrow> bytes" where
  "print_indent kvs = CHR ''{'' # LF # CHR 0x20 # CHR 0x20 # indent_lines kvs @ LF # ''}''"

lemma skip_ws_space [simp]: "skip_ws (CHR 0x20 # s) = skip_ws s" "skip_ws (LF # s) = skip_ws s"
  by (simp_all add: skip_ws_def is_space_def)

lemma parse_value_space: "parse_value f d (CHR 0x20 # s) = parse_value f d s"
  by (cases f) simp_all

lemma parse_members_space: "parse_members f d (LF # CHR 0x20 # CHR 0x20 # s) = parse_members f d s"
  by (cases f) simp_all

lemma indent_lines_Cons:
  "kvs \<noteq> [] \<Longrightarrow> indent_lines (kv # kvs) = indent_line kv @ CHR '','' # LF # CHR 0x20 # CHR 0x20 # indent_lines kvs"
  by (cases kvs) simp_all

lemma parse_members_indent:
  assumes "kvs \<noteq> []" "\<forall>kv \<in> set kvs. json_depth (snd kv) \<le> d \<and> plain_numbers (snd kv)"
    and "2 * length (indent_lines kvs @ LF # CHR ''}'' # rest) + 2 \<le> f"
  shows "parse_members f d (indent_lines kvs @ LF # CHR ''}'' # rest) =
    Some (map (\<lambda>kv. (coerce (fst kv), coerce_json (snd kv))) kvs, rest)"
  using assms
proof (induction kvs arbitrary: f)
  case (Cons kv kvs)
  then obtain f' where f: "f = Suc f'" by (cases f) auto
  have q: "skip_ws (indent_line kv @ u) =
      CHR 0x22 # concat (map quote_rune (runes (fst kv))) @ CHR 0x22 # CHR '':'' # CHR 0x20 # print_json (snd kv) @ u" for u
    by (simp add: indent_line_def quote_def)
  have pv: "parse_value f' d (CHR 0x20 # print_json (snd kv) @ u) = Some (coerce_json (snd kv), u)"
    if "delimited u" "2 * length (print_json (snd kv) @ u) + 1 \<le> f'" for u
    unfolding parse_value_space using parse_print [OF that(2) _ _ that(1)] Cons.prems(2) by simp
  show ?case
  proof (cases "kvs = []")
    case True
    have "parse_value f' d (CHR 0x20 # print_json (snd kv) @ LF # CHR ''}'' # rest) = Some (coerce_json (snd kv), LF # CHR ''}'' # rest)"
      using Cons.prems(3) f True by (intro pv) (simp_all add: indent_line_def)
    with True f show ?thesis by (simp add: q unquote_quote)
  next
    case False
    let ?r = "LF # CHR 0x20 # CHR 0x20 # indent_lines kvs @ LF # CHR ''}'' # rest"
    have v: "parse_value f' d (CHR 0x20 # print_json (snd kv) @ CHR '','' # ?r) = Some (coerce_json (snd kv), CHR '','' # ?r)"
      using Cons.prems(3) f False by (intro pv) (simp_all add: indent_lines_Cons indent_line_def)
    have "parse_members f' d ?r = Some (map (\<lambda>kv. (coerce (fst kv), coerce_json (snd kv))) kvs, rest)"
      unfolding parse_members_space
      using Cons.prems False f by (intro Cons.IH) (simp_all add: indent_lines_Cons)
    with v f False show ?thesis by (simp add: indent_lines_Cons q unquote_quote)
  qed
qed simp

lemma indent_lines_head: "kvs \<noteq> [] \<Longrightarrow> \<exists>t. indent_lines kvs = CHR 0x22 # t"
  by (cases kvs; cases "tl kvs") (auto simp: indent_line_def quote_def)

lemma parse_prefix_indent:
  assumes "kvs \<noteq> []" "\<forall>kv \<in> set kvs. json_depth (snd kv) = 0 \<and> plain_numbers (snd kv)"
  shows "parse_prefix (print_indent kvs @ rest) = Some (coerce_json (JObj kvs), rest)"
proof -
  obtain t where t: "indent_lines kvs = CHR 0x22 # t" using indent_lines_head [OF assms(1)] by blast
  define f where "f = 2 * length (print_indent kvs @ rest)"
  have s: "skip_ws (LF # CHR 0x20 # CHR 0x20 # indent_lines kvs @ LF # CHR ''}'' # rest) = indent_lines kvs @ LF # CHR ''}'' # rest"
    by (simp add: t)
  have "parse_members f (max_depth - 1) (indent_lines kvs @ LF # CHR ''}'' # rest) =
      Some (map (\<lambda>kv. (coerce (fst kv), coerce_json (snd kv))) kvs, rest)"
    using assms by (intro parse_members_indent) (simp_all add: f_def print_indent_def)
  with s show ?thesis
    unfolding parse_prefix_def f_def [symmetric]
    by (simp add: print_indent_def t max_depth_def)
qed

lemma next_json_indent:
  assumes "kvs \<noteq> []" "\<forall>kv \<in> set kvs. json_depth (snd kv) = 0 \<and> plain_numbers (snd kv)"
  shows "next_json fail (print_indent kvs @ rest) = Value (coerce_json (JObj kvs)) rest"
  using parse_prefix_indent [OF assms, of rest] by (simp add: next_json_def composite_def)

end
