(* ===== verification/Identity.thy ===== *)
theory Identity
  imports Storage JsonIndent
begin

text \<open>
  The identity file of a Raft node (\<^verbatim>\<open>src/core/raft_identity.go\<close>): reading it back at start-up, falling
  back to the directories of older installations, and installing it atomically. What the operating
  system reports is a parameter: a \<open>disk\<close> for the reading side, and for the installing side which
  steps fail, the name of the temporary file and how much of it a failing write leaves behind.
\<close>

section \<open>Data\<close>

definition raftIdentityFilename :: bytes where
  "raftIdentityFilename = ''node.json''"

definition raftIdentityFormat :: bytes where
  "raftIdentityFormat = ''skiffdb-raft-node''"

definition raftIdentityVersion :: uint64 where
  "raftIdentityVersion = 1"

record raftIdentity =
  IdFormat :: bytes
  IdVersion :: uint64
  IdNodeID :: bytes
  IdAdvertiseAddr :: bytes

datatype identity_error =
    IdConfigRequired | IdRequiredForNewNode | IdRequiredForLegacy nat | ConflictsWithLegacy bytes "bytes list"
  | IdAccess bytes | IdDecode | IdTrailingValue | IdTrailingData | IdUnsupported bytes uint64 | IdIncomplete
  | IdConflict bytes bytes | LegacyScan bytes | LegacyInspect bytes bytes

datatype open_result = NotExist | OpenFailed bytes | Opened bytes io_error
datatype dir_result = DirNotExist | DirFailed bytes | Entries "(bytes \<times> bool) list"
datatype stat_result = StatOk | StatNotExist | StatFailed bytes

record disk =
  open_file :: "bytes \<Rightarrow> open_result"
  read_dir :: "bytes \<Rightarrow> dir_result"
  stat_file :: "bytes \<Rightarrow> stat_result"

definition raftRoot :: "Config \<Rightarrow> bytes" where
  "raftRoot config = Join [GetDataDir config, ''raft'']"

definition raftIdentityPath :: "Config \<Rightarrow> bytes" where
  "raftIdentityPath config = Join [GetDataDir config, ''raft'', raftIdentityFilename]"

section \<open>Reading\<close>

definition containsString :: "bytes list \<Rightarrow> bytes \<Rightarrow> bool" where
  "containsString values wanted = list_ex (\<lambda>v. v = wanted) values"

fun legacy_candidates :: "disk \<Rightarrow> bytes \<Rightarrow> (bytes \<times> bool) list \<Rightarrow> identity_error + bytes list" where
  "legacy_candidates dk root [] = Inr []"
| "legacy_candidates dk root ((name, isDir) # entries) =
     (if \<not> isDir then legacy_candidates dk root entries
      else
        (case stat_file dk (Join [root, name, ''raft.db'']) of
           StatOk \<Rightarrow> map_sum id ((#) name) (legacy_candidates dk root entries)
         | StatNotExist \<Rightarrow> legacy_candidates dk root entries
         | StatFailed err \<Rightarrow> Inl (LegacyInspect name err)))"

definition discoverLegacyRaftIDs :: "disk \<Rightarrow> Config \<Rightarrow> identity_error + bytes list" where
  "discoverLegacyRaftIDs dk config =
     (case read_dir dk (raftRoot config) of
        DirNotExist \<Rightarrow> Inr []
      | DirFailed err \<Rightarrow> Inl (LegacyScan err)
      | Entries es \<Rightarrow> legacy_candidates dk (raftRoot config) es)"

definition store_identity_field :: "bytes \<Rightarrow> json \<Rightarrow> raftIdentity \<Rightarrow> raftIdentity option" where
  "store_identity_field name j x =
     (if name = ''format'' then map_option (\<lambda>s. x\<lparr>IdFormat := s\<rparr>) (decode_string j (IdFormat x))
      else if name = ''version'' then map_option (\<lambda>n. x\<lparr>IdVersion := n\<rparr>) (decode_uint64 j (IdVersion x))
      else if name = ''node_id'' then map_option (\<lambda>s. x\<lparr>IdNodeID := s\<rparr>) (decode_string j (IdNodeID x))
      else map_option (\<lambda>s. x\<lparr>IdAdvertiseAddr := s\<rparr>) (decode_string j (IdAdvertiseAddr x)))"

definition identity_fields :: "bytes list" where
  "identity_fields = [''format'', ''version'', ''node_id'', ''advertise_addr'']"

definition decode_identity :: "json \<Rightarrow> raftIdentity option" where
  "decode_identity j =
     decode_struct True identity_fields store_identity_field j
       \<lparr>IdFormat = [], IdVersion = 0, IdNodeID = [], IdAdvertiseAddr = []\<rparr>"

text \<open>The checks on the contents of an identity file.\<close>

definition load_identity :: "bytes \<Rightarrow> io_error \<Rightarrow> Config \<Rightarrow> identity_error + raftIdentity" where
  "load_identity s fail config =
     (case next_json fail s of
        Value j rest \<Rightarrow>
          (case decode_identity j of
             None \<Rightarrow> Inl IdDecode
           | Some identity \<Rightarrow>
               (case next_json fail rest of
                  Value _ _ \<Rightarrow> Inl IdTrailingValue
                | BadValue \<Rightarrow> Inl IdTrailingData
                | AtEOF \<Rightarrow>
                    if IdFormat identity \<noteq> raftIdentityFormat \<or> IdVersion identity \<noteq> raftIdentityVersion
                    then Inl (IdUnsupported (IdFormat identity) (IdVersion identity))
                    else if TrimSpace (IdNodeID identity) = [] \<or> TrimSpace (IdAdvertiseAddr identity) = []
                    then Inl IdIncomplete
                    else if GetRaftId config \<noteq> [] \<and> GetRaftId config \<noteq> IdNodeID identity
                    then Inl (IdConflict (GetRaftId config) (IdNodeID identity))
                    else Inr identity))
      | _ \<Rightarrow> Inl IdDecode)"

text \<open>
  The result is the identity read from disk, whether there was one, and the configuration, whose
  identity is set from the disk.
\<close>

definition resolveRaftIdentity ::
  "disk \<Rightarrow> Config option \<Rightarrow> (identity_error + raftIdentity option \<times> bool) \<times> Config option" where
  "resolveRaftIdentity dk configp =
     (case configp of
        None \<Rightarrow> (Inl IdConfigRequired, None)
      | Some config \<Rightarrow>
          (case open_file dk (raftIdentityPath config) of
             NotExist \<Rightarrow>
               (case discoverLegacyRaftIDs dk config of
                  Inl err \<Rightarrow> (Inl err, Some config)
                | Inr legacyIDs \<Rightarrow>
                    (let suppliedID = GetRaftId config in
                     if suppliedID = [] then
                       (case legacyIDs of
                          [] \<Rightarrow> (Inl IdRequiredForNewNode, Some config)
                        | [i] \<Rightarrow> (Inr (None, False), Some (setRaftID i config))
                        | _ \<Rightarrow> (Inl (IdRequiredForLegacy (length legacyIDs)), Some config))
                     else if 0 < length legacyIDs \<and> \<not> containsString legacyIDs suppliedID then
                       (Inl (ConflictsWithLegacy suppliedID legacyIDs), Some config)
                     else (Inr (None, False), Some config)))
           | OpenFailed err \<Rightarrow> (Inl (IdAccess err), Some config)
           | Opened s fail \<Rightarrow>
               (case load_identity s fail config of
                  Inl err \<Rightarrow> (Inl err, Some config)
                | Inr identity \<Rightarrow> (Inr (Some identity, True), Some (setRaftID (IdNodeID identity) config)))))"

section \<open>Installing\<close>

datatype step =
    MkdirAll | ChmodDir | CreateTemp | ChmodTemp | WriteTemp | SyncTemp | CloseTemp | Rename
  | OpenDir | SyncDir | CloseDir | RemoveTemp

type_synonym files = "bytes \<Rightarrow> bytes option"

definition identity_of :: "Config \<Rightarrow> bytes \<Rightarrow> raftIdentity" where
  "identity_of config advertisedAddress =
     \<lparr>IdFormat = raftIdentityFormat, IdVersion = raftIdentityVersion, IdNodeID = GetRaftId config,
      IdAdvertiseAddr = TrimSpace advertisedAddress\<rparr>"

definition identity_members :: "raftIdentity \<Rightarrow> (bytes \<times> json) list" where
  "identity_members i =
     [(''format'', JStr (IdFormat i)), (''version'', JNum (show_nat (unat (IdVersion i)))),
      (''node_id'', JStr (IdNodeID i)), (''advertise_addr'', JStr (IdAdvertiseAddr i))]"

definition identity_text :: "raftIdentity \<Rightarrow> bytes" where
  "identity_text i = print_indent (identity_members i) @ [LF]"

text \<open>
  \<open>fails\<close> says which step fails and how, \<open>tmp\<close> is the name the operating system gives the temporary
  file, \<open>n\<close> the number of bytes a failing write leaves in it. The result is the failed step with its
  error, or \<open>None\<close>, and the states the files go through, the initial one first.
\<close>

definition persistRaftIdentity ::
  "(step \<Rightarrow> bytes option) \<Rightarrow> bytes \<Rightarrow> nat \<Rightarrow> Config \<Rightarrow> bytes \<Rightarrow> files \<Rightarrow> (step \<times> bytes) option \<times> files list" where
  "persistRaftIdentity fails tmp n config advertisedAddress fs =
     (let path = raftIdentityPath config;
          data = identity_text (identity_of config advertisedAddress);
          err = (\<lambda>st. Some (st, the (fails st)));
          removed = (\<lambda>x :: files. if fails RemoveTemp = None then x(tmp := None) else x)
      in
      if fails MkdirAll \<noteq> None then (err MkdirAll, [fs])
      else if fails ChmodDir \<noteq> None then (err ChmodDir, [fs])
      else if fails CreateTemp \<noteq> None then (err CreateTemp, [fs])
      else
       (let fs1 = fs(tmp \<mapsto> []) in
        if fails ChmodTemp \<noteq> None then (err ChmodTemp, [fs, fs1, removed fs1])
        else if fails WriteTemp \<noteq> None then
          (let fsw = fs1(tmp \<mapsto> take n data) in (err WriteTemp, [fs, fs1, fsw, removed fsw]))
        else
         (let fs2 = fs1(tmp \<mapsto> data) in
          if fails SyncTemp \<noteq> None then (err SyncTemp, [fs, fs1, fs2, removed fs2])
          else if fails CloseTemp \<noteq> None then (err CloseTemp, [fs, fs1, fs2, removed fs2])
          else if fails Rename \<noteq> None then (err Rename, [fs, fs1, fs2, removed fs2])
          else
           (let fs3 = fs2(tmp := None, path \<mapsto> data) in
            if fails OpenDir \<noteq> None then (err OpenDir, [fs, fs1, fs2, fs3])
            else if fails SyncDir \<noteq> None then (err SyncDir, [fs, fs1, fs2, fs3])
            else if fails CloseDir \<noteq> None then (err CloseDir, [fs, fs1, fs2, fs3])
            else (None, [fs, fs1, fs2, fs3])))))"

section \<open>Lemmas\<close>

lemma persist_states:
  assumes "tmp \<noteq> raftIdentityPath config" "fs' \<in> set (snd (persistRaftIdentity fails tmp n config adr fs))"
  shows "fs' (raftIdentityPath config) \<in> {fs (raftIdentityPath config), Some (identity_text (identity_of config adr))}
    \<and> (\<forall>p. p \<noteq> tmp \<longrightarrow> p \<noteq> raftIdentityPath config \<longrightarrow> fs' p = fs p)"
  using assms by (auto simp: persistRaftIdentity_def Let_def split: if_splits)

lemma persist_last:
  assumes "persistRaftIdentity fails tmp n config adr fs = (None, states)"
  shows "last states (raftIdentityPath config) = Some (identity_text (identity_of config adr))"
  using assms by (auto simp: persistRaftIdentity_def Let_def split: if_splits)

lemma identity_members_shape:
  "identity_members i \<noteq> []" "\<forall>kv \<in> set (identity_members i). json_depth (snd kv) = 0 \<and> plain_numbers (snd kv)"
  by (auto simp: identity_members_def)

definition identity_valid :: "raftIdentity \<Rightarrow> bool" where
  "identity_valid i \<longleftrightarrow> valid_utf8 (IdFormat i) \<and> valid_utf8 (IdNodeID i) \<and> valid_utf8 (IdAdvertiseAddr i)"

lemma coerce_identity_names:
  "coerce ''format'' = ''format''" "coerce ''version'' = ''version''" "coerce ''node_id'' = ''node_id''"
  "coerce ''advertise_addr'' = ''advertise_addr''"
  by (simp_all add: coerce_valid valid_ascii)

lemma decode_identity_members:
  assumes "identity_valid i"
  shows "decode_identity (coerce_json (JObj (identity_members i))) = Some i"
proof -
  have "ParseUint64 (show_nat (unat (IdVersion i))) = Some (IdVersion i)"
    using unsigned_less [of "IdVersion i", where ?'a = nat] by (simp add: ParseUint64_show_nat)
  then show ?thesis
    using assms
    by (simp add: decode_identity_def identity_members_def decode_struct_def identity_fields_def field_of_known
        store_identity_field_def coerce_identity_names decode_uint64_def identity_valid_def coerce_valid)
qed

lemma load_identity_result:
  assumes "identity_valid i" "IdFormat i = raftIdentityFormat" "IdVersion i = raftIdentityVersion"
    and "TrimSpace (IdNodeID i) \<noteq> []" "TrimSpace (IdAdvertiseAddr i) \<noteq> []"
  shows "load_identity (identity_text i) EOF config =
    (if GetRaftId config \<noteq> [] \<and> GetRaftId config \<noteq> IdNodeID i then Inl (IdConflict (GetRaftId config) (IdNodeID i)) else Inr i)"
proof -
  have "next_json EOF (identity_text i) = Value (coerce_json (JObj (identity_members i))) [LF]"
    unfolding identity_text_def by (rule next_json_indent [OF identity_members_shape])
  moreover have "next_json EOF [LF] = AtEOF" by (rule next_json_blank) (simp add: skip_ws_def is_space_def)
  ultimately show ?thesis
    using assms by (simp add: load_identity_def decode_identity_members del: coerce_json.simps)
qed

lemma load_identity_text:
  assumes "identity_valid i" "IdFormat i = raftIdentityFormat" "IdVersion i = raftIdentityVersion"
    and "TrimSpace (IdNodeID i) \<noteq> []" "TrimSpace (IdAdvertiseAddr i) \<noteq> []"
    and "GetRaftId config = [] \<or> GetRaftId config = IdNodeID i"
  shows "load_identity (identity_text i) EOF config = Inr i"
  using load_identity_result [OF assms(1-5), of config] assms(6) by auto

section \<open>Properties\<close>

text \<open>
  C8. The identity file is installed atomically: whatever steps of the installation fail, and at
  whatever moment the process stops, the identity file holds either what it held before or the
  complete new text, and no other file is touched except the temporary one; if the call succeeds the
  new text is in place and the temporary file is gone, and if it fails before the rename the old
  contents are in place.
\<close>

theorem identity_install_atomic:
  assumes "tmp \<noteq> raftIdentityPath config"
    and "persistRaftIdentity fails tmp n config adr fs = (res, states)"
  shows "list_all (\<lambda>fs'. fs' (raftIdentityPath config) \<in> {fs (raftIdentityPath config), Some (identity_text (identity_of config adr))}
      \<and> (\<forall>p. p \<in> {tmp, raftIdentityPath config} \<or> fs' p = fs p)) states
    \<and> (case res of
         None \<Rightarrow> last states (raftIdentityPath config) = Some (identity_text (identity_of config adr)) \<and> last states tmp = None
       | Some (st, e) \<Rightarrow> st \<in> {OpenDir, SyncDir, CloseDir} \<or> last states (raftIdentityPath config) = fs (raftIdentityPath config))"
proof
  show "list_all (\<lambda>fs'. fs' (raftIdentityPath config) \<in> {fs (raftIdentityPath config), Some (identity_text (identity_of config adr))}
      \<and> (\<forall>p. p \<in> {tmp, raftIdentityPath config} \<or> fs' p = fs p)) states"
    using persist_states [OF assms(1), of _ fails n adr fs] assms(2) unfolding list_all_iff by auto
  show "case res of
         None \<Rightarrow> last states (raftIdentityPath config) = Some (identity_text (identity_of config adr)) \<and> last states tmp = None
       | Some (st, e) \<Rightarrow> st \<in> {OpenDir, SyncDir, CloseDir} \<or> last states (raftIdentityPath config) = fs (raftIdentityPath config)"
    using assms by (auto simp: persistRaftIdentity_def Let_def split: if_splits)
qed

definition example_config :: Config where
  "example_config = InitDBConfig (flag_defaults\<lparr>f_raft_id := ''n1'', f_data_dir := ''/d''\<rparr>)"

lemma example_config_facts [simp]:
  "GetRaftId example_config = ''n1''" "raftIdentityPath example_config = ''/d/raft/node.json''"
  by (simp_all add: example_config_def InitDBConfig_def flag_defaults_def GetRaftId_def GetDataDir_def raftIdentityPath_def
      raftIdentityFilename_def TrimSpace_printable printable_def Join_def Clean_def components_def clean_step_def rooted_def
      HasPrefix_def render_def slash_def)

theorem identity_install_atomic_witness:
  "last (snd (persistRaftIdentity (\<lambda>st. if st = WriteTemp then Some ''no space'' else None) ''/d/raft/.node.json-1'' 10
      example_config ''a1'' (\<lambda>_. None))) ''/d/raft/node.json'' = None"
proof -
  let ?fails = "\<lambda>st. if st = WriteTemp then Some ''no space'' else None"
  have "persistRaftIdentity ?fails ''/d/raft/.node.json-1'' 10 example_config ''a1'' (\<lambda>_. None) =
      (Some (WriteTemp, ''no space''), snd (persistRaftIdentity ?fails ''/d/raft/.node.json-1'' 10 example_config ''a1'' (\<lambda>_. None)))"
    by (simp add: persistRaftIdentity_def Let_def)
  from identity_install_atomic [OF _ this] show ?thesis by simp
qed

text \<open>
  An installed identity is found again: after a successful installation, a restart that reads
  the file gets back exactly the identity that was written and adopts its node identity, provided it
  was started with the same identity or with none and the texts are valid UTF-8.
\<close>

lemma identity_roundtrip:
  assumes "persistRaftIdentity fails tmp n config adr fs = (None, states)" "tmp \<noteq> raftIdentityPath config"
    and "last states (raftIdentityPath config) = Some s" "open_file dk (raftIdentityPath config') = Opened s EOF"
    and "GetRaftId config \<noteq> []" "TrimSpace adr \<noteq> []" "valid_utf8 (GetRaftId config)" "valid_utf8 (TrimSpace adr)"
    and "GetRaftId config' = [] \<or> GetRaftId config' = GetRaftId config"
  shows "resolveRaftIdentity dk (Some config') = (Inr (Some (identity_of config adr), True), Some (setRaftID (GetRaftId config) config'))"
proof -
  have s: "s = identity_text (identity_of config adr)"
    using persist_last [OF assms(1)] assms(3) by simp
  have "load_identity s EOF config' = Inr (identity_of config adr)"
    unfolding s using assms(5-9)
    by (intro load_identity_text) (auto simp: identity_of_def identity_valid_def raftIdentityFormat_def valid_ascii)
  then show ?thesis using assms(4) by (simp add: resolveRaftIdentity_def identity_of_def)
qed

end
