(* ===== verification/Membership.thy ===== *)
theory Membership
  imports Replication
begin

text \<open>
  Cluster membership (\<^verbatim>\<open>src/core/raft.go\<close>): a joining node is added without a vote, its catch-up is
  tracked against a target index frozen at that moment, and it is promoted once it reports to have
  applied the log up to the target. The Raft library is a parameter (\<open>member_lib\<close>, over an abstract
  Raft state); \<open>member_contract\<close> states what its documentation promises about configurations. The clock
  is a parameter too: \<open>clock k\<close> is the \<open>k\<close>-th reading of \<^verbatim>\<open>time.Now()\<close> in a call, in nanoseconds.
\<close>

section \<open>Data\<close>

datatype ServerSuffrage = Voter | Nonvoter | Staging | OtherSuffrage int

record Server =
  Suffrage :: ServerSuffrage
  ID :: bytes
  Address :: bytes

datatype ClusterRole = ClusterRoleUnspecified | ClusterRoleVoter | ClusterRoleNonVoter

datatype ClusterMemberState =
    ClusterMemberStateUnspecified | ClusterMemberStateJoining | ClusterMemberStateCatchingUp
  | ClusterMemberStateVoter | ClusterMemberStateFailed

record ClusterMember =
  NodeID :: bytes
  Addr :: bytes
  Role :: ClusterRole
  State :: ClusterMemberState
  AppliedIndex :: uint64
  TargetIndex :: uint64

record ClusterInfo =
  LeaderID :: bytes
  LeaderAddr :: bytes
  LeaderAdminAddr :: bytes
  Members :: "ClusterMember list"

record memberJoinProgress =
  targetIndex :: uint64
  appliedIndex :: uint64
  lastProgressAt :: int

datatype join_error =
    ErrRaftNotEnabled | NotLeaderError bytes | IdAndAddressRequired
  | ConfigurationError bytes | IdentityRegistered bytes bytes | AddressRegistered bytes bytes
  | AddNonvoterError bytes | PromoteError bytes | InfoError bytes

definition NotLeaderError_Error :: "bytes option \<Rightarrow> bytes" where
  \<comment> \<open>the error text; \<open>None\<close> is a nil receiver\<close>
  "NotLeaderError_Error e =
     (case e of
        None \<Rightarrow> ''not leader''
      | Some adr \<Rightarrow> if adr = [] then ''not leader'' else ''not leader (adminAddr='' @ adr @ '')'')"

definition raftJoinFailureTimeout :: int where
  "raftJoinFailureTimeout = 10 * 1000000000"

text \<open>The calls on the Raft instance. \<open>Inl\<close> is the error of a future.\<close>

record 'r member_lib =
  raftState :: "'r \<Rightarrow> raft_state"
  GetConfiguration :: "'r \<Rightarrow> bytes + Server list \<times> uint64"
  AddNonvoter :: "bytes \<Rightarrow> bytes \<Rightarrow> uint64 \<Rightarrow> 'r \<Rightarrow> (bytes + uint64) \<times> 'r"
  AddVoter :: "bytes \<Rightarrow> bytes \<Rightarrow> uint64 \<Rightarrow> 'r \<Rightarrow> (bytes + uint64) \<times> 'r"
  lastApplied :: "'r \<Rightarrow> uint64"
  LeaderWithID :: "'r \<Rightarrow> bytes \<times> bytes"

record 'r RaftNode =
  raft :: 'r
  joinProgress :: "(bytes, memberJoinProgress) mapping"

section \<open>Operations\<close>

definition validateJoiningMember ::
  "'r member_lib \<Rightarrow> 'r RaftNode \<Rightarrow> bytes \<Rightarrow> bytes \<Rightarrow> join_error + Server option \<times> uint64" where
  "validateJoiningMember lib nd nodeID addr =
     (case GetConfiguration lib (raft nd) of
        Inl err \<Rightarrow> Inl (ConfigurationError err)
      | Inr (servers, idx) \<Rightarrow>
          (case List.find (\<lambda>server. ID server = nodeID \<or> Address server = addr) servers of
             None \<Rightarrow> Inr (None, idx)
           | Some server \<Rightarrow>
               if ID server = nodeID \<and> Address server = addr then Inr (Some server, idx)
               else if ID server = nodeID then Inl (IdentityRegistered nodeID (Address server))
               else Inl (AddressRegistered addr (ID server))))"

definition recordJoinProgress ::
  "'r member_lib \<Rightarrow> bytes \<Rightarrow> uint64 \<Rightarrow> uint64 \<Rightarrow> int \<Rightarrow> 'r RaftNode \<Rightarrow> memberJoinProgress \<times> 'r RaftNode" where
  "recordJoinProgress lib i target aidx now nd =
     (let progress =
        (case Mapping.lookup (joinProgress nd) i of
           Some pr \<Rightarrow> pr
         | None \<Rightarrow>
             \<lparr>targetIndex = (if target = 0 then lastApplied lib (raft nd) else target),
              appliedIndex = 0, lastProgressAt = now\<rparr>);
          progress' =
        (if appliedIndex progress < aidx then progress\<lparr>appliedIndex := aidx, lastProgressAt := now\<rparr>
         else progress)
      in (progress', nd\<lparr>joinProgress := Mapping.update i progress' (joinProgress nd)\<rparr>))"

definition clearJoinProgress :: "bytes \<Rightarrow> 'r RaftNode \<Rightarrow> 'r RaftNode" where
  "clearJoinProgress i nd = nd\<lparr>joinProgress := Mapping.delete i (joinProgress nd)\<rparr>"

definition progress_state :: "memberJoinProgress \<Rightarrow> int \<Rightarrow> ClusterMemberState" where
  "progress_state progress now =
     (if appliedIndex progress < targetIndex progress \<and> raftJoinFailureTimeout \<le> now - lastProgressAt progress
      then ClusterMemberStateFailed
      else if 0 < appliedIndex progress then ClusterMemberStateCatchingUp
      else ClusterMemberStateJoining)"

definition clusterMemberProgress ::
  "'r member_lib \<Rightarrow> Server \<Rightarrow> int \<Rightarrow> 'r RaftNode \<Rightarrow> (ClusterMemberState \<times> uint64 \<times> uint64) \<times> 'r RaftNode" where
  "clusterMemberProgress lib server now nd =
     (if Suffrage server = Voter then ((ClusterMemberStateVoter, 0, 0), nd)
      else
        (let (progress, nd') = recordJoinProgress lib (ID server) 0 0 now nd
         in ((progress_state progress now, appliedIndex progress, targetIndex progress), nd')))"

definition roleFromSuffrage :: "ServerSuffrage \<Rightarrow> ClusterRole" where
  "roleFromSuffrage s =
     (case s of
        Voter \<Rightarrow> ClusterRoleVoter
      | Nonvoter \<Rightarrow> ClusterRoleNonVoter
      | Staging \<Rightarrow> ClusterRoleNonVoter
      | OtherSuffrage _ \<Rightarrow> ClusterRoleUnspecified)"

fun collectMembers :: "'r member_lib \<Rightarrow> (nat \<Rightarrow> int) \<Rightarrow> Server list \<Rightarrow> 'r RaftNode \<Rightarrow> ClusterMember list \<times> 'r RaftNode" where
  "collectMembers lib clock [] nd = ([], nd)"
| "collectMembers lib clock (srv # srvs) nd =
     (let ((st, aidx, tidx), nd1) = clusterMemberProgress lib srv (clock 0) nd;
          (ms, nd2) = collectMembers lib (\<lambda>k. clock (Suc k)) srvs nd1
      in (\<lparr>NodeID = ID srv, Addr = Address srv, Role = roleFromSuffrage (Suffrage srv), State = st,
           AppliedIndex = aidx, TargetIndex = tidx\<rparr> # ms, nd2))"

definition buildClusterInfoForNode ::
  "'r member_lib \<Rightarrow> bytes \<Rightarrow> (nat \<Rightarrow> int) \<Rightarrow> 'r RaftNode \<Rightarrow> (join_error + ClusterInfo) \<times> 'r RaftNode" where
  "buildClusterInfoForNode lib leaderAdmin clock nd =
     (case GetConfiguration lib (raft nd) of
        Inl err \<Rightarrow> (Inl (InfoError err), nd)
      | Inr (servers, _) \<Rightarrow>
          (let (leaderAddr, leaderID) = LeaderWithID lib (raft nd);
               (ms, nd') = collectMembers lib clock servers nd
           in (Inr \<lparr>LeaderID = leaderID, LeaderAddr = leaderAddr, LeaderAdminAddr = leaderAdmin, Members = ms\<rparr>, nd')))"

definition buildClusterInfo ::
  "'r member_lib \<Rightarrow> bytes \<Rightarrow> (nat \<Rightarrow> int) \<Rightarrow> 'r RaftNode option \<Rightarrow> (join_error + ClusterInfo) \<times> 'r RaftNode option" where
  "buildClusterInfo lib leaderAdmin clock raftNode =
     (case raftNode of
        None \<Rightarrow> (Inl ErrRaftNotEnabled, None)
      | Some nd \<Rightarrow> map_prod id Some (buildClusterInfoForNode lib leaderAdmin clock nd))"

text \<open>\<open>join_member\<close> is the part of \<^verbatim>\<open>JoinClusterWithProgress\<close> under the membership lock.\<close>

definition join_member ::
  "'r member_lib \<Rightarrow> bytes \<Rightarrow> (nat \<Rightarrow> int) \<Rightarrow> bytes \<Rightarrow> bytes \<Rightarrow> uint64 \<Rightarrow> 'r RaftNode \<Rightarrow>
   (join_error + ClusterInfo) \<times> 'r RaftNode" where
  "join_member lib leaderAdmin clock nodeID addr aidx nd =
     (case validateJoiningMember lib nd nodeID addr of
        Inl err \<Rightarrow> (Inl err, nd)
      | Inr (Some member, configurationIndex) \<Rightarrow>
          if Suffrage member = Voter then
            buildClusterInfoForNode lib leaderAdmin clock (clearJoinProgress (ID member) nd)
          else
            (let (progress, nd1) = recordJoinProgress lib nodeID 0 aidx (clock 0) nd in
             if aidx < targetIndex progress then
               buildClusterInfoForNode lib leaderAdmin (\<lambda>k. clock (Suc k)) nd1
             else
               (case AddVoter lib nodeID addr configurationIndex (raft nd1) of
                  (Inl err, r) \<Rightarrow> (Inl (PromoteError err), nd1\<lparr>raft := r\<rparr>)
                | (Inr _, r) \<Rightarrow>
                    buildClusterInfoForNode lib leaderAdmin (\<lambda>k. clock (Suc k))
                      (clearJoinProgress nodeID (nd1\<lparr>raft := r\<rparr>))))
      | Inr (None, configurationIndex) \<Rightarrow>
          (case AddNonvoter lib nodeID addr configurationIndex (raft nd) of
             (Inl err, r) \<Rightarrow> (Inl (AddNonvoterError err), nd\<lparr>raft := r\<rparr>)
           | (Inr idx, r) \<Rightarrow>
               (let nd1 = nd\<lparr>raft := r\<rparr>;
                    target = max idx (lastApplied lib r);
                    (_, nd2) = recordJoinProgress lib nodeID target aidx (clock 0) nd1
                in buildClusterInfoForNode lib leaderAdmin (\<lambda>k. clock (Suc k)) nd2)))"

definition JoinClusterWithProgress ::
  "'r member_lib \<Rightarrow> bytes \<Rightarrow> (nat \<Rightarrow> int) \<Rightarrow> bytes \<Rightarrow> bytes \<Rightarrow> uint64 \<Rightarrow> 'r RaftNode option \<Rightarrow>
   (join_error + ClusterInfo) \<times> 'r RaftNode option" where
  "JoinClusterWithProgress lib leaderAdmin clock nodeID addr aidx raftNode =
     (case raftNode of
        None \<Rightarrow> (Inl ErrRaftNotEnabled, None)
      | Some nd \<Rightarrow>
          if raftState lib (raft nd) \<noteq> Leader then (Inl (NotLeaderError leaderAdmin), Some nd)
          else
            (let nodeID = TrimSpace nodeID; addr = TrimSpace addr in
             if nodeID = [] \<or> addr = [] then (Inl IdAndAddressRequired, Some nd)
             else map_prod id Some (join_member lib leaderAdmin clock nodeID addr aidx nd)))"

definition JoinCluster ::
  "'r member_lib \<Rightarrow> bytes \<Rightarrow> (nat \<Rightarrow> int) \<Rightarrow> bytes \<Rightarrow> bytes \<Rightarrow> 'r RaftNode option \<Rightarrow>
   (join_error + ClusterInfo) \<times> 'r RaftNode option" where
  "JoinCluster lib leaderAdmin clock nodeID addr raftNode =
     JoinClusterWithProgress lib leaderAdmin clock nodeID addr 0 raftNode"

section \<open>Tracking progress\<close>

text \<open>
  The contract of the progress table: the first report of a member freezes its target, later
  reports only raise the applied index, and reports of one member do not touch another.
\<close>

locale progress_tracker =
  fixes report :: "bytes \<Rightarrow> uint64 \<Rightarrow> uint64 \<Rightarrow> int \<Rightarrow> 's \<Rightarrow> memberJoinProgress \<times> 's"
    and clear :: "bytes \<Rightarrow> 's \<Rightarrow> 's"
    and progress :: "'s \<Rightarrow> bytes \<Rightarrow> memberJoinProgress option"
  assumes report_result: "progress (snd (report i t a now s)) i = Some (fst (report i t a now s))"
    and report_target: "progress s i = Some pr \<Longrightarrow> targetIndex (fst (report i t a now s)) = targetIndex pr"
    and report_applied: "progress s i = Some pr \<Longrightarrow> appliedIndex (fst (report i t a now s)) = max (appliedIndex pr) a"
    and report_other: "j \<noteq> i \<Longrightarrow> progress (snd (report i t a now s)) j = progress s j"
    and clear_progress: "progress (clear i s) j = (if j = i then None else progress s j)"
begin

definition reports :: "bytes \<Rightarrow> (uint64 \<times> uint64 \<times> int) list \<Rightarrow> 's \<Rightarrow> 's" where
  "reports i rs s = foldl (\<lambda>s (t, a, now). snd (report i t a now s)) s rs"

lemma reports_simps [simp]:
  "reports i [] s = s" "reports i ((t, a, now) # rs) s = reports i rs (snd (report i t a now s))"
  by (simp_all add: reports_def)

theorem tracked_progress:
  assumes "progress s i = Some pr"
  shows "\<exists>pr'. progress (reports i rs s) i = Some pr' \<and> targetIndex pr' = targetIndex pr \<and>
    appliedIndex pr' = foldl max (appliedIndex pr) (map (\<lambda>(t, a, now). a) rs)"
  using assms
proof (induction rs arbitrary: s pr)
  case (Cons r rs)
  obtain t a now where r: "r = (t, a, now)" by (cases r)
  have "progress (snd (report i t a now s)) i = Some (fst (report i t a now s))" by (rule report_result)
  from Cons.IH [OF this] report_target [OF Cons.prems] report_applied [OF Cons.prems]
  show ?case by (simp add: r)
qed simp

end

definition progress_of :: "'r RaftNode \<Rightarrow> bytes \<Rightarrow> memberJoinProgress option" where
  "progress_of nd i = Mapping.lookup (joinProgress nd) i"

lemma recordJoinProgress_raft [simp]: "raft (snd (recordJoinProgress lib i t a now nd)) = raft nd"
  by (simp add: recordJoinProgress_def Let_def)

lemma record_result: "progress_of (snd (recordJoinProgress lib i t a now nd)) i = Some (fst (recordJoinProgress lib i t a now nd))"
  by (simp add: recordJoinProgress_def progress_of_def Let_def)

lemma record_other: "j \<noteq> i \<Longrightarrow> progress_of (snd (recordJoinProgress lib i t a now nd)) j = progress_of nd j"
  by (simp add: recordJoinProgress_def progress_of_def Let_def lookup_update')

lemma record_existing:
  "progress_of nd i = Some pr \<Longrightarrow>
   fst (recordJoinProgress lib i t a now nd) =
     (if appliedIndex pr < a then pr\<lparr>appliedIndex := a, lastProgressAt := now\<rparr> else pr)"
  by (simp add: recordJoinProgress_def progress_of_def Let_def)

lemma record_fresh:
  "progress_of nd i = None \<Longrightarrow>
   targetIndex (fst (recordJoinProgress lib i t a now nd)) = (if t = 0 then lastApplied lib (raft nd) else t) \<and>
   appliedIndex (fst (recordJoinProgress lib i t a now nd)) = a"
  by (auto simp: recordJoinProgress_def progress_of_def Let_def word_gt_0)

interpretation tracker: progress_tracker "recordJoinProgress lib" clearJoinProgress progress_of for lib :: "'r member_lib"
proof unfold_locales
  fix i t a now and s :: "'r RaftNode" and pr
  show "progress_of s i = Some pr \<Longrightarrow> targetIndex (fst (recordJoinProgress lib i t a now s)) = targetIndex pr"
    "progress_of s i = Some pr \<Longrightarrow> appliedIndex (fst (recordJoinProgress lib i t a now s)) = max (appliedIndex pr) a"
    by (auto simp: record_existing max_def)
  show "progress_of (snd (recordJoinProgress lib i t a now s)) i = Some (fst (recordJoinProgress lib i t a now s))"
    by (rule record_result)
  show "j \<noteq> i \<Longrightarrow> progress_of (snd (recordJoinProgress lib i t a now s)) j = progress_of s j" for j
    by (rule record_other)
  show "progress_of (clearJoinProgress i s) j = (if j = i then None else progress_of s j)" for j
    by (simp add: clearJoinProgress_def progress_of_def lookup_delete_fun)
qed

text \<open>How progress evolves: every entry is kept, with its target, and its applied index does not fall.\<close>

definition kept_where :: "(bytes \<Rightarrow> bool) \<Rightarrow> 'r RaftNode \<Rightarrow> 'r RaftNode \<Rightarrow> bool" where
  "kept_where P nd nd' \<longleftrightarrow> (\<forall>i pr. P i \<longrightarrow> progress_of nd i = Some pr \<longrightarrow>
     (\<exists>pr'. progress_of nd' i = Some pr' \<and> targetIndex pr' = targetIndex pr \<and> appliedIndex pr \<le> appliedIndex pr'))"

abbreviation progress_kept :: "'r RaftNode \<Rightarrow> 'r RaftNode \<Rightarrow> bool" where
  "progress_kept \<equiv> kept_where (\<lambda>_. True)"

lemma kept_refl [simp]: "kept_where P nd nd"
  by (simp add: kept_where_def)

lemma kept_trans: "kept_where P a b \<Longrightarrow> kept_where P b c \<Longrightarrow> kept_where P a c"
proof -
  assume ab: "kept_where P a b" and bc: "kept_where P b c"
  show ?thesis unfolding kept_where_def
  proof (intro allI impI)
    fix i pr assume P: "P i" and "progress_of a i = Some pr"
    with ab obtain p1 where p1: "progress_of b i = Some p1" "targetIndex p1 = targetIndex pr" "appliedIndex pr \<le> appliedIndex p1"
      unfolding kept_where_def by blast
    from P p1(1) bc obtain p2 where "progress_of c i = Some p2" "targetIndex p2 = targetIndex p1" "appliedIndex p1 \<le> appliedIndex p2"
      unfolding kept_where_def by blast
    with p1 show "\<exists>pr'. progress_of c i = Some pr' \<and> targetIndex pr' = targetIndex pr \<and> appliedIndex pr \<le> appliedIndex pr'"
      by auto
  qed
qed

lemma kept_weaken: "progress_kept a b \<Longrightarrow> kept_where P a b"
  by (simp add: kept_where_def)

lemma progress_of_raft [simp]: "progress_of (nd\<lparr>raft := r\<rparr>) = progress_of nd"
  by (simp add: progress_of_def fun_eq_iff)

lemma record_kept: "progress_kept nd (snd (recordJoinProgress lib i t a now nd))"
  unfolding kept_where_def
proof (intro allI impI)
  fix j pr assume p: "progress_of nd j = Some pr"
  show "\<exists>pr'. progress_of (snd (recordJoinProgress lib i t a now nd)) j = Some pr' \<and>
      targetIndex pr' = targetIndex pr \<and> appliedIndex pr \<le> appliedIndex pr'"
  proof (cases "j = i")
    case True
    with p tracker.report_target [of nd i pr lib t a now] tracker.report_applied [of nd i pr lib t a now]
    show ?thesis by (simp add: record_result)
  next
    case False
    from p record_other [OF False, of lib t a now nd] show ?thesis by simp
  qed
qed

lemma clusterMemberProgress_kept:
  "raft (snd (clusterMemberProgress lib srv now nd)) = raft nd \<and> progress_kept nd (snd (clusterMemberProgress lib srv now nd))"
  using record_kept [of nd lib "ID srv" 0 0 now] recordJoinProgress_raft [of lib "ID srv" 0 0 now nd]
  by (cases "recordJoinProgress lib (ID srv) 0 0 now nd") (simp add: clusterMemberProgress_def)

lemma collectMembers_kept:
  "raft (snd (collectMembers lib clock srvs nd)) = raft nd \<and> progress_kept nd (snd (collectMembers lib clock srvs nd))"
proof (induction srvs arbitrary: nd clock)
  case (Cons srv srvs)
  obtain st a t nd1 where c: "clusterMemberProgress lib srv (clock 0) nd = ((st, a, t), nd1)" by (metis surj_pair)
  obtain ms nd2 where m: "collectMembers lib (\<lambda>k. clock (Suc k)) srvs nd1 = (ms, nd2)" by fastforce
  show ?case
    using clusterMemberProgress_kept [of lib srv "clock 0" nd] Cons.IH [of "\<lambda>k. clock (Suc k)" nd1] c m
    by (auto intro: kept_trans)
qed simp

lemma build_kept:
  "raft (snd (buildClusterInfoForNode lib la clock nd)) = raft nd \<and>
   progress_kept nd (snd (buildClusterInfoForNode lib la clock nd))"
  using collectMembers_kept [of lib clock _ nd]
  by (auto simp: buildClusterInfoForNode_def split: sum.split prod.split) (metis snd_conv)+

section \<open>Configurations\<close>

definition config_of :: "'r member_lib \<Rightarrow> 'r \<Rightarrow> Server list option" where
  "config_of lib r = (case GetConfiguration lib r of Inr (servers, _) \<Rightarrow> Some servers | Inl _ \<Rightarrow> None)"

definition new_nonvoter :: "bytes \<Rightarrow> bytes \<Rightarrow> Server" where
  "new_nonvoter i a = \<lparr>Suffrage = Nonvoter, ID = i, Address = a\<rparr>"

definition promote :: "bytes \<Rightarrow> bytes \<Rightarrow> Server list \<Rightarrow> Server list" where
  "promote i a servers = map (\<lambda>s. if ID s = i then \<lparr>Suffrage = Voter, ID = i, Address = a\<rparr> else s) servers"

text \<open>
  What the library documents: adding a server that is not in the configuration appends it without a
  vote, adding a voter that is in it replaces its entry; a change whose future failed may still
  have been made.
\<close>

definition member_contract :: "'r member_lib \<Rightarrow> bool" where
  "member_contract lib \<longleftrightarrow>
     (\<forall>i a prev r res r' servers. config_of lib r = Some servers \<longrightarrow> i \<notin> ID ` set servers \<longrightarrow>
        AddNonvoter lib i a prev r = (res, r') \<longrightarrow>
        config_of lib r' = Some (servers @ [new_nonvoter i a]) \<or> isl res \<and> config_of lib r' = Some servers) \<and>
     (\<forall>i a prev r res r' servers. config_of lib r = Some servers \<longrightarrow> i \<in> ID ` set servers \<longrightarrow>
        AddVoter lib i a prev r = (res, r') \<longrightarrow>
        config_of lib r' = Some (promote i a servers) \<or> isl res \<and> config_of lib r' = Some servers)"

lemma contract_AddNonvoter:
  assumes "member_contract lib" "config_of lib r = Some servers" "i \<notin> ID ` set servers" "AddNonvoter lib i a prev r = (res, r')"
  shows "config_of lib r' = Some (servers @ [new_nonvoter i a]) \<or> isl res \<and> config_of lib r' = Some servers"
  using assms(1) [unfolded member_contract_def, THEN conjunct1, rule_format, OF assms(2-4)] .

lemma contract_AddVoter:
  assumes "member_contract lib" "config_of lib r = Some servers" "i \<in> ID ` set servers" "AddVoter lib i a prev r = (res, r')"
  shows "config_of lib r' = Some (promote i a servers) \<or> isl res \<and> config_of lib r' = Some servers"
  using assms(1) [unfolded member_contract_def, THEN conjunct2, rule_format, OF assms(2-4)] .

definition unique_members :: "Server list \<Rightarrow> bool" where
  "unique_members servers \<longleftrightarrow> distinct (map ID servers) \<and> distinct (map Address servers)"

lemma find_member:
  assumes "unique_members servers" "s \<in> set servers"
  shows "List.find (\<lambda>x. ID x = ID s \<or> Address x = Address s) servers = Some s"
  using assms
proof (induction servers)
  case (Cons x servers)
  show ?case
  proof (cases "x = s")
    case False
    then have "s \<in> set servers" using Cons.prems(2) by simp
    then have "ID x \<noteq> ID s" "Address x \<noteq> Address s" using Cons.prems(1) by (auto simp: unique_members_def)
    with Cons \<open>s \<in> set servers\<close> show ?thesis by (auto simp: unique_members_def)
  qed simp
qed simp

lemma find_NoneD: "List.find P xs = None \<Longrightarrow> x \<in> set xs \<Longrightarrow> \<not> P x"
  by (induction xs) (auto split: if_splits)

lemma find_SomeD: "List.find P xs = Some x \<Longrightarrow> x \<in> set xs \<and> P x"
  by (induction xs) (auto split: if_splits)

lemma validate_member:
  assumes "config_of lib (raft nd) = Some servers" "unique_members servers" "s \<in> set servers"
  shows "\<exists>idx. validateJoiningMember lib nd (ID s) (Address s) = Inr (Some s, idx)"
  using assms find_member [OF assms(2,3)]
  by (auto simp: validateJoiningMember_def config_of_def split: sum.splits)

lemma validate_result:
  assumes "validateJoiningMember lib nd i a = Inr (m, idx)"
  shows "\<exists>servers. config_of lib (raft nd) = Some servers \<and>
    (case m of
       None \<Rightarrow> i \<notin> ID ` set servers \<and> a \<notin> Address ` set servers
     | Some s \<Rightarrow> s \<in> set servers \<and> ID s = i \<and> Address s = a)"
proof -
  obtain servers idx' where c: "GetConfiguration lib (raft nd) = Inr (servers, idx')"
    using assms by (auto simp: validateJoiningMember_def split: sum.splits)
  show ?thesis
  proof (cases "List.find (\<lambda>s. ID s = i \<or> Address s = a) servers")
    case None
    then show ?thesis using assms c find_NoneD [OF None] by (auto simp: validateJoiningMember_def config_of_def)
  next
    case (Some s)
    then have "ID s = i \<and> Address s = a" "m = Some s"
      using assms c by (auto simp: validateJoiningMember_def split: if_splits)
    then show ?thesis using c find_SomeD [OF Some] by (simp add: config_of_def)
  qed
qed

lemma unique_append: "unique_members servers \<Longrightarrow> i \<notin> ID ` set servers \<Longrightarrow> a \<notin> Address ` set servers \<Longrightarrow>
    unique_members (servers @ [new_nonvoter i a])"
  by (auto simp: unique_members_def new_nonvoter_def)

lemma promote_id:
  assumes "unique_members servers" "s \<in> set servers" "ID s = i" "Address s = a"
  shows "map ID (promote i a servers) = map ID servers" "map Address (promote i a servers) = map Address servers"
proof -
  have "x = s" if "x \<in> set servers" "ID x = i" for x
    using assms that by (auto simp: unique_members_def distinct_map dest: inj_onD)
  then show "map ID (promote i a servers) = map ID servers" "map Address (promote i a servers) = map Address servers"
    using assms(4) by (auto simp: promote_def)
qed

lemma unique_promote:
  "unique_members servers \<Longrightarrow> s \<in> set servers \<Longrightarrow> unique_members (promote (ID s) (Address s) servers)"
  using promote_id [of servers s] by (simp add: unique_members_def)

section \<open>The branches of a join\<close>

lemma join_cases:
  obtains (rejected) e where "join_member lib la clock i a aidx nd = (Inl e, nd)"
  | (not_added) idx e r where "validateJoiningMember lib nd i a = Inr (None, idx)"
      "AddNonvoter lib i a idx (raft nd) = (Inl e, r)"
      "join_member lib la clock i a aidx nd = (Inl (AddNonvoterError e), nd\<lparr>raft := r\<rparr>)"
  | (added) idx n r where "validateJoiningMember lib nd i a = Inr (None, idx)"
      "AddNonvoter lib i a idx (raft nd) = (Inr n, r)"
      "join_member lib la clock i a aidx nd = buildClusterInfoForNode lib la (\<lambda>k. clock (Suc k))
         (snd (recordJoinProgress lib i (max n (lastApplied lib r)) aidx (clock 0) (nd\<lparr>raft := r\<rparr>)))"
  | (voter) s idx where "validateJoiningMember lib nd i a = Inr (Some s, idx)" "Suffrage s = Voter"
      "join_member lib la clock i a aidx nd = buildClusterInfoForNode lib la clock (clearJoinProgress i nd)"
  | (waiting) s idx where "validateJoiningMember lib nd i a = Inr (Some s, idx)" "Suffrage s \<noteq> Voter"
      "aidx < targetIndex (fst (recordJoinProgress lib i 0 aidx (clock 0) nd))"
      "join_member lib la clock i a aidx nd = buildClusterInfoForNode lib la (\<lambda>k. clock (Suc k))
         (snd (recordJoinProgress lib i 0 aidx (clock 0) nd))"
  | (not_promoted) s idx e r where "validateJoiningMember lib nd i a = Inr (Some s, idx)" "Suffrage s \<noteq> Voter"
      "targetIndex (fst (recordJoinProgress lib i 0 aidx (clock 0) nd)) \<le> aidx"
      "AddVoter lib i a idx (raft nd) = (Inl e, r)"
      "join_member lib la clock i a aidx nd = (Inl (PromoteError e), (snd (recordJoinProgress lib i 0 aidx (clock 0) nd))\<lparr>raft := r\<rparr>)"
  | (promoted) s idx n r where "validateJoiningMember lib nd i a = Inr (Some s, idx)" "Suffrage s \<noteq> Voter"
      "targetIndex (fst (recordJoinProgress lib i 0 aidx (clock 0) nd)) \<le> aidx"
      "AddVoter lib i a idx (raft nd) = (Inr n, r)"
      "join_member lib la clock i a aidx nd = buildClusterInfoForNode lib la (\<lambda>k. clock (Suc k))
         (clearJoinProgress i ((snd (recordJoinProgress lib i 0 aidx (clock 0) nd))\<lparr>raft := r\<rparr>))"
proof (cases "validateJoiningMember lib nd i a")
  case (Inl e)
  then show ?thesis by (intro rejected) (simp add: join_member_def)
next
  case (Inr v)
  obtain m idx where v: "validateJoiningMember lib nd i a = Inr (m, idx)" using Inr by (cases v) simp
  show ?thesis
  proof (cases m)
    case None
    obtain res r where an: "AddNonvoter lib i a idx (raft nd) = (res, r)" by fastforce
    with None v not_added added show ?thesis
      by (cases res) (auto simp: join_member_def Let_def split: prod.splits)
  next
    case (Some s)
    have sid: "ID s = i" using validate_result [OF v] Some by auto
    obtain pr nd1 where rec: "recordJoinProgress lib i 0 aidx (clock 0) nd = (pr, nd1)" by fastforce
    have r1: "raft nd1 = raft nd" using recordJoinProgress_raft [of lib i 0 aidx "clock 0" nd] rec by simp
    obtain res r where av: "AddVoter lib i a idx (raft nd) = (res, r)" by fastforce
    show ?thesis
    proof (cases "Suffrage s = Voter")
      case True
      with Some v sid voter show ?thesis by (simp add: join_member_def)
    next
      case False
      note f = v [unfolded Some] False
      show ?thesis
      proof (cases "aidx < targetIndex pr")
        case True
        with f rec waiting show ?thesis by (simp add: join_member_def)
      next
        case ge: False
        then have "targetIndex pr \<le> aidx" by simp
        with ge f rec av r1 not_promoted promoted show ?thesis
          by (cases res) (auto simp: join_member_def)
      qed
    qed
  qed
qed

definition target_for :: "'r member_lib \<Rightarrow> 'r RaftNode \<Rightarrow> bytes \<Rightarrow> uint64" where
  "target_for lib nd i = (case progress_of nd i of Some pr \<Rightarrow> targetIndex pr | None \<Rightarrow> lastApplied lib (raft nd))"

lemma record_target: "targetIndex (fst (recordJoinProgress lib i 0 aidx now nd)) = target_for lib nd i"
  using tracker.report_target [of nd i _ lib 0 aidx now] record_fresh [of nd i lib 0 aidx now]
  by (auto simp: target_for_def split: option.split)

lemma clear_kept: "kept_where (\<lambda>j. j \<noteq> i) nd (clearJoinProgress i nd)"
  using tracker.clear_progress [of i nd] by (simp add: kept_where_def)

lemma raft_update_kept [simp]: "kept_where P nd (nd'\<lparr>raft := r\<rparr>) = kept_where P nd nd'" "kept_where P (nd\<lparr>raft := r\<rparr>) nd' = kept_where P nd nd'"
  by (simp_all add: kept_where_def)

lemmas kept_steps = build_kept [THEN conjunct2, THEN kept_weaken] record_kept [THEN kept_weaken] clear_kept

lemma join_member_kept: "kept_where (\<lambda>j. j \<noteq> i) nd (snd (join_member lib la clock i a aidx nd))"
proof (cases rule: join_cases [of lib la clock i a aidx nd])
  case (added idx n r)
  have "kept_where (\<lambda>j. j \<noteq> i) nd (snd (recordJoinProgress lib i (max n (lastApplied lib r)) aidx (clock 0) (nd\<lparr>raft := r\<rparr>)))"
    using kept_steps(2) [of "\<lambda>j. j \<noteq> i" "nd\<lparr>raft := r\<rparr>"] by simp
  then show ?thesis unfolding added(3) by (rule kept_trans) (rule kept_steps(1))
next
  case (voter s idx)
  show ?thesis unfolding voter(3) by (rule kept_trans [OF clear_kept kept_steps(1)])
next
  case (waiting s idx)
  show ?thesis unfolding waiting(4) by (rule kept_trans [OF kept_steps(2) kept_steps(1)])
next
  case (promoted s idx n r)
  have "kept_where (\<lambda>j. j \<noteq> i) nd (clearJoinProgress i ((snd (recordJoinProgress lib i 0 aidx (clock 0) nd))\<lparr>raft := r\<rparr>))"
    by (rule kept_trans [OF _ clear_kept]) (simp add: kept_steps(2))
  then show ?thesis unfolding promoted(5) by (rule kept_trans) (rule kept_steps(1))
qed (simp_all add: kept_steps)

lemma raft_clear [simp]: "raft (clearJoinProgress i nd) = raft nd"
  by (simp add: clearJoinProgress_def)

lemmas raft_build [simp] = build_kept [THEN conjunct1]

lemma join_member_unique:
  assumes "member_contract lib" "config_of lib (raft nd) = Some servers" "unique_members servers"
  shows "\<exists>servers'. config_of lib (raft (snd (join_member lib la clock i a aidx nd))) = Some servers' \<and> unique_members servers'"
proof -
  have nonvoter: "\<exists>servers'. config_of lib r = Some servers' \<and> unique_members servers'"
    if "validateJoiningMember lib nd i a = Inr (None, idx)" "AddNonvoter lib i a idx (raft nd) = (res, r)" for idx res r
  proof -
    have "i \<notin> ID ` set servers" "a \<notin> Address ` set servers"
      using validate_result [OF that(1)] assms(2) by auto
    then show ?thesis
      using contract_AddNonvoter [OF assms(1,2) _ that(2)] unique_append [OF assms(3)] assms(3) by auto
  qed
  have voter: "\<exists>servers'. config_of lib r = Some servers' \<and> unique_members servers'"
    if "validateJoiningMember lib nd i a = Inr (Some s, idx)" "AddVoter lib i a idx (raft nd) = (res, r)" for s idx res r
  proof -
    have s: "s \<in> set servers" "ID s = i" "Address s = a" using validate_result [OF that(1)] assms(2) by auto
    have "unique_members (promote i a servers)" using unique_promote [OF assms(3) s(1)] s by simp
    moreover have "i \<in> ID ` set servers" using s by auto
    then have "config_of lib r = Some (promote i a servers) \<or> config_of lib r = Some servers"
      using contract_AddVoter [OF assms(1,2) _ that(2)] by blast
    ultimately show ?thesis using assms(3) by auto
  qed
  show ?thesis
    by (cases rule: join_cases [of lib la clock i a aidx nd]) (use assms nonvoter voter in auto)
qed

lemma collectMembers_fields:
  "map (\<lambda>m. (NodeID m, Addr m, Role m)) (fst (collectMembers lib clock srvs nd)) =
   map (\<lambda>s. (ID s, Address s, roleFromSuffrage (Suffrage s))) srvs"
proof (induction srvs arbitrary: clock nd)
  case (Cons srv srvs)
  obtain st x y nd1 where c: "clusterMemberProgress lib srv (clock 0) nd = ((st, x, y), nd1)" by (metis surj_pair)
  obtain ms nd2 where m: "collectMembers lib (\<lambda>k. clock (Suc k)) srvs nd1 = (ms, nd2)" by fastforce
  show ?case using Cons.IH [of "\<lambda>k. clock (Suc k)" nd1] c m by simp
qed simp

lemma build_members:
  assumes "config_of lib (raft nd) = Some servers"
  shows "\<exists>info. fst (buildClusterInfoForNode lib la clock nd) = Inr info \<and>
    map (\<lambda>m. (NodeID m, Addr m, Role m)) (Members info) = map (\<lambda>s. (ID s, Address s, roleFromSuffrage (Suffrage s))) servers"
proof -
  obtain idx where c: "GetConfiguration lib (raft nd) = Inr (servers, idx)"
    using assms by (auto simp: config_of_def split: sum.splits)
  obtain ms nd' where m: "collectMembers lib clock servers nd = (ms, nd')" by fastforce
  obtain x y where l: "LeaderWithID lib (raft nd) = (x, y)" by fastforce
  show ?thesis using c m l collectMembers_fields [of lib clock servers nd] by (simp add: buildClusterInfoForNode_def)
qed

text \<open>A node's life under any sequence of membership calls, with Raft progressing on its own in between.\<close>

inductive member_reach :: "'r member_lib \<Rightarrow> 'r RaftNode \<Rightarrow> 'r RaftNode \<Rightarrow> bool" for lib nd0 where
  start: "member_reach lib nd0 nd0"
| joined: "member_reach lib nd0 nd \<Longrightarrow>
    JoinClusterWithProgress lib la clock nodeID addr aidx (Some nd) = (res, Some nd') \<Longrightarrow> member_reach lib nd0 nd'"
| inspected: "member_reach lib nd0 nd \<Longrightarrow> buildClusterInfo lib la clock (Some nd) = (res, Some nd') \<Longrightarrow> member_reach lib nd0 nd'"
| raft_moved: "member_reach lib nd0 nd \<Longrightarrow> config_of lib r = config_of lib (raft nd) \<Longrightarrow> member_reach lib nd0 (nd\<lparr>raft := r\<rparr>)"

lemma Join_member_branch:
  assumes "JoinClusterWithProgress lib la clock nodeID addr aidx (Some nd) = (res, Some nd')"
  shows "nd' = nd \<or> nd' = snd (join_member lib la clock (TrimSpace nodeID) (TrimSpace addr) aidx nd)"
  using assms by (auto simp: JoinClusterWithProgress_def Let_def split: if_splits)
    (metis prod.collapse map_prod_simp option.inject snd_conv snd_map_prod)

lemma Join_leader:
  assumes "raftState lib (raft nd) = Leader" "TrimSpace nodeID = i" "TrimSpace addr = a" "i \<noteq> []" "a \<noteq> []"
  shows "JoinClusterWithProgress lib la clock nodeID addr aidx (Some nd) =
    map_prod id Some (join_member lib la clock i a aidx nd)"
  using assms by (simp add: JoinClusterWithProgress_def)

lemma member_reach_unique:
  assumes "member_reach lib nd0 nd" "member_contract lib" "config_of lib (raft nd0) = Some servers0" "unique_members servers0"
  shows "\<exists>servers. config_of lib (raft nd) = Some servers \<and> unique_members servers"
  using assms(1)
proof (induction rule: member_reach.induct)
  case start
  then show ?case using assms by simp
next
  case (joined nd la clock nodeID addr aidx res nd')
  then show ?case using Join_member_branch [OF joined.hyps(2)] join_member_unique [OF assms(2)] by metis
next
  case (inspected nd la clock res nd')
  then have "nd' = snd (buildClusterInfoForNode lib la clock nd)"
    by (cases "buildClusterInfoForNode lib la clock nd") (simp add: buildClusterInfo_def)
  then have "raft nd' = raft nd" by simp
  with inspected show ?case by simp
qed simp

section \<open>A Raft library for the witnesses\<close>

text \<open>One leader whose configuration changes commit at once.\<close>

record leader_raft =
  cfg :: "Server list"
  cfg_index :: uint64
  applied_to :: uint64

definition leader_lib :: "leader_raft member_lib" where
  "leader_lib =
     \<lparr>raftState = (\<lambda>_. Leader),
      GetConfiguration = (\<lambda>r. Inr (cfg r, cfg_index r)),
      AddNonvoter = (\<lambda>i a prev r. (Inr (cfg_index r + 1), r\<lparr>cfg := cfg r @ [new_nonvoter i a], cfg_index := cfg_index r + 1\<rparr>)),
      AddVoter = (\<lambda>i a prev r. (Inr (cfg_index r + 1), r\<lparr>cfg := promote i a (cfg r), cfg_index := cfg_index r + 1\<rparr>)),
      lastApplied = applied_to,
      LeaderWithID = (\<lambda>_. (''10.0.0.1:7000'', ''n1''))\<rparr>"

lemma leader_lib_contract: "member_contract leader_lib"
  by (auto simp: member_contract_def leader_lib_def config_of_def)

definition example_node :: "leader_raft RaftNode" where
  "example_node =
     \<lparr>raft = \<lparr>cfg = [\<lparr>Suffrage = Voter, ID = ''n1'', Address = ''a1''\<rparr>, new_nonvoter ''n2'' ''a2''], cfg_index = 3, applied_to = 9\<rparr>,
      joinProgress = Mapping.update ''n2'' \<lparr>targetIndex = 7, appliedIndex = 2, lastProgressAt = 0\<rparr> Mapping.empty\<rparr>"

lemma example_facts:
  "config_of leader_lib (raft example_node) =
     Some [\<lparr>Suffrage = Voter, ID = ''n1'', Address = ''a1''\<rparr>, new_nonvoter ''n2'' ''a2'']"
  "unique_members [\<lparr>Suffrage = Voter, ID = ''n1'', Address = ''a1''\<rparr>, new_nonvoter ''n2'' ''a2'']"
  "target_for leader_lib example_node ''n2'' = 7"
  "raftState leader_lib r = Leader"
  by (simp_all add: config_of_def leader_lib_def example_node_def unique_members_def new_nonvoter_def target_for_def
      progress_of_def)

lemma trim_examples [simp]:
  "TrimSpace ''n1'' = ''n1''" "TrimSpace ''a1'' = ''a1''" "TrimSpace ''n2'' = ''n2''" "TrimSpace ''a2'' = ''a2''"
  by (simp_all add: TrimSpace_printable printable_def)

section \<open>Properties\<close>

text \<open>
  C7. No vote before catch-up: while a registered non-voter reports an applied index below its
  frozen target, joining again does not touch the Raft configuration (in particular the node is not
  promoted), and no progress entry is lost, no target moves and no applied index falls.
\<close>

theorem no_promotion_before_target:
  assumes "config_of lib (raft nd) = Some servers" "unique_members servers" "s \<in> set servers" "Suffrage s \<noteq> Voter"
    and "TrimSpace nodeID = ID s" "TrimSpace addr = Address s" "aidx < target_for lib nd (ID s)"
    and "JoinClusterWithProgress lib la clock nodeID addr aidx (Some nd) = (res, Some nd')"
  shows "raft nd' = raft nd \<and> progress_kept nd nd'"
proof -
  obtain idx where v: "validateJoiningMember lib nd (ID s) (Address s) = Inr (Some s, idx)"
    using validate_member [OF assms(1-3)] by blast
  let ?nd1 = "snd (recordJoinProgress lib (ID s) 0 aidx (clock 0) nd)"
  have "join_member lib la clock (ID s) (Address s) aidx nd = buildClusterInfoForNode lib la (\<lambda>k. clock (Suc k)) ?nd1"
    using v assms(4,7) record_target [of lib "ID s" aidx "clock 0" nd]
    by (cases "recordJoinProgress lib (ID s) 0 aidx (clock 0) nd") (simp add: join_member_def)
  moreover have "progress_kept nd (snd (buildClusterInfoForNode lib la (\<lambda>k. clock (Suc k)) ?nd1))"
    by (rule kept_trans [OF record_kept kept_steps(1)])
  ultimately show ?thesis
    using Join_member_branch [OF assms(8)] assms(5,6) by auto
qed

theorem no_promotion_before_target_witness:
  "raft (the (snd (JoinClusterWithProgress leader_lib [] (\<lambda>k. int k) ''n2'' ''a2'' 6 (Some example_node)))) = raft example_node"
proof -
  let ?x = "JoinClusterWithProgress leader_lib [] (\<lambda>k. int k) ''n2'' ''a2'' 6 (Some example_node)"
  have "\<exists>nd'. snd ?x = Some nd'" by (simp add: JoinClusterWithProgress_def example_facts)
  then obtain nd' where "?x = (fst ?x, Some nd')" by (metis prod.collapse)
  then have "raft nd' = raft example_node"
    using no_promotion_before_target [OF example_facts(1,2), of "new_nonvoter ''n2'' ''a2''" "''n2''" "''a2''" 6]
    by (simp add: new_nonvoter_def example_facts)
  with \<open>?x = (fst ?x, Some nd')\<close> show ?thesis by (metis option.sel snd_conv)
qed

text \<open>
  A node that has caught up is promoted: when a registered non-voter reports an applied index
  at or above its frozen target and Raft accepts the change, the answer lists it as a voter, the
  configuration holds it as a voter at its place with every other member as before, and its progress
  entry is gone.
\<close>

lemma caught_up_node_promoted:
  assumes "member_contract lib" "config_of lib (raft nd) = Some servers" "unique_members servers"
    and "s \<in> set servers" "Suffrage s \<noteq> Voter" "raftState lib (raft nd) = Leader"
    and "TrimSpace nodeID = ID s" "TrimSpace addr = Address s" "ID s \<noteq> []" "Address s \<noteq> []"
    and "target_for lib nd (ID s) \<le> aidx" "\<And>prev. \<not> isl (fst (AddVoter lib (ID s) (Address s) prev (raft nd)))"
  shows "\<exists>info nd'. JoinClusterWithProgress lib la clock nodeID addr aidx (Some nd) = (Inr info, Some nd')
    \<and> config_of lib (raft nd') = Some (promote (ID s) (Address s) servers)
    \<and> map (\<lambda>m. (NodeID m, Addr m, Role m)) (Members info) =
        map (\<lambda>x. if ID x = ID s then (ID s, Address s, ClusterRoleVoter) else (ID x, Address x, roleFromSuffrage (Suffrage x))) servers"
proof -
  obtain idx where v: "validateJoiningMember lib nd (ID s) (Address s) = Inr (Some s, idx)"
    using validate_member [OF assms(2-4)] by blast
  obtain n r where av: "AddVoter lib (ID s) (Address s) idx (raft nd) = (Inr n, r)"
    using assms(12) [of idx] by (cases "AddVoter lib (ID s) (Address s) idx (raft nd)"; cases "fst (AddVoter lib (ID s) (Address s) idx (raft nd))") auto
  have conf: "config_of lib r = Some (promote (ID s) (Address s) servers)"
    using contract_AddVoter [OF assms(1,2) _ av] assms(4) by auto
  obtain pr nd1 where rec: "recordJoinProgress lib (ID s) 0 aidx (clock 0) nd = (pr, nd1)" by fastforce
  let ?nd2 = "clearJoinProgress (ID s) (nd1\<lparr>raft := r\<rparr>)"
  have j: "join_member lib la clock (ID s) (Address s) aidx nd = buildClusterInfoForNode lib la (\<lambda>k. clock (Suc k)) ?nd2"
    using v av rec assms(5,11) record_target [of lib "ID s" aidx "clock 0" nd] recordJoinProgress_raft [of lib "ID s" 0 aidx "clock 0" nd]
    by (simp add: join_member_def leD)
  obtain info where info: "fst (buildClusterInfoForNode lib la (\<lambda>k. clock (Suc k)) ?nd2) = Inr info"
    "map (\<lambda>m. (NodeID m, Addr m, Role m)) (Members info) =
       map (\<lambda>x. (ID x, Address x, roleFromSuffrage (Suffrage x))) (promote (ID s) (Address s) servers)"
    using build_members [of lib ?nd2 "promote (ID s) (Address s) servers" la "\<lambda>k. clock (Suc k)"] conf
    by (auto simp del: map_map)
  have "JoinClusterWithProgress lib la clock nodeID addr aidx (Some nd) =
      (Inr info, Some (snd (buildClusterInfoForNode lib la (\<lambda>k. clock (Suc k)) ?nd2)))"
    using Join_leader [OF assms(6-10)] j info(1) by (simp add: prod_eq_iff)
  moreover have "config_of lib (raft (snd (buildClusterInfoForNode lib la (\<lambda>k. clock (Suc k)) ?nd2))) =
      Some (promote (ID s) (Address s) servers)" using conf by simp
  moreover have "map (\<lambda>m. (NodeID m, Addr m, Role m)) (Members info) =
      map (\<lambda>x. if ID x = ID s then (ID s, Address s, ClusterRoleVoter) else (ID x, Address x, roleFromSuffrage (Suffrage x))) servers"
    unfolding info(2) by (simp add: promote_def roleFromSuffrage_def cong: if_cong)
  ultimately show ?thesis by blast
qed

text \<open>
  Identities and addresses are never taken over: a join that names a registered identity at
  another address, or a registered address under another identity, is refused and changes neither the
  configuration nor the progress table.
\<close>

lemma conflicting_join_refused:
  assumes "config_of lib (raft nd) = Some servers" "unique_members servers" "s \<in> set servers"
    and "raftState lib (raft nd) = Leader" "TrimSpace nodeID \<noteq> []" "TrimSpace addr \<noteq> []"
    and "(TrimSpace nodeID = ID s) \<noteq> (TrimSpace addr = Address s)"
  shows "\<exists>e. JoinClusterWithProgress lib la clock nodeID addr aidx (Some nd) = (Inl e, Some nd)
    \<and> ((\<exists>a. e = IdentityRegistered (TrimSpace nodeID) a) \<or> (\<exists>i. e = AddressRegistered (TrimSpace addr) i))"
proof -
  let ?i = "TrimSpace nodeID" and ?a = "TrimSpace addr"
  obtain idx where c: "GetConfiguration lib (raft nd) = Inr (servers, idx)"
    using assms(1) by (auto simp: config_of_def split: sum.splits)
  obtain x where x: "List.find (\<lambda>server. ID server = ?i \<or> Address server = ?a) servers = Some x"
    using find_NoneD [of "\<lambda>server. ID server = ?i \<or> Address server = ?a" servers s] assms(3,7) by fastforce
  have "x \<in> set servers" "ID x = ?i \<or> Address x = ?a" using find_SomeD [OF x] by auto
  moreover have "\<not> (ID x = ?i \<and> Address x = ?a)"
    using assms(2,3,7) \<open>x \<in> set servers\<close> unfolding unique_members_def distinct_map by (metis inj_onD)
  ultimately show ?thesis
    using c x Join_leader [OF assms(4) refl refl assms(5,6)]
    by (auto simp: join_member_def validateJoiningMember_def)
qed

text \<open>
  Repeating a join is harmless: for a member that is already a voter the call succeeds, leaves
  the Raft instance alone, keeps the progress of every other member and forgets that of the member.
\<close>

lemma rejoin_of_voter:
  assumes "config_of lib (raft nd) = Some servers" "unique_members servers" "s \<in> set servers" "Suffrage s = Voter"
    and "raftState lib (raft nd) = Leader" "TrimSpace nodeID = ID s" "TrimSpace addr = Address s"
    and "ID s \<noteq> []" "Address s \<noteq> []"
  shows "\<exists>info nd'. JoinClusterWithProgress lib la clock nodeID addr aidx (Some nd) = (Inr info, Some nd')
    \<and> raft nd' = raft nd \<and> kept_where (\<lambda>j. j \<noteq> ID s) nd nd'
    \<and> (ID s, Address s, ClusterRoleVoter) \<in> set (map (\<lambda>m. (NodeID m, Addr m, Role m)) (Members info))"
proof -
  obtain idx where v: "validateJoiningMember lib nd (ID s) (Address s) = Inr (Some s, idx)"
    using validate_member [OF assms(1-3)] by blast
  let ?b = "buildClusterInfoForNode lib la clock (clearJoinProgress (ID s) nd)"
  have j: "join_member lib la clock (ID s) (Address s) aidx nd = ?b" using v assms(4) by (simp add: join_member_def)
  obtain info where info: "fst ?b = Inr info"
    "map (\<lambda>m. (NodeID m, Addr m, Role m)) (Members info) = map (\<lambda>s. (ID s, Address s, roleFromSuffrage (Suffrage s))) servers"
    using build_members [of lib "clearJoinProgress (ID s) nd" servers la clock] assms(1) by auto
  have "(ID s, Address s, ClusterRoleVoter) \<in> set (map (\<lambda>s. (ID s, Address s, roleFromSuffrage (Suffrage s))) servers)"
    using assms(3,4) by (auto simp: roleFromSuffrage_def intro!: rev_image_eqI [of s])
  moreover have "kept_where (\<lambda>j. j \<noteq> ID s) nd (snd ?b)" by (rule kept_trans [OF clear_kept kept_steps(1)])
  moreover have "JoinClusterWithProgress lib la clock nodeID addr aidx (Some nd) = (Inr info, Some (snd ?b))"
    using Join_leader [OF assms(5-9)] j info(1) by (simp add: prod_eq_iff)
  ultimately show ?thesis using info(2) by (intro exI [of _ info] exI [of _ "snd ?b"]) simp
qed

text \<open>
  A join never disturbs the catch-up of other members: whatever a call does, every other
  member's progress entry stays, with its target unchanged and its applied index not lowered.
\<close>

lemma join_keeps_other_targets:
  assumes "JoinClusterWithProgress lib la clock nodeID addr aidx (Some nd) = (res, Some nd')"
    and "j \<noteq> TrimSpace nodeID" "progress_of nd j = Some pr"
  shows "\<exists>pr'. progress_of nd' j = Some pr' \<and> targetIndex pr' = targetIndex pr \<and> appliedIndex pr \<le> appliedIndex pr'"
  using Join_member_branch [OF assms(1)] join_member_kept [of "TrimSpace nodeID" nd lib la clock "TrimSpace addr" aidx] assms(2,3)
  by (auto simp: kept_where_def)

text \<open>
  C25. The configuration stays free of duplicates: from a configuration with distinct identities and
  distinct addresses, no sequence of joins and inspections, successful or not, interleaved with Raft's
  own progress, leads to one in which two members share an identity or an address.
\<close>

theorem members_stay_unique:
  assumes "member_contract lib" "config_of lib (raft nd0) = Some servers0" "unique_members servers0"
    and "member_reach lib nd0 nd"
  shows "\<exists>servers. config_of lib (raft nd) = Some servers \<and> distinct (map ID servers) \<and> distinct (map Address servers)"
  using member_reach_unique [OF assms(4,1,2,3)] by (simp add: unique_members_def)

theorem members_stay_unique_witness:
  "\<exists>servers. config_of leader_lib (raft (the (snd (JoinClusterWithProgress leader_lib [] int ''n2'' ''a2'' 8 (Some example_node))))) = Some servers
    \<and> distinct (map ID servers) \<and> distinct (map Address servers)"
proof -
  let ?x = "JoinClusterWithProgress leader_lib [] int ''n2'' ''a2'' 8 (Some example_node)"
  have "\<exists>nd'. snd ?x = Some nd'" by (simp add: JoinClusterWithProgress_def example_facts)
  then obtain nd' where x: "?x = (fst ?x, Some nd')" by (metis prod.collapse)
  then have "member_reach leader_lib example_node nd'" by (intro member_reach.joined [OF member_reach.start])
  from members_stay_unique [OF leader_lib_contract example_facts(1,2) this] x show ?thesis
    by (metis option.sel snd_conv)
qed

end
