(* ===== verification/AdminServer.thy ===== *)
theory AdminServer
  imports Membership Config
begin

text \<open>
  The admin RPC by which a node joins a cluster: the server side of \<^verbatim>\<open>src/server/raft_server.go\<close> and the
  client side in \<^verbatim>\<open>joinCluster\<close> of \<^verbatim>\<open>src/core/raft.go\<close>. gRPC is a parameter: \<open>dial\<close> says whether a
  connection can be set up and \<open>rpc\<close> what a call on it returns. The retry library is a parameter as
  well: it gets one attempt and the callback, and \<open>retry_contract\<close> states what it documents.
\<close>

section \<open>Messages\<close>

record JoinClusterRequest =
  NodeId :: bytes
  ReqAddr :: bytes
  ReqAppliedIndex :: uint64

datatype proto_role = CLUSTER_ROLE_UNSPECIFIED | CLUSTER_ROLE_VOTER | CLUSTER_ROLE_NON_VOTER

datatype proto_state =
    CLUSTER_MEMBER_STATE_UNSPECIFIED | CLUSTER_MEMBER_STATE_JOINING | CLUSTER_MEMBER_STATE_CATCHING_UP
  | CLUSTER_MEMBER_STATE_VOTER | CLUSTER_MEMBER_STATE_FAILED

record proto_member =
  pm_node_id :: bytes
  pm_addr :: bytes
  pm_role :: proto_role
  pm_state :: proto_state
  pm_applied_index :: uint64
  pm_target_index :: uint64

record proto_cluster =
  pc_leader_id :: bytes
  pc_leader_addr :: bytes
  pc_leader_admin_addr :: bytes
  pc_members :: "proto_member list"

datatype response_code = SUCCESS | NOT_LEADER | RAFT_NOT_ENABLED | OTHER_CODE int

record JoinClusterResponse =
  Code :: response_code
  Cluster :: "proto_cluster option"

datatype rpc_status = InvalidArgument | Internal join_error

section \<open>The server\<close>

definition toProtoRole :: "ClusterRole \<Rightarrow> proto_role" where
  "toProtoRole role =
     (case role of
        ClusterRoleVoter \<Rightarrow> CLUSTER_ROLE_VOTER
      | ClusterRoleNonVoter \<Rightarrow> CLUSTER_ROLE_NON_VOTER
      | ClusterRoleUnspecified \<Rightarrow> CLUSTER_ROLE_UNSPECIFIED)"

definition toProtoMemberState :: "ClusterMemberState \<Rightarrow> proto_state" where
  "toProtoMemberState st =
     (case st of
        ClusterMemberStateJoining \<Rightarrow> CLUSTER_MEMBER_STATE_JOINING
      | ClusterMemberStateCatchingUp \<Rightarrow> CLUSTER_MEMBER_STATE_CATCHING_UP
      | ClusterMemberStateVoter \<Rightarrow> CLUSTER_MEMBER_STATE_VOTER
      | ClusterMemberStateFailed \<Rightarrow> CLUSTER_MEMBER_STATE_FAILED
      | ClusterMemberStateUnspecified \<Rightarrow> CLUSTER_MEMBER_STATE_UNSPECIFIED)"

definition empty_cluster :: proto_cluster where
  "empty_cluster = \<lparr>pc_leader_id = [], pc_leader_addr = [], pc_leader_admin_addr = [], pc_members = []\<rparr>"

definition toProtoMember :: "ClusterMember \<Rightarrow> proto_member" where
  "toProtoMember member =
     \<lparr>pm_node_id = NodeID member, pm_addr = Addr member, pm_role = toProtoRole (Role member),
      pm_state = toProtoMemberState (State member), pm_applied_index = AppliedIndex member,
      pm_target_index = TargetIndex member\<rparr>"

definition toProtoCluster :: "ClusterInfo option \<Rightarrow> proto_cluster" where
  "toProtoCluster infop =
     (case infop of
        None \<Rightarrow> empty_cluster
      | Some info \<Rightarrow>
          \<lparr>pc_leader_id = LeaderID info, pc_leader_addr = LeaderAddr info,
           pc_leader_admin_addr = LeaderAdminAddr info, pc_members = map toProtoMember (Members info)\<rparr>)"

definition JoinClusterRPC ::
  "'r member_lib \<Rightarrow> bytes \<Rightarrow> (nat \<Rightarrow> int) \<Rightarrow> JoinClusterRequest \<Rightarrow> 'r RaftNode option \<Rightarrow>
   (rpc_status + JoinClusterResponse) \<times> 'r RaftNode option" where
  "JoinClusterRPC lib leaderAdmin clock req raftNode =
     (let nodeID = TrimSpace (NodeId req); addr = TrimSpace (ReqAddr req) in
      if nodeID = [] \<or> addr = [] then (Inl InvalidArgument, raftNode)
      else
        (case JoinClusterWithProgress lib leaderAdmin clock nodeID addr (ReqAppliedIndex req) raftNode of
           (Inl ErrRaftNotEnabled, nd) \<Rightarrow>
             (Inr \<lparr>Code = RAFT_NOT_ENABLED, Cluster = Some (toProtoCluster None)\<rparr>, nd)
         | (Inl (NotLeaderError la), nd) \<Rightarrow>
             (Inr \<lparr>Code = NOT_LEADER, Cluster = Some (empty_cluster\<lparr>pc_leader_admin_addr := la\<rparr>)\<rparr>, nd)
         | (Inl err, nd) \<Rightarrow> (Inl (Internal err), nd)
         | (Inr info, nd) \<Rightarrow> (Inr \<lparr>Code = SUCCESS, Cluster = Some (toProtoCluster (Some info))\<rparr>, nd)))"

section \<open>The client\<close>

datatype send_error =
    ErrJoinInternal
  | errJoinPromotionPending
  | Unrecoverable bytes
  | NotLeaderAt bytes

fun check_members :: "bytes \<Rightarrow> proto_member list \<Rightarrow> send_error option" where
  "check_members own [] = Some ErrJoinInternal"
| "check_members own (member # ms) =
     (if pm_node_id member \<noteq> own then check_members own ms
      else if pm_role member = CLUSTER_ROLE_VOTER then None
      else Some errJoinPromotionPending)"

definition check_response :: "Config \<Rightarrow> JoinClusterResponse \<Rightarrow> send_error option" where
  "check_response config response =
     (case Code response of
        SUCCESS \<Rightarrow>
          (case Cluster response of
             None \<Rightarrow> Some ErrJoinInternal
           | Some c \<Rightarrow> check_members (GetRaftId config) (pc_members c))
      | RAFT_NOT_ENABLED \<Rightarrow> Some (Unrecoverable (''fatal status: '' @ JoinAddr config @ '' is not a raft node''))
      | NOT_LEADER \<Rightarrow>
          (case Cluster response of
             Some c \<Rightarrow> Some (NotLeaderAt (pc_leader_admin_addr c))
           | None \<Rightarrow> Some ErrJoinInternal)
      | OTHER_CODE _ \<Rightarrow> Some ErrJoinInternal)"

text \<open>One attempt; \<open>None\<close> is success.\<close>

definition sendRequest ::
  "(bytes \<Rightarrow> bool) \<Rightarrow> (bytes \<Rightarrow> JoinClusterRequest \<Rightarrow> 'e + JoinClusterResponse) \<Rightarrow> uint64 \<Rightarrow> Config \<Rightarrow> send_error option" where
  "sendRequest dial rpc aidx config =
     (if \<not> dial (JoinAddr config) then Some ErrJoinInternal
      else
        (case rpc (JoinAddr config)
                \<lparr>NodeId = GetRaftId config, ReqAddr = GetRaftAdvertiseAddr config, ReqAppliedIndex = aidx\<rparr> of
           Inl _ \<Rightarrow> Some ErrJoinInternal
         | Inr response \<Rightarrow> check_response config response))"

definition onRetry :: "send_error \<Rightarrow> Config \<Rightarrow> Config" where
  "onRetry err config =
     (case err of
        errJoinPromotionPending \<Rightarrow> config
      | NotLeaderAt adr \<Rightarrow> config\<lparr>JoinAddr := adr\<rparr>
      | _ \<Rightarrow> config)"

definition raftJoinRetryInterval :: int where
  "raftJoinRetryInterval = 200 * 1000000"

definition raftJoinPromotionTimeout :: int where
  "raftJoinPromotionTimeout = 30 * 1000000000"

definition join_attempts :: nat where
  "join_attempts = nat (raftJoinPromotionTimeout div raftJoinRetryInterval) + 1"

text \<open>
  The retry library runs at most the given number of attempts, numbered from 0, on a configuration that the callback
  may change after each failed one, and returns the outcome with the final configuration.
\<close>

type_synonym retry_lib = "nat \<Rightarrow> (nat \<Rightarrow> Config \<Rightarrow> send_error option) \<Rightarrow> (send_error \<Rightarrow> Config \<Rightarrow> Config) \<Rightarrow> Config \<Rightarrow> send_error option \<times> Config"

definition joinCluster ::
  "retry_lib \<Rightarrow> (bytes \<Rightarrow> bool) \<Rightarrow> (nat \<Rightarrow> bytes \<Rightarrow> JoinClusterRequest \<Rightarrow> 'e + JoinClusterResponse) \<Rightarrow> (nat \<Rightarrow> uint64) \<Rightarrow>
   Config \<Rightarrow> send_error option \<times> Config" where
  "joinCluster retry dial rpc aidx config =
     retry join_attempts (\<lambda>n. sendRequest dial (rpc n) (aidx n)) onRetry config"

text \<open>
  What \<^verbatim>\<open>retry.Do\<close> documents: it succeeds only if one of its attempts did, on the configuration that the callback
  produced from the errors of the attempts before it. (A limit of 0 means no limit; the program never passes it.)
\<close>

fun retried :: "(nat \<Rightarrow> Config \<Rightarrow> send_error option) \<Rightarrow> (send_error \<Rightarrow> Config \<Rightarrow> Config) \<Rightarrow> nat \<Rightarrow> Config \<Rightarrow> Config option" where
  "retried attempt cb 0 config = Some config"
| "retried attempt cb (Suc n) config =
     (case retried attempt cb n config of
        None \<Rightarrow> None
      | Some c \<Rightarrow> (case attempt n c of None \<Rightarrow> None | Some err \<Rightarrow> Some (cb err c)))"

definition retry_contract :: "retry_lib \<Rightarrow> bool" where
  "retry_contract retry \<longleftrightarrow>
     (\<forall>limit attempt cb config config'. 0 < limit \<longrightarrow> retry limit attempt cb config = (None, config') \<longrightarrow>
        (\<exists>n < limit. retried attempt cb n config = Some config' \<and> attempt n config' = None))"

text \<open>
  It also documents that it does make the attempts: an attempt within the limit that would succeed is made unless an
  earlier one ended in an error marked as unrecoverable (the context is taken to stay alive).
\<close>

primrec unrecoverable :: "send_error \<Rightarrow> bool" where
  "unrecoverable ErrJoinInternal = False"
| "unrecoverable errJoinPromotionPending = False"
| "unrecoverable (Unrecoverable msg) = True"
| "unrecoverable (NotLeaderAt adr) = False"

definition retry_complete :: "retry_lib \<Rightarrow> bool" where
  "retry_complete retry \<longleftrightarrow>
     (\<forall>limit attempt cb config n c. n < limit \<longrightarrow> retried attempt cb n config = Some c \<longrightarrow> attempt n c = None \<longrightarrow>
        (\<forall>m < n. \<forall>cm e. retried attempt cb m config = Some cm \<longrightarrow> attempt m cm = Some e \<longrightarrow> \<not> unrecoverable e) \<longrightarrow>
        retry limit attempt cb config = (None, c))"

lemma join_attempts_value: "join_attempts = 151"
  by (simp add: join_attempts_def raftJoinPromotionTimeout_def raftJoinRetryInterval_def)

section \<open>Lemmas\<close>

lemma check_members_None:
  "check_members own ms = None \<Longrightarrow> \<exists>m \<in> set ms. pm_node_id m = own \<and> pm_role m = CLUSTER_ROLE_VOTER"
  by (induction ms) (auto split: if_splits)

lemma check_members_voter:
  assumes "\<forall>m \<in> set ms. pm_node_id m = own \<longrightarrow> pm_role m = CLUSTER_ROLE_VOTER" "\<exists>m \<in> set ms. pm_node_id m = own"
  shows "check_members own ms = None"
  using assms by (induction ms) auto

lemma toProtoRole_voter [simp]: "toProtoRole r = CLUSTER_ROLE_VOTER \<longleftrightarrow> r = ClusterRoleVoter"
  by (cases r) (simp_all add: toProtoRole_def)

lemma retried_fields:
  assumes "\<And>err c. raftID (cb err c) = raftID c \<and> RaftAddr (cb err c) = RaftAddr c \<and> RaftAdvertiseAddr (cb err c) = RaftAdvertiseAddr c"
  shows "retried attempt cb n config = Some c \<Longrightarrow>
    raftID c = raftID config \<and> RaftAddr c = RaftAddr config \<and> RaftAdvertiseAddr c = RaftAdvertiseAddr config"
  using assms by (induction n arbitrary: c) (auto split: option.splits)

lemma onRetry_fields: "raftID (onRetry err c) = raftID c \<and> RaftAddr (onRetry err c) = RaftAddr c \<and> RaftAdvertiseAddr (onRetry err c) = RaftAdvertiseAddr c"
  by (cases err) (simp_all add: onRetry_def)

lemma sendRequest_None:
  assumes "sendRequest dial rpc aidx config = None"
  shows "\<exists>resp c. rpc (JoinAddr config) \<lparr>NodeId = GetRaftId config, ReqAddr = GetRaftAdvertiseAddr config, ReqAppliedIndex = aidx\<rparr> = Inr resp
    \<and> Code resp = SUCCESS \<and> Cluster resp = Some c
    \<and> (\<exists>m \<in> set (pc_members c). pm_node_id m = GetRaftId config \<and> pm_role m = CLUSTER_ROLE_VOTER)"
  using assms check_members_None
  by (fastforce simp: sendRequest_def check_response_def split: if_splits sum.splits response_code.splits option.splits)

text \<open>The answer of a node that is not the leader, and what the client makes of it.\<close>

lemma follower_answer:
  assumes "raftState lib (raft nd) \<noteq> Leader" "TrimSpace (NodeId req) \<noteq> []" "TrimSpace (ReqAddr req) \<noteq> []"
  shows "JoinClusterRPC lib la clock req (Some nd) =
    (Inr \<lparr>Code = NOT_LEADER, Cluster = Some (empty_cluster\<lparr>pc_leader_admin_addr := la\<rparr>)\<rparr>, Some nd)"
  using assms by (simp add: JoinClusterRPC_def JoinClusterWithProgress_def)

lemma client_on_follower:
  assumes "dial (JoinAddr config)" "raftState lib (raft nd) \<noteq> Leader"
    and "GetRaftId config \<noteq> []" "GetRaftAdvertiseAddr config \<noteq> []"
  shows "sendRequest dial (\<lambda>_ req. fst (JoinClusterRPC lib la clock req (Some nd))) aidx config = Some (NotLeaderAt la)"
  using assms by (simp add: sendRequest_def follower_answer check_response_def)

section \<open>Properties\<close>

text \<open>
  A node considers itself joined only as a voter: if \<^verbatim>\<open>joinCluster\<close> succeeds, then one of its
  requests, sent under its own identity and advertised address, was answered with success and a
  member list in which this identity has a vote.
\<close>

lemma join_success_means_voter:
  assumes "retry_contract retry" "joinCluster retry dial rpc aidx config = (None, config')"
  shows "\<exists>n resp c. rpc n (JoinAddr config')
      \<lparr>NodeId = GetRaftId config, ReqAddr = GetRaftAdvertiseAddr config, ReqAppliedIndex = aidx n\<rparr> = Inr resp
    \<and> Code resp = SUCCESS \<and> Cluster resp = Some c
    \<and> (\<exists>m \<in> set (pc_members c). pm_node_id m = GetRaftId config \<and> pm_role m = CLUSTER_ROLE_VOTER)"
proof -
  obtain n where n: "retried (\<lambda>n. sendRequest dial (rpc n) (aidx n)) onRetry n config = Some config'"
    "sendRequest dial (rpc n) (aidx n) config' = None"
    using assms unfolding joinCluster_def retry_contract_def join_attempts_value by (meson zero_less_numeral)
  have "raftID config' = raftID config" "RaftAddr config' = RaftAddr config" "RaftAdvertiseAddr config' = RaftAdvertiseAddr config"
    using retried_fields [OF onRetry_fields n(1)] by auto
  then have "GetRaftId config' = GetRaftId config" "GetRaftAdvertiseAddr config' = GetRaftAdvertiseAddr config"
    by (simp_all add: GetRaftId_def GetRaftAdvertiseAddr_def Let_def)
  with sendRequest_None [OF n(2)] show ?thesis by metis
qed

definition try_once :: retry_lib where
  "try_once limit attempt cb config = (attempt 0 config, config)"

lemma try_once_contract: "retry_contract try_once"
  unfolding retry_contract_def try_once_def
proof (intro allI impI)
  fix limit :: nat and attempt :: "nat \<Rightarrow> Config \<Rightarrow> send_error option" and cb and config config' :: Config
  assume "0 < limit" "(attempt 0 config, config) = (None, config')"
  then have "0 < limit \<and> retried attempt cb 0 config = Some config' \<and> attempt 0 config' = None" by auto
  then show "\<exists>n < limit. retried attempt cb n config = Some config' \<and> attempt n config' = None" ..
qed

end
