(* ===== verification/RaftStart.thy ===== *)
theory RaftStart
  imports Identity AdminServer
begin

text \<open>
  Starting and stopping a Raft node (\<^verbatim>\<open>src/core/raft.go\<close>): the checks on addresses, identity, persisted
  configuration and start-up intent, the construction of the node, and the release of everything that
  was opened when a step fails. A \<open>start_env\<close> says how each call into the operating system, the
  network and the Raft library ends; what is opened and closed is recorded as a list of events.
\<close>

section \<open>Data\<close>

text \<open>A resolved TCP address: whether it has an IP and whether that is the unspecified one, its port and its text.\<close>

record tcp_addr =
  has_ip :: bool
  unspecified :: bool
  port :: nat
  addr_text :: bytes

datatype start_error =
    StartConfigRequired | DuplicateStart | IdentityError identity_error
  | AdvertiseRequired | ResolveAdvertised bytes bytes | NotRoutable bytes
  | StorageError storage_error | StoresRequired | DatabaseRequired | InspectState bytes | TransportFailed bytes | CreateRaft bytes
  | AddressConflict bytes bytes | ReadConfiguration bytes | MemberAddress bytes bytes bytes | MemberMissing bytes
  | NoClusterConfiguration | RestartIntent | NewStateIntent | BootstrapFailed bytes | JoinFailed send_error
  | WaitCancelled bytes | WaitTimeout | PersistFailed step bytes
  | ShutdownFailed bytes | TransportCloseFailed bytes | StoresCloseFailed bytes

datatype wait_event = Tick | TimerFired | ContextDone bytes

record start_env =
  se_disk :: disk
  se_storage :: storage_env
  se_resolve :: "bytes \<Rightarrow> bytes + tcp_addr"
  se_existing :: "bytes + bool"
  se_transport :: "bytes \<Rightarrow> tcp_addr option \<Rightarrow> bytes + bytes"
  se_new_raft :: "bytes option"
  se_configuration :: "nat \<Rightarrow> bytes + Server list"
  se_bootstrap :: "bytes option"
  se_retry :: retry_lib
  se_dial :: "bytes \<Rightarrow> bool"
  se_rpc :: "nat \<Rightarrow> bytes \<Rightarrow> JoinClusterRequest \<Rightarrow> bytes + JoinClusterResponse"
  se_applied :: "nat \<Rightarrow> uint64"
  se_wait :: "wait_event list"
  se_persist :: "step \<Rightarrow> bytes option"
  se_tmp :: bytes
  se_partial :: nat
  se_files :: files
  se_shutdown :: "bytes option"
  se_transport_close :: "bytes option"

text \<open>
  A node: its transport's local address, its stores and the flags of the source. \<^verbatim>\<open>closeOnce\<close> is the
  outcome of the first \<^verbatim>\<open>Close\<close>, if there was one.
\<close>

record started_node =
  localID :: bytes
  localAddr :: bytes
  stores :: raftStores
  hadExistingState :: bool
  initialized :: bool
  closeOnce :: "start_error list option"

section \<open>Checks\<close>

definition normalizeRaftAdvertiseAddr :: "(bytes \<Rightarrow> bytes + tcp_addr) \<Rightarrow> bytes \<Rightarrow> start_error + bytes" where
  "normalizeRaftAdvertiseAddr resolve address0 =
     (let address = TrimSpace address0 in
      if address = [] then Inl AdvertiseRequired
      else
        (case resolve address of
           Inl err \<Rightarrow> Inl (ResolveAdvertised address err)
         | Inr resolved \<Rightarrow>
             if \<not> has_ip resolved \<or> unspecified resolved then Inl (NotRoutable address)
             else Inr (addr_text resolved)))"

definition validateRaftStartupIntent :: "Config \<Rightarrow> bool \<Rightarrow> start_error option" where
  "validateRaftStartupIntent config init =
     (let hasJoin = TrimSpace (JoinAddr config) \<noteq> [] in
      if init then (if Bootstrap config \<or> hasJoin then Some RestartIntent else None)
      else if Bootstrap config = hasJoin then Some NewStateIntent
      else None)"

definition validatePersistedRaftConfiguration :: "bytes + Server list \<Rightarrow> Config \<Rightarrow> start_error + bool" where
  "validatePersistedRaftConfiguration configuration config =
     (case configuration of
        Inl err \<Rightarrow> Inl (ReadConfiguration err)
      | Inr servers \<Rightarrow>
          if servers = [] then Inr False
          else
            (case List.find (\<lambda>server. ID server = GetRaftId config) servers of
               None \<Rightarrow> Inl (MemberMissing (GetRaftId config))
             | Some server \<Rightarrow>
                 if Address server \<noteq> GetRaftAdvertiseAddr config
                 then Inl (MemberAddress (GetRaftId config) (Address server) (GetRaftAdvertiseAddr config))
                 else Inr True))"

text \<open>
  The outcomes of the \<^verbatim>\<open>select\<close> are the given events; the timer has fired when they are used up. Call
  \<open>k\<close> of \<^verbatim>\<open>GetConfiguration\<close> returns \<open>conf k\<close>.
\<close>

fun waitForLocalRaftConfiguration :: "(nat \<Rightarrow> bytes + Server list) \<Rightarrow> nat \<Rightarrow> wait_event list \<Rightarrow> Config \<Rightarrow> start_error + bool" where
  "waitForLocalRaftConfiguration conf k evs config =
     (case validatePersistedRaftConfiguration (conf k) config of
        Inl err \<Rightarrow> Inl err
      | Inr True \<Rightarrow> Inr True
      | Inr False \<Rightarrow>
          (case evs of
             [] \<Rightarrow> Inl WaitTimeout
           | ContextDone e # _ \<Rightarrow> Inl (WaitCancelled e)
           | TimerFired # _ \<Rightarrow> Inl WaitTimeout
           | Tick # evs' \<Rightarrow> waitForLocalRaftConfiguration conf (Suc k) evs' config))"

declare waitForLocalRaftConfiguration.simps [simp del]

section \<open>Construction and release\<close>

text \<open>\<open>db\<close> says whether a database is given; the local address is the transport's.\<close>

definition initRaftNodeWithDB :: "start_env \<Rightarrow> Config \<Rightarrow> raftStores option \<Rightarrow> bool \<Rightarrow> (start_error + started_node) \<times> event list" where
  "initRaftNodeWithDB env config storesp db =
     (case storesp of
        None \<Rightarrow> (Inl StoresRequired, [])
      | Some st \<Rightarrow>
          if \<not> logStore st \<or> \<not> stableStore st \<or> \<not> snapshotStore st then (Inl StoresRequired, [])
          else if \<not> db then (Inl DatabaseRequired, [])
          else
            (case se_existing env of
               Inl err \<Rightarrow> (Inl (InspectState err), [])
             | Inr existing \<Rightarrow>
                 (case se_resolve env (GetRaftAdvertiseAddr config) of
                    Inl err \<Rightarrow> (Inl (ResolveAdvertised (GetRaftAdvertiseAddr config) err), [])
                  | Inr advertised \<Rightarrow>
                      (case se_transport env (RaftAddr config) (if port advertised = 0 then None else Some advertised) of
                         Inl err \<Rightarrow> (Inl (TransportFailed err), [])
                       | Inr local \<Rightarrow>
                           (case se_new_raft env of
                              Some err \<Rightarrow> (Inl (CreateRaft err), [TransportOpened, TransportClosed])
                            | None \<Rightarrow>
                                (Inr \<lparr>localID = GetRaftId config, localAddr = local, stores = st, hadExistingState = existing,
                                      initialized = False, closeOnce = None\<rparr>, [TransportOpened, RaftStarted]))))))"

definition initRaftNode :: "start_env \<Rightarrow> Config \<Rightarrow> raftStores option \<Rightarrow> (start_error + started_node) \<times> event list" where
  "initRaftNode env config storesp = initRaftNodeWithDB env config storesp True"

definition node_Close :: "start_env \<Rightarrow> started_node \<Rightarrow> start_error list \<times> started_node \<times> event list" where
  "node_Close env nd =
     (case closeOnce nd of
        Some errs \<Rightarrow> (errs, nd, [])
      | None \<Rightarrow>
          (let e1 = (case se_shutdown env of Some e \<Rightarrow> [ShutdownFailed e] | None \<Rightarrow> []);
               e2 = (case se_transport_close env of Some e \<Rightarrow> [TransportCloseFailed e] | None \<Rightarrow> []);
               (res, evs) = stores_Close (Some (stores nd));
               e3 = (case res of Some e \<Rightarrow> [StoresCloseFailed e] | None \<Rightarrow> [])
           in (e1 @ e2 @ e3, nd\<lparr>closeOnce := Some (e1 @ e2 @ e3)\<rparr>, [RaftShutdown, TransportClosed] @ evs)))"

definition createNewCluster :: "start_env \<Rightarrow> start_error option" where
  "createNewCluster env = (case se_bootstrap env of Some err \<Rightarrow> Some (BootstrapFailed err) | None \<Rightarrow> None)"

text \<open>The result of a start: no error, or the errors joined; the node that is now running, if any; what happened.\<close>

record start_result =
  errs :: "start_error list"
  running :: "started_node option"
  config_after :: "Config option"
  trace :: "event list"

definition fail_with :: "start_env \<Rightarrow> started_node \<Rightarrow> start_error \<Rightarrow> Config \<Rightarrow> event list \<Rightarrow> start_result" where
  "fail_with env nd err config evs =
     (let (closeErrs, _, cevs) = node_Close env nd
      in \<lparr>errs = err # closeErrs, running = None, config_after = Some config, trace = evs @ cevs\<rparr>)"

text \<open>The last part of \<^verbatim>\<open>StartRaft\<close>, once the node joined or reopened: wait for the configuration, persist the identity.\<close>

definition finish_start :: "start_env \<Rightarrow> started_node \<Rightarrow> bool \<Rightarrow> Config \<Rightarrow> event list \<Rightarrow> start_result" where
  "finish_start env nd hadPersisted config evs =
     (case (if initialized nd then Inr True else waitForLocalRaftConfiguration (se_configuration env) 1 (se_wait env) config) of
        Inl err \<Rightarrow> fail_with env nd err config evs
      | Inr init \<Rightarrow>
          (let nd = nd\<lparr>initialized := init\<rparr>;
               res = (if hadPersisted then None
                      else fst (persistRaftIdentity (se_persist env) (se_tmp env) (se_partial env) config (localAddr nd) (se_files env)))
           in case res of
                Some (st, e) \<Rightarrow> fail_with env nd (PersistFailed st e) config evs
              | None \<Rightarrow> \<lparr>errs = [], running = Some nd, config_after = Some config, trace = evs\<rparr>))"

definition run_node :: "start_env \<Rightarrow> started_node \<Rightarrow> raftIdentity option \<Rightarrow> bool \<Rightarrow> Config \<Rightarrow> event list \<Rightarrow> start_result" where
  "run_node env nd identity hadPersisted config evs =
     (if hadPersisted \<and> IdAdvertiseAddr (the identity) \<noteq> GetRaftAdvertiseAddr config then
        fail_with env nd (AddressConflict (GetRaftAdvertiseAddr config) (IdAdvertiseAddr (the identity))) config evs
      else
        (case validatePersistedRaftConfiguration (se_configuration env 0) config of
           Inl err \<Rightarrow> fail_with env nd err config evs
         | Inr init \<Rightarrow>
             (let nd = nd\<lparr>initialized := init\<rparr> in
              if hadPersisted \<and> \<not> init then fail_with env nd NoClusterConfiguration config evs
              else
                (case validateRaftStartupIntent config init of
                   Some err \<Rightarrow> fail_with env nd err config evs
                 | None \<Rightarrow>
                     if init then finish_start env nd hadPersisted config evs
                     else if Bootstrap config then
                       (case createNewCluster env of
                          Some err \<Rightarrow> fail_with env nd err config evs
                        | None \<Rightarrow> finish_start env nd hadPersisted config evs)
                     else
                       (case joinCluster (se_retry env) (se_dial env) (se_rpc env) (se_applied env) config of
                          (Some err, config') \<Rightarrow> fail_with env nd (JoinFailed err) config' evs
                        | (None, config') \<Rightarrow> finish_start env nd hadPersisted config' evs)))))"

definition StartRaft :: "start_env \<Rightarrow> Config option \<Rightarrow> started_node option \<Rightarrow> start_result" where
  "StartRaft env configp raftNode =
     (case configp of
        None \<Rightarrow> \<lparr>errs = [StartConfigRequired], running = raftNode, config_after = None, trace = []\<rparr>
      | Some config \<Rightarrow>
          if raftNode \<noteq> None then \<lparr>errs = [DuplicateStart], running = raftNode, config_after = configp, trace = []\<rparr>
          else if \<not> EnableRaft config then \<lparr>errs = [], running = None, config_after = configp, trace = []\<rparr>
          else
            (case resolveRaftIdentity (se_disk env) configp of
               (Inl err, config1) \<Rightarrow> \<lparr>errs = [IdentityError err], running = None, config_after = config1, trace = []\<rparr>
             | (Inr (identity, hadPersisted), config1p) \<Rightarrow>
                 (let config1 = the config1p in
                  case normalizeRaftAdvertiseAddr (se_resolve env) (GetRaftAdvertiseAddr config1) of
                    Inl err \<Rightarrow> \<lparr>errs = [err], running = None, config_after = Some config1, trace = []\<rparr>
                  | Inr advertisedAddress \<Rightarrow>
                      (let config2 = config1\<lparr>RaftAdvertiseAddr := advertisedAddress\<rparr> in
                       case newPersistentRaftStores (se_storage env) (Some config2) of
                         (Inl err, evs) \<Rightarrow> \<lparr>errs = [StorageError err], running = None, config_after = Some config2, trace = evs\<rparr>
                       | (Inr st, evs) \<Rightarrow>
                           (case initRaftNode env config2 (Some st) of
                              (Inl err, evs') \<Rightarrow>
                                \<lparr>errs = [err], running = None, config_after = Some config2,
                                 trace = evs @ evs' @ snd (stores_Close (Some st))\<rparr>
                            | (Inr nd, evs') \<Rightarrow>
                                run_node env nd identity hadPersisted (config2\<lparr>RaftAdvertiseAddr := localAddr nd\<rparr>) (evs @ evs'))))))"

definition ShutdownRaft :: "start_env \<Rightarrow> started_node option \<Rightarrow> start_error list \<times> started_node option \<times> event list" where
  "ShutdownRaft env raftNode =
     (case raftNode of
        None \<Rightarrow> ([], None, [])
      | Some nd \<Rightarrow> (case node_Close env nd of (closeErrs, _, evs) \<Rightarrow> (closeErrs, None, evs)))"


section \<open>Lemmas\<close>

definition all_opened :: "event list" where
  "all_opened = [StoreOpened, TransportOpened, RaftStarted]"

definition all_closed :: "event list" where
  "all_closed = [RaftShutdown, TransportClosed, StoreClosed]"

text \<open>A node as it comes out of construction on stores that can be closed.\<close>

definition fresh_node :: "started_node \<Rightarrow> bool" where
  "fresh_node nd \<longleftrightarrow> closeOnce nd = None \<and> closer (stores nd) \<noteq> None"

lemma fresh_initialized [simp]: "fresh_node (nd\<lparr>initialized := b\<rparr>) = fresh_node nd"
  by (simp add: fresh_node_def)

lemma fail_with_fresh:
  assumes "fresh_node nd"
  shows "running (fail_with env nd err config all_opened) = None \<and> trace (fail_with env nd err config all_opened) = all_opened @ all_closed
    \<and> errs (fail_with env nd err config all_opened) \<noteq> []"
  using assms by (auto simp: fail_with_def node_Close_def fresh_node_def stores_Close_def all_closed_def all_opened_def Let_def)

text \<open>What a start can end in: an error with everything released again, or a running node.\<close>

definition start_ok :: "start_result \<Rightarrow> bool" where
  "start_ok r \<longleftrightarrow>
     (if errs r = [] then (\<exists>nd. running r = Some nd \<and> initialized nd \<and> fresh_node nd) \<and> trace r = all_opened
      else running r = None \<and> trace r \<in> {[], [StoreOpened, StoreClosed],
        [StoreOpened, TransportOpened, TransportClosed, StoreClosed], all_opened @ all_closed})"

lemma start_ok_fail: "fresh_node nd \<Longrightarrow> start_ok (fail_with env nd err config all_opened)"
  using fail_with_fresh [of nd env err config] by (simp add: start_ok_def)

lemma wait_result:
  "waitForLocalRaftConfiguration conf k evs config = Inr b \<Longrightarrow>
   b \<and> (\<exists>j. validatePersistedRaftConfiguration (conf j) config = Inr True)"
proof (induction conf k evs config rule: waitForLocalRaftConfiguration.induct)
  case (1 conf k evs config)
  show ?case
  proof (cases "validatePersistedRaftConfiguration (conf k) config")
    case (Inl e)
    with 1(2) show ?thesis by (simp add: waitForLocalRaftConfiguration.simps)
  next
    case (Inr v)
    show ?thesis
    proof (cases v)
      case True
      with 1(2) Inr show ?thesis by (auto simp: waitForLocalRaftConfiguration.simps)
    next
      case False
      with 1(2) Inr obtain evs' where e: "evs = Tick # evs'" "waitForLocalRaftConfiguration conf (Suc k) evs' config = Inr b"
        by (auto simp: waitForLocalRaftConfiguration.simps [of conf k evs] split: list.splits wait_event.splits)
      with 1(1) Inr False show ?thesis by auto
    qed
  qed
qed

lemma finish_start_ok: "fresh_node nd \<Longrightarrow> start_ok (finish_start env nd had config all_opened)"
proof -
  assume f: "fresh_node nd"
  show ?thesis
  proof (cases "if initialized nd then Inr True else waitForLocalRaftConfiguration (se_configuration env) 1 (se_wait env) config")
    case (Inl e)
    then show ?thesis using f by (simp add: finish_start_def start_ok_fail)
  next
    case (Inr b)
    then have "b" using wait_result [of "se_configuration env" 1 "se_wait env" config b] by (auto split: if_splits)
    with Inr f show ?thesis
      by (auto simp: finish_start_def Let_def start_ok_fail start_ok_def [of "\<lparr>errs = [], running = _, config_after = _, trace = _\<rparr>"]
          split: option.split)
  qed
qed

lemma run_node_ok: "fresh_node nd \<Longrightarrow> start_ok (run_node env nd identity had config all_opened)"
  by (auto simp: run_node_def Let_def start_ok_fail finish_start_ok split: sum.split option.split prod.split)

lemma initRaftNode_outcome:
  assumes "closer st \<noteq> None" "logStore st" "stableStore st" "snapshotStore st"
  shows "case initRaftNode env config (Some st) of
      (Inr nd, evs) \<Rightarrow> fresh_node nd \<and> evs = [TransportOpened, RaftStarted]
    | (Inl e, evs) \<Rightarrow> evs = [] \<or> evs = [TransportOpened, TransportClosed]"
  using assms by (simp add: initRaftNode_def initRaftNodeWithDB_def fresh_node_def split: sum.split option.split)

lemma start_ok_simple:
  "tr \<in> {[], [StoreOpened, StoreClosed], [StoreOpened, TransportOpened, TransportClosed, StoreClosed]} \<Longrightarrow>
   start_ok \<lparr>errs = [e], running = None, config_after = c, trace = tr\<rparr>"
  by (auto simp: start_ok_def)

lemma StartRaft_steps:
  assumes "EnableRaft config"
  shows "(start_ok (StartRaft env (Some config) None) \<and> errs (StartRaft env (Some config) None) \<noteq> []) \<or>
    (\<exists>nd identity had c1 c. fresh_node nd \<and> resolveRaftIdentity (se_disk env) (Some config) = (Inr (identity, had), Some c1) \<and>
       c = c1\<lparr>RaftAdvertiseAddr := localAddr nd\<rparr> \<and> localID nd = GetRaftId c \<and>
       JoinAddr c = JoinAddr config \<and> Bootstrap c = Bootstrap config \<and>
       StartRaft env (Some config) None = run_node env nd identity had c all_opened)"
proof -
  obtain res config1p where id: "resolveRaftIdentity (se_disk env) (Some config) = (res, config1p)" by fastforce
  have c1: "\<exists>c. config1p = Some c \<and> JoinAddr c = JoinAddr config \<and> Bootstrap c = Bootstrap config"
    using id by (auto simp: resolveRaftIdentity_def Let_def split: open_result.splits sum.splits if_splits list.splits)
  then obtain c1 where c1: "config1p = Some c1" "JoinAddr c1 = JoinAddr config" "Bootstrap c1 = Bootstrap config" by blast
  show ?thesis
  proof (cases res)
    case (Inl e)
    with id assms show ?thesis by (simp add: StartRaft_def start_ok_simple)
  next
    case (Inr v)
    obtain identity had where v: "v = (identity, had)" by (cases v)
    show ?thesis
    proof (cases "normalizeRaftAdvertiseAddr (se_resolve env) (GetRaftAdvertiseAddr c1)")
      case (Inl e)
      with id Inr v c1 assms \<open>res = Inr v\<close> show ?thesis by (simp add: StartRaft_def start_ok_simple)
    next
      case (Inr adr)
      define c2 where "c2 = c1\<lparr>RaftAdvertiseAddr := adr\<rparr>"
      obtain sres evs where st: "newPersistentRaftStores (se_storage env) (Some c2) = (sres, evs)" by fastforce
      note base = id v c1(1) assms Inr \<open>res = Inr v\<close> c2_def [symmetric]
      show ?thesis
      proof (cases sres)
        case (Inl e)
        with st base new_stores_failure [of "se_storage env" "Some c2" e evs] show ?thesis
          by (auto simp: StartRaft_def start_ok_simple)
      next
        case (Inr s)
        obtain nres evs' where nr: "initRaftNode env c2 (Some s) = (nres, evs')" by fastforce
        have s: "evs = [StoreOpened]" "closer s \<noteq> None" "logStore s" "stableStore s" "snapshotStore s"
          "snd (stores_Close (Some s)) = [StoreClosed]"
          using new_stores_success [of "se_storage env" "Some c2" s evs] st Inr by (auto simp: stores_Close_def)
        show ?thesis
        proof (cases nres)
          case (Inl e)
          with nr initRaftNode_outcome [OF s(2-5), of env c2] have "evs' = [] \<or> evs' = [TransportOpened, TransportClosed]" by simp
          with Inl nr st base s(1,6) \<open>sres = Inr s\<close> show ?thesis by (auto simp: StartRaft_def start_ok_simple)
        next
          case nd: (Inr nd)
          with nr initRaftNode_outcome [OF s(2-5), of env c2] have f: "fresh_node nd" "evs' = [TransportOpened, RaftStarted]"
            by simp_all
          have "StartRaft env (Some config) None =
              run_node env nd identity had (c2\<lparr>RaftAdvertiseAddr := localAddr nd\<rparr>) all_opened"
            using nd nr st base s(1) f(2) \<open>sres = Inr s\<close> by (simp add: StartRaft_def all_opened_def)
          moreover have "JoinAddr (c2\<lparr>RaftAdvertiseAddr := localAddr nd\<rparr>) = JoinAddr config"
            "Bootstrap (c2\<lparr>RaftAdvertiseAddr := localAddr nd\<rparr>) = Bootstrap config"
            using c1 by (simp_all add: c2_def)
          moreover have "c2\<lparr>RaftAdvertiseAddr := localAddr nd\<rparr> = c1\<lparr>RaftAdvertiseAddr := localAddr nd\<rparr>" by (simp add: c2_def)
          moreover have "localID nd = GetRaftId (c2\<lparr>RaftAdvertiseAddr := localAddr nd\<rparr>)"
            using nd nr by (auto simp: initRaftNode_def initRaftNodeWithDB_def GetRaftId_def split: sum.splits option.splits if_splits)
          moreover have "resolveRaftIdentity (se_disk env) (Some config) = (Inr (identity, had), Some c1)"
            using id v c1(1) \<open>res = Inr v\<close> by simp
          ultimately show ?thesis using f(1) by (metis (no_types))
        qed
      qed
    qed
  qed
qed

lemma StartRaft_run:
  assumes "EnableRaft config"
  shows "(start_ok (StartRaft env (Some config) None) \<and> errs (StartRaft env (Some config) None) \<noteq> []) \<or>
    (\<exists>nd identity had c. fresh_node nd \<and> JoinAddr c = JoinAddr config \<and> Bootstrap c = Bootstrap config \<and>
       StartRaft env (Some config) None = run_node env nd identity had c all_opened)"
  using StartRaft_steps [OF assms, of env] by blast

lemma StartRaft_ok: "EnableRaft config \<Longrightarrow> start_ok (StartRaft env (Some config) None)"
  using StartRaft_run [of config env] run_node_ok by metis

lemma fail_with_errs [simp]: "errs (fail_with env nd err config evs) \<noteq> []"
  by (simp add: fail_with_def split: prod.split)

lemma finish_start_success:
  assumes "errs (finish_start env nd had config evs) = []"
    and "initialized nd \<Longrightarrow> validatePersistedRaftConfiguration (se_configuration env 0) config = Inr True"
  shows "config_after (finish_start env nd had config evs) = Some config
    \<and> (\<exists>j. validatePersistedRaftConfiguration (se_configuration env j) config = Inr True)"
  using assms wait_result [of "se_configuration env" 1 "se_wait env" config]
  by (auto simp: finish_start_def Let_def split: sum.splits option.splits if_splits)

lemma run_node_success:
  assumes "errs (run_node env nd identity had config evs) = []"
  shows "\<exists>c j. config_after (run_node env nd identity had config evs) = Some c
    \<and> validatePersistedRaftConfiguration (se_configuration env j) c = Inr True
    \<and> (se_configuration env 0 = Inr [] \<and> Bootstrap config \<noteq> (TrimSpace (JoinAddr config) \<noteq> [])
       \<or> se_configuration env 0 \<noteq> Inr [] \<and> \<not> Bootstrap config \<and> TrimSpace (JoinAddr config) = [])"
proof -
  obtain init where v: "validatePersistedRaftConfiguration (se_configuration env 0) config = Inr init"
    using assms by (auto simp: run_node_def split: if_splits sum.splits)
  have i: "init \<longleftrightarrow> se_configuration env 0 \<noteq> Inr []"
    using v by (auto simp: validatePersistedRaftConfiguration_def split: sum.splits if_splits option.splits)
  have intent: "validateRaftStartupIntent config init = None"
    using assms v by (auto simp: run_node_def Let_def split: if_splits option.splits)
  have "\<exists>c nd'. errs (finish_start env nd' had c evs) = [] \<and> run_node env nd identity had config evs = finish_start env nd' had c evs
      \<and> (initialized nd' \<longrightarrow> validatePersistedRaftConfiguration (se_configuration env 0) c = Inr True)"
  proof (cases init)
    case True
    with assms v intent show ?thesis
      by (intro exI [of _ config] exI [of _ "nd\<lparr>initialized := True\<rparr>"]) (auto simp: run_node_def Let_def split: if_splits)
  next
    case False
    obtain jres c' where j: "joinCluster (se_retry env) (se_dial env) (se_rpc env) (se_applied env) config = (jres, c')" by fastforce
    with assms v intent False show ?thesis
      by (intro exI [of _ "if Bootstrap config then config else c'"] exI [of _ "nd\<lparr>initialized := False\<rparr>"])
        (auto simp: run_node_def Let_def split: if_splits option.splits)
  qed
  then obtain c nd' where f: "errs (finish_start env nd' had c evs) = []"
    "run_node env nd identity had config evs = finish_start env nd' had c evs"
    "initialized nd' \<Longrightarrow> validatePersistedRaftConfiguration (se_configuration env 0) c = Inr True" by blast
  show ?thesis
    using finish_start_success [OF f(1,3)] f(2) intent i
    by (auto simp: validateRaftStartupIntent_def Let_def split: if_splits)
qed

section \<open>Properties\<close>

text \<open>
  C9. Starting a node leaks nothing: however the file system, the network and Raft behave, a start
  of an enabled node either fails, leaves no node behind and has released everything it opened, in the
  reverse order of opening, or succeeds with an initialized node whose store, transport and Raft
  instance are open.
\<close>

theorem start_releases_everything:
  assumes "EnableRaft config"
  shows "let r = StartRaft env (Some config) None in
    (if errs r = [] then (\<exists>nd. running r = Some nd \<and> initialized nd \<and> snd (snd (ShutdownRaft env (Some nd))) = [RaftShutdown, TransportClosed, StoreClosed])
       \<and> trace r = [StoreOpened, TransportOpened, RaftStarted]
     else running r = None \<and> trace r \<in> {[], [StoreOpened, StoreClosed],
       [StoreOpened, TransportOpened, TransportClosed, StoreClosed],
       [StoreOpened, TransportOpened, RaftStarted, RaftShutdown, TransportClosed, StoreClosed]})"
proof -
  have "snd (snd (ShutdownRaft env (Some nd))) = [RaftShutdown, TransportClosed, StoreClosed]" if "fresh_node nd" for nd
    using that by (auto simp: ShutdownRaft_def node_Close_def fresh_node_def stores_Close_def Let_def)
  then show ?thesis
    using StartRaft_ok [OF assms, of env] unfolding Let_def
    by (auto simp: start_ok_def all_opened_def all_closed_def split: if_splits)
qed

definition first_start :: start_env where
  "first_start =
     \<lparr>se_disk = \<lparr>open_file = (\<lambda>_. NotExist), read_dir = (\<lambda>_. DirNotExist), stat_file = (\<lambda>_. StatNotExist)\<rparr>,
      se_storage = \<lparr>env_mkdir = None, env_chmod_dir = None, env_bolt = BoltOpened, env_chmod_db = None,
        env_snapshot_store = None, env_chmod_snapshots = None, env_list = Inr 0, env_read_dir = Inr [], env_close = None\<rparr>,
      se_resolve = (\<lambda>a. Inr \<lparr>has_ip = True, unspecified = False, port = 7000, addr_text = ''h:7000''\<rparr>),
      se_existing = Inr False, se_transport = (\<lambda>_ _. Inr ''h:7000''), se_new_raft = None,
      se_configuration = (\<lambda>k. if k = 0 then Inr [] else Inr [\<lparr>Suffrage = Voter, ID = ''n1'', Address = ''h:7000''\<rparr>]),
      se_bootstrap = None, se_retry = try_once, se_dial = (\<lambda>_. False), se_rpc = (\<lambda>_ _ _. Inl []), se_applied = (\<lambda>_. 0),
      se_wait = [], se_persist = (\<lambda>_. None), se_tmp = ''t'', se_partial = 0, se_files = (\<lambda>_. None),
      se_shutdown = None, se_transport_close = None\<rparr>"

definition first_config :: Config where
  "first_config = InitDBConfig (flag_defaults\<lparr>f_enable_raft := True, f_bootstrap := True, f_raft_id := ''n1'', f_raft_addr := ''h:7000''\<rparr>)"

lemma first_config_facts:
  "EnableRaft first_config" "Bootstrap first_config" "JoinAddr first_config = []" "raftID first_config = ''n1''"
  "RaftAdvertiseAddr first_config = []" "RaftAddr first_config = ''h:7000''" "dataDir first_config = []"
  by (simp_all add: first_config_def InitDBConfig_def flag_defaults_def TrimSpace_printable printable_def)

lemma first_getters:
  "raftID c = ''n1'' \<Longrightarrow> GetRaftId c = ''n1''" "RaftAdvertiseAddr c = ''h:7000'' \<Longrightarrow> GetRaftAdvertiseAddr c = ''h:7000''"
  by (simp_all add: GetRaftId_def GetRaftAdvertiseAddr_def TrimSpace_printable printable_def)

lemma first_config_advertise: "GetRaftAdvertiseAddr first_config = ''h:7000''"
  by (simp add: GetRaftAdvertiseAddr_def first_config_facts TrimSpace_printable printable_def)

lemma first_dir: "\<exists>d. raftNodeDataDir (Some (first_config\<lparr>RaftAdvertiseAddr := a\<rparr>)) = Inr d"
  by (simp add: raftNodeDataDir_def Let_def first_getters first_config_facts Base_plain slash_def Contains_byte)

lemma first_start_result:
  "errs (StartRaft first_start (Some first_config) None) = []
   \<and> config_after (StartRaft first_start (Some first_config) None) = Some (first_config\<lparr>RaftAdvertiseAddr := ''h:7000''\<rparr>)
   \<and> (\<exists>nd. running (StartRaft first_start (Some first_config) None) = Some nd \<and> localID nd = ''n1'' \<and> localAddr nd = ''h:7000'')"
proof -
  let ?c = "first_config\<lparr>RaftAdvertiseAddr := ''h:7000''\<rparr>"
  obtain d where d: "raftNodeDataDir (Some ?c) = Inr d" using first_dir by blast
  have id: "resolveRaftIdentity (se_disk first_start) (Some first_config) = (Inr (None, False), Some first_config)"
    by (simp add: resolveRaftIdentity_def first_start_def discoverLegacyRaftIDs_def first_getters first_config_facts)
  have nm: "normalizeRaftAdvertiseAddr (se_resolve first_start) (GetRaftAdvertiseAddr first_config) = Inr ''h:7000''"
    by (simp add: normalizeRaftAdvertiseAddr_def first_config_advertise TrimSpace_printable printable_def first_start_def)
  have st: "newPersistentRaftStores (se_storage first_start) (Some ?c) =
      (Inr \<lparr>logStore = True, stableStore = True, snapshotStore = True, closer = Some None\<rparr>, [StoreOpened])"
    by (simp add: newPersistentRaftStores_def d first_start_def rejectUnreadableFinalizedSnapshots_def)
  have w: "waitForLocalRaftConfiguration (se_configuration first_start) (Suc 0) [] ?c = Inr True"
    by (simp add: waitForLocalRaftConfiguration.simps validatePersistedRaftConfiguration_def first_start_def first_getters first_config_facts)
  show ?thesis
    using id nm st w
    by (simp add: StartRaft_def first_config_facts initRaftNode_def initRaftNodeWithDB_def run_node_def finish_start_def
        validatePersistedRaftConfiguration_def validateRaftStartupIntent_def createNewCluster_def persistRaftIdentity_def Let_def
        first_start_def first_getters)
qed

lemmas first_start_errs = first_start_result [THEN conjunct1]

theorem start_releases_everything_witness:
  "trace (StartRaft first_start (Some first_config) None) = [StoreOpened, TransportOpened, RaftStarted]"
  using start_releases_everything [OF first_config_facts(1), of first_start] first_start_errs by (simp add: Let_def)

text \<open>
  C26. A node that runs is a member under its own name: if the start of an enabled node succeeds, then
  Raft's configuration, as the node read it, lists its identity at its advertised address; and the
  operator's intent fits the state found on disk, that is exactly one of bootstrapping and joining for
  a node without a configuration and neither of them for one that has a configuration.
\<close>

theorem started_node_is_member:
  assumes "EnableRaft config" "errs (StartRaft env (Some config) None) = []"
  shows "\<exists>cfg j servers s. config_after (StartRaft env (Some config) None) = Some cfg
    \<and> se_configuration env j = Inr servers \<and> s \<in> set servers
    \<and> ID s = GetRaftId cfg \<and> Address s = GetRaftAdvertiseAddr cfg
    \<and> (se_configuration env 0 = Inr [] \<and> Bootstrap config \<noteq> (TrimSpace (JoinAddr config) \<noteq> [])
       \<or> se_configuration env 0 \<noteq> Inr [] \<and> \<not> Bootstrap config \<and> TrimSpace (JoinAddr config) = [])"
proof -
  obtain nd identity had c where run: "JoinAddr c = JoinAddr config" "Bootstrap c = Bootstrap config"
    "StartRaft env (Some config) None = run_node env nd identity had c all_opened"
    using StartRaft_run [OF assms(1), of env] assms(2) by metis
  obtain cfg j where v: "config_after (StartRaft env (Some config) None) = Some cfg"
    "validatePersistedRaftConfiguration (se_configuration env j) cfg = Inr True"
    "se_configuration env 0 = Inr [] \<and> Bootstrap config \<noteq> (TrimSpace (JoinAddr config) \<noteq> [])
       \<or> se_configuration env 0 \<noteq> Inr [] \<and> \<not> Bootstrap config \<and> TrimSpace (JoinAddr config) = []"
    using run_node_success [of env nd identity had c all_opened] assms(2) run by auto
  obtain servers s where "se_configuration env j = Inr servers" "List.find (\<lambda>x. ID x = GetRaftId cfg) servers = Some s"
    "Address s = GetRaftAdvertiseAddr cfg"
    using v(2) by (auto simp: validatePersistedRaftConfiguration_def split: sum.splits if_splits option.splits)
  moreover from this(2) have "s \<in> set servers" "ID s = GetRaftId cfg" by (auto dest: find_SomeD)
  ultimately show ?thesis using v(1,3) by blast
qed

theorem started_node_is_member_witness:
  "\<exists>cfg j servers s. config_after (StartRaft first_start (Some first_config) None) = Some cfg
    \<and> se_configuration first_start j = Inr servers \<and> s \<in> set servers
    \<and> ID s = GetRaftId cfg \<and> Address s = GetRaftAdvertiseAddr cfg"
  using started_node_is_member [OF first_config_facts(1) first_start_errs] by blast

end
