(* ===== verification/Daemon.thy ===== *)
theory Daemon
  imports Sessions RaftStart
begin

text \<open>
  The server process as a whole: \<^verbatim>\<open>main\<close> of \<^verbatim>\<open>main.go\<close>, \<^verbatim>\<open>InitRaft\<close> of \<^verbatim>\<open>src/server/raft_server.go\<close> and
  \<^verbatim>\<open>InitRESPTCPServer\<close> of \<^verbatim>\<open>src/server/resp_server.go\<close>. Start-up is a function from the outcomes of the
  calls into the operating system to either the fatal error the process exits with or the running
  process. A running process is a state machine: one program counter for \<^verbatim>\<open>main\<close>, which waits for the
  wait group, one for each of the four goroutines the two functions start, the context's state, the
  listener, the number of pending calls of the admin server and of readers of \<^verbatim>\<open>raftNodeMu\<close>, the Raft node, and the server
  with its connections. Steps of the goroutines are kept apart from those of the environment: the clients, the
  failures of the operating system and the signal. The scheduler is free; for the end of a shutdown it is weakly fair
  to the goroutines, never to the environment.

  Lemmas: the invariant of the life cycle; from it, that \<^verbatim>\<open>main\<close> returns only after a signal and with Raft
  closed, that a shutdown ends, and what clients see after the admin server failed.
\<close>

section \<open>Start-up\<close>

datatype fatal =
    RaftStartFailed "start_error list"
  | AdminListenFailed bytes
  | RespListenFailed bytes
  | RespCloseFailed bytes

text \<open>The part of \<^verbatim>\<open>InitRaft\<close> after the node was started; \<open>listen\<close> says how listening on an address ends.\<close>

definition listen_admin ::
  "start_env \<Rightarrow> (bytes \<Rightarrow> bytes option) \<Rightarrow> started_node option \<Rightarrow> Config \<Rightarrow> event list \<Rightarrow>
   (fatal + started_node option) \<times> Config \<times> event list" where
  "listen_admin env listen nodep config evs =
     (case listen (AdminAddr config) of
        Some err \<Rightarrow> (case ShutdownRaft env nodep of (_, _, cevs) \<Rightarrow> (Inl (AdminListenFailed err), config, evs @ cevs))
      | None \<Rightarrow> (Inr nodep, config, evs))"

definition InitRaft ::
  "start_env \<Rightarrow> (bytes \<Rightarrow> bytes option) \<Rightarrow> Config \<Rightarrow> (fatal + started_node option) \<times> Config \<times> event list" where
  "InitRaft env listen config =
     (if EnableRaft config then
        (let r = StartRaft env (Some config) None in
         if errs r \<noteq> [] then (Inl (RaftStartFailed (errs r)), the (config_after r), trace r)
         else listen_admin env listen (running r) (the (config_after r)) (trace r))
      else listen_admin env listen None config [])"

definition InitRESPTCPServer :: "(bytes \<Rightarrow> bytes option) \<Rightarrow> Config \<Rightarrow> fatal option" where
  "InitRESPTCPServer listen config =
     (case listen (ListenAddr config) of Some err \<Rightarrow> Some (RespListenFailed err) | None \<Rightarrow> None)"

text \<open>\<^verbatim>\<open>main\<close> up to \<^verbatim>\<open>wg.Wait\<close>.\<close>

definition start_main ::
  "start_env \<Rightarrow> (bytes \<Rightarrow> bytes option) \<Rightarrow> flag_values \<Rightarrow> (fatal + started_node option) \<times> event list" where
  "start_main env listen flags =
     (case InitRaft env listen (InitDBConfig flags) of
        (Inl f, _, evs) \<Rightarrow> (Inl f, evs)
      | (Inr nodep, config, evs) \<Rightarrow>
          (case InitRESPTCPServer listen config of
             Some f \<Rightarrow> (Inl f, evs)
           | None \<Rightarrow> (Inr nodep, evs)))"

section \<open>The running process\<close>

datatype main_pc = MainWaiting | MainReturned | Exited fatal
datatype admin_pc = AdminServing | AdminServeReturned bool | AdminLocking bool | AdminRaftClosed | AdminDone
datatype stopper_pc = StopperWaiting | StopperCalled | StopperDone
datatype accept_pc = AcceptLoop | AcceptDone
datatype closer_pc = CloserWaiting | CloserDone

record daemon =
  ctxDone :: bool
  wg :: nat
  main_at :: main_pc
  admin_at :: admin_pc
  stopper_at :: stopper_pc
  accept_at :: accept_pc
  closer_at :: closer_pc
  listening :: bool
  rpcs :: nat \<comment> \<open>handlers of the admin server that are running\<close>
  readers :: nat \<comment> \<open>goroutines inside a section under \<^verbatim>\<open>raftNodeMu.RLock\<close>\<close>
  raftNode :: "started_node option"
  events :: "event list"
  sv :: server

definition daemon_start :: "started_node option \<Rightarrow> event list \<Rightarrow> process \<Rightarrow> daemon" where
  "daemon_start nodep evs p =
     \<lparr>ctxDone = False, wg = 2, main_at = MainWaiting, admin_at = AdminServing, stopper_at = StopperWaiting,
      accept_at = AcceptLoop, closer_at = CloserWaiting, listening = True, rpcs = 0, readers = 0, raftNode = nodep, events = evs,
      sv = server_start p\<rparr>"

definition alive :: "daemon \<Rightarrow> bool" where
  "alive s \<longleftrightarrow> main_at s = MainWaiting \<and> crashed (sv s) = None"

text \<open>
  The steps the goroutines take by themselves, each labelled with the one that takes it: \<^verbatim>\<open>main\<close>, the four
  goroutines of the two servers, the handlers of the admin server and the goroutines that hold the read
  lock of \<^verbatim>\<open>raftNodeMu\<close>. Nothing here is a failure. \<^verbatim>\<open>Accept\<close> returns once the listener is closed. \<^verbatim>\<open>GracefulStop\<close>
  admits no new calls and returns once the pending ones have; \<^verbatim>\<open>Serve\<close>, when it was stopped by it, returns only then.
  \<^verbatim>\<open>ShutdownRaft\<close> takes the write lock of \<^verbatim>\<open>raftNodeMu\<close>, so it waits until every reader has left; it
  clears the package's node before it closes it, so from then on no connection finds a Raft node.
\<close>

datatype goroutine = MainGo | AdminGo | StopperGo | AcceptGo | CloserGo | HandlerGo | ReaderGo

inductive life_step :: "start_env \<Rightarrow> goroutine \<Rightarrow> daemon \<Rightarrow> daemon \<Rightarrow> bool" for env where
  close_listener: "alive s \<Longrightarrow> ctxDone s \<Longrightarrow> closer_at s = CloserWaiting \<Longrightarrow>
    life_step env CloserGo s (s\<lparr>listening := False, closer_at := CloserDone\<rparr>)"
| accept_returns: "alive s \<Longrightarrow> accept_at s = AcceptLoop \<Longrightarrow> \<not> listening s \<Longrightarrow>
    life_step env AcceptGo s (s\<lparr>accept_at := AcceptDone, wg := wg s - 1\<rparr>)"
| stop_called: "alive s \<Longrightarrow> ctxDone s \<Longrightarrow> stopper_at s = StopperWaiting \<Longrightarrow>
    life_step env StopperGo s (s\<lparr>stopper_at := StopperCalled\<rparr>)"
| rpc_returns: "alive s \<Longrightarrow> 0 < rpcs s \<Longrightarrow> life_step env HandlerGo s (s\<lparr>rpcs := rpcs s - 1\<rparr>)"
| stop_returns: "alive s \<Longrightarrow> stopper_at s = StopperCalled \<Longrightarrow> rpcs s = 0 \<Longrightarrow>
    life_step env StopperGo s (s\<lparr>stopper_at := StopperDone\<rparr>)"
| serve_stopped: "alive s \<Longrightarrow> admin_at s = AdminServing \<Longrightarrow> stopper_at s = StopperDone \<Longrightarrow>
    life_step env AdminGo s (s\<lparr>admin_at := AdminServeReturned False\<rparr>)"
| shutdown_locks: "alive s \<Longrightarrow> admin_at s = AdminServeReturned b \<Longrightarrow>
    life_step env AdminGo s (s\<lparr>admin_at := AdminLocking b\<rparr>)"
| reader_leaves: "alive s \<Longrightarrow> 0 < readers s \<Longrightarrow> life_step env ReaderGo s (s\<lparr>readers := readers s - 1\<rparr>)"
| raft_shutdown: "alive s \<Longrightarrow> admin_at s = AdminLocking b \<Longrightarrow> readers s = 0 \<Longrightarrow>
    ShutdownRaft env (raftNode s) = (cerrs, nodep, evs) \<Longrightarrow>
    life_step env AdminGo s
      (s\<lparr>admin_at := AdminRaftClosed, raftNode := nodep, events := events s @ evs,
         sv := (sv s)\<lparr>proc := (proc (sv s))\<lparr>raft_role := None\<rparr>\<rparr>\<rparr>)"
| admin_returns: "alive s \<Longrightarrow> admin_at s = AdminRaftClosed \<Longrightarrow>
    life_step env AdminGo s (s\<lparr>admin_at := AdminDone, wg := wg s - 1\<rparr>)"
| main_returns: "alive s \<Longrightarrow> wg s = 0 \<Longrightarrow> life_step env MainGo s (s\<lparr>main_at := MainReturned\<rparr>)"

text \<open>
  Everything else. The environment: the signal, a failed \<^verbatim>\<open>Accept\<close>, which is retried before the signal and ends
  the loop after it, a listener that cannot be closed, which ends the process, and \<^verbatim>\<open>Serve\<close> failing of its own. The
  clients: a new connection, a new call of the admin server, as long as it has not been told to stop, and the
  steps of the connections and of the Raft library. A goroutine enters a section under the read lock only while no
  writer waits for the lock.
\<close>

inductive daemon_step :: "start_env \<Rightarrow> raft_lib \<Rightarrow> (nat \<Rightarrow> nat) \<Rightarrow> (nat \<Rightarrow> reader) \<Rightarrow> daemon \<Rightarrow> daemon \<Rightarrow> bool"
  for env lib up input where
  life: "life_step env g s t \<Longrightarrow> daemon_step env lib up input s t"
| signal: "alive s \<Longrightarrow> daemon_step env lib up input s (s\<lparr>ctxDone := True\<rparr>)"
| accept_failed: "alive s \<Longrightarrow> accept_at s = AcceptLoop \<Longrightarrow> \<not> ctxDone s \<Longrightarrow> daemon_step env lib up input s s"
| accept_broken: "alive s \<Longrightarrow> accept_at s = AcceptLoop \<Longrightarrow> ctxDone s \<Longrightarrow>
    daemon_step env lib up input s (s\<lparr>accept_at := AcceptDone, wg := wg s - 1\<rparr>)"
| close_failed: "alive s \<Longrightarrow> ctxDone s \<Longrightarrow> closer_at s = CloserWaiting \<Longrightarrow>
    daemon_step env lib up input s (s\<lparr>main_at := Exited (RespCloseFailed err)\<rparr>)"
| serve_failed: "alive s \<Longrightarrow> admin_at s = AdminServing \<Longrightarrow> stopper_at s = StopperWaiting \<Longrightarrow>
    daemon_step env lib up input s (s\<lparr>admin_at := AdminServeReturned True\<rparr>)"
| connected: "alive s \<Longrightarrow> accept_at s = AcceptLoop \<Longrightarrow> listening s \<Longrightarrow> conns (sv s) i = None \<Longrightarrow>
    daemon_step env lib up input s (s\<lparr>sv := (sv s)\<lparr>conns := (conns (sv s))(i \<mapsto> new_conn (input i))\<rparr>\<rparr>)"
| rpc_called: "alive s \<Longrightarrow> stopper_at s = StopperWaiting \<Longrightarrow> daemon_step env lib up input s (s\<lparr>rpcs := Suc (rpcs s)\<rparr>)"
| reader_enters: "alive s \<Longrightarrow> (\<And>b. admin_at s \<noteq> AdminLocking b) \<Longrightarrow>
    daemon_step env lib up input s (s\<lparr>readers := Suc (readers s)\<rparr>)"
| activity: "alive s \<Longrightarrow> quiet_step lib up input (sv s) v \<Longrightarrow>
    daemon_step env lib up input s (s\<lparr>sv := v\<rparr>)"

inductive daemon_reach :: "start_env \<Rightarrow> raft_lib \<Rightarrow> (nat \<Rightarrow> nat) \<Rightarrow> (nat \<Rightarrow> reader) \<Rightarrow> daemon \<Rightarrow> daemon \<Rightarrow> bool"
  for env lib up input s0 where
  start: "daemon_reach env lib up input s0 s0"
| step: "daemon_reach env lib up input s0 s \<Longrightarrow> daemon_step env lib up input s t \<Longrightarrow> daemon_reach env lib up input s0 t"

section \<open>The invariant of the life cycle\<close>

lemma ExecuteLocally_role: "ExecuteLocally lib cmd p = (ret, q) \<Longrightarrow> raft_role q = raft_role p"
  by (auto simp: ExecuteLocally_def split: prod.splits)

lemma conn_step_no_raft: "conn_step lib up c p = (c', p', ev) \<Longrightarrow> raft_role p = None \<Longrightarrow> raft_role p' = None"
  by (auto simp: conn_step_def ApplyCmdViaRaft_def split: conn_pc.splits prod.splits dest!: ExecuteLocally_role)

lemma server_step_no_raft: "server_step lib up input v v' \<Longrightarrow> raft_role (proc v) = None \<Longrightarrow> raft_role (proc v') = None"
  by (induction rule: server_step.induct) (auto dest: conn_step_no_raft)

definition raft_closed :: "daemon \<Rightarrow> bool" where
  "raft_closed s \<longleftrightarrow> admin_at s = AdminRaftClosed \<or> admin_at s = AdminDone"

definition life_inv :: "start_env \<Rightarrow> started_node option \<Rightarrow> event list \<Rightarrow> daemon \<Rightarrow> bool" where
  "life_inv env nodep evs s \<longleftrightarrow>
     wg s = (if accept_at s = AcceptLoop then 1 else 0) + (if admin_at s = AdminDone then 0 else 1)
     \<and> (if raft_closed s
        then raftNode s = None \<and> raft_role (proc (sv s)) = None \<and> events s = evs @ snd (snd (ShutdownRaft env nodep))
        else raftNode s = nodep \<and> events s = evs)
     \<and> (accept_at s = AcceptDone \<longrightarrow> ctxDone s) \<and> (listening s \<longleftrightarrow> closer_at s = CloserWaiting)
     \<and> (\<not> listening s \<longrightarrow> ctxDone s) \<and> (stopper_at s \<noteq> StopperWaiting \<longrightarrow> ctxDone s)
     \<and> (main_at s = MainReturned \<longrightarrow> wg s = 0) \<and> (\<forall>x. main_at s = Exited x \<longrightarrow> (\<exists>err. x = RespCloseFailed err))"

lemma life_inv_start: "life_inv env nodep evs (daemon_start nodep evs p)"
  by (simp add: life_inv_def daemon_start_def raft_closed_def)

lemma ShutdownRaft_clears: "ShutdownRaft env nodep = (cerrs, n, cevs) \<Longrightarrow> n = None"
  by (auto simp: ShutdownRaft_def split: option.splits prod.splits)

lemma life_step_inv: "life_step env g s t \<Longrightarrow> life_inv env nodep evs s \<Longrightarrow> life_inv env nodep evs t"
proof (induction rule: life_step.induct)
  case (raft_shutdown s b cerrs n cevs)
  then show ?case using ShutdownRaft_clears by (auto simp: life_inv_def raft_closed_def alive_def)
qed (auto simp: life_inv_def raft_closed_def alive_def split: if_splits)

lemma daemon_step_inv: "daemon_step env lib up input s t \<Longrightarrow> life_inv env nodep evs s \<Longrightarrow> life_inv env nodep evs t"
proof (induction rule: daemon_step.induct)
  case (life g s t)
  then show ?case by (rule life_step_inv)
next
  case (activity s v)
  then show ?case using server_step_no_raft by (auto simp: life_inv_def raft_closed_def quiet_step_def)
qed (auto simp: life_inv_def raft_closed_def alive_def split: if_splits)

lemma daemon_reach_inv:
  "daemon_reach env lib up input s0 s \<Longrightarrow> s0 = daemon_start nodep evs p \<Longrightarrow> life_inv env nodep evs s"
  by (induction rule: daemon_reach.induct) (auto simp: life_inv_start dest: daemon_step_inv)

section \<open>Start-up outcomes\<close>

lemma ShutdownRaft_fresh: "fresh_node nd \<Longrightarrow> snd (snd (ShutdownRaft env (Some nd))) = all_closed"
  by (auto simp: ShutdownRaft_def node_Close_def fresh_node_def stores_Close_def all_closed_def Let_def)

text \<open>What \<^verbatim>\<open>InitRaft\<close> leaves behind when it succeeds: no node, or a fresh one with everything open.\<close>

definition init_ok :: "started_node option \<Rightarrow> event list \<Rightarrow> bool" where
  "init_ok nodep evs \<longleftrightarrow> (case nodep of None \<Rightarrow> evs = [] | Some nd \<Rightarrow> fresh_node nd \<and> evs = all_opened)"

text \<open>The closing events of a list undo its opening events in reverse order of dependency.\<close>

definition released :: "event list \<Rightarrow> bool" where
  "released evs \<longleftrightarrow> count_list evs StoreOpened = count_list evs StoreClosed
    \<and> count_list evs TransportOpened = count_list evs TransportClosed \<and> count_list evs RaftStarted = count_list evs RaftShutdown"

lemma init_ok_closed: "init_ok nodep evs \<Longrightarrow> released (evs @ snd (snd (ShutdownRaft env nodep)))"
  by (auto simp: init_ok_def released_def ShutdownRaft_fresh all_opened_def all_closed_def ShutdownRaft_def [of env None]
      split: option.splits)

lemma InitRaft_outcome:
  "case InitRaft env listen config of
     (Inl f, _, evs) \<Rightarrow> released evs
   | (Inr nodep, _, evs) \<Rightarrow> init_ok nodep evs \<and> (nodep \<noteq> None \<longleftrightarrow> EnableRaft config)"
proof -
  have listen: "case listen_admin env listen nodep c evs of (Inl f, _, evs') \<Rightarrow> released evs' | (Inr n, _, evs') \<Rightarrow> n = nodep \<and> evs' = evs"
    if "init_ok nodep evs" for nodep c evs
    using init_ok_closed [OF that, of env] by (auto simp: listen_admin_def split: option.splits prod.splits)
  show ?thesis
  proof (cases "EnableRaft config")
    case False
    have "init_ok None []" by (simp add: init_ok_def)
    from listen [OF this, of config] False show ?thesis by (auto simp: InitRaft_def init_ok_def split: prod.splits sum.splits)
  next
    case True
    let ?r = "StartRaft env (Some config) None"
    have ok: "start_ok ?r" by (rule StartRaft_ok [OF True])
    show ?thesis
    proof (cases "errs ?r = []")
      case False
      then show ?thesis using ok True by (auto simp: InitRaft_def start_ok_def released_def all_opened_def all_closed_def Let_def)
    next
      case e: True
      obtain nd where nd: "running ?r = Some nd" "fresh_node nd" "trace ?r = all_opened" using ok e by (auto simp: start_ok_def)
      have "init_ok (Some nd) all_opened" using nd(2) by (simp add: init_ok_def)
      from listen [OF this, of "the (config_after ?r)"] nd e True show ?thesis
        by (auto simp: InitRaft_def init_ok_def Let_def split: prod.splits sum.splits)
    qed
  qed
qed

section \<open>Shutting down\<close>

text \<open>
  Which goroutine brings the end closer after the signal, and the step it takes. Two numbers bound what is left:
  the program counters that have to move, and whatever the process waits for in the place where it is, the
  pending calls while \<^verbatim>\<open>GracefulStop\<close> runs and the readers while \<^verbatim>\<open>ShutdownRaft\<close> waits for the lock.
\<close>

fun admin_helper :: "daemon \<Rightarrow> admin_pc \<Rightarrow> goroutine" where
  "admin_helper s AdminServing =
     (if stopper_at s = StopperDone then AdminGo else if 0 < rpcs s then HandlerGo else StopperGo)"
| "admin_helper s (AdminLocking b) = (if 0 < readers s then ReaderGo else AdminGo)"
| "admin_helper s AdminDone = MainGo"
| "admin_helper s _ = AdminGo"

definition helper :: "daemon \<Rightarrow> goroutine" where
  "helper s =
     (if closer_at s = CloserWaiting then CloserGo
      else if accept_at s = AcceptLoop then AcceptGo
      else if stopper_at s = StopperWaiting then StopperGo
      else admin_helper s (admin_at s))"

fun admin_left :: "admin_pc \<Rightarrow> nat" where
  "admin_left AdminServing = 4" | "admin_left (AdminServeReturned b) = 3" | "admin_left (AdminLocking b) = 2"
| "admin_left AdminRaftClosed = 1" | "admin_left AdminDone = 0"

fun stopper_left :: "stopper_pc \<Rightarrow> nat" where
  "stopper_left StopperWaiting = 2" | "stopper_left StopperCalled = 1" | "stopper_left StopperDone = 0"

definition life_left :: "daemon \<Rightarrow> nat" where
  "life_left s = admin_left (admin_at s) + stopper_left (stopper_at s)
    + (if main_at s = MainWaiting then 1 else 0) + (if accept_at s = AcceptLoop then 1 else 0) + (if closer_at s = CloserWaiting then 1 else 0)"

definition waits_for :: "daemon \<Rightarrow> nat" where
  "waits_for s = (if stopper_at s = StopperCalled \<and> admin_at s = AdminServing then rpcs s
    else case admin_at s of AdminLocking b \<Rightarrow> readers s | _ \<Rightarrow> 0)"

definition nearer :: "(daemon \<times> daemon) set" where
  "nearer = measures [life_left, waits_for]"

lemma wf_nearer: "wf nearer"
  by (simp add: nearer_def)

lemma nearer_iff: "(t, s) \<in> nearer \<longleftrightarrow> life_left t < life_left s \<or> life_left t = life_left s \<and> waits_for t < waits_for s"
  by (simp add: nearer_def)

text \<open>A scheduler for the phase after the signal: the step the helper takes.\<close>

definition next_life :: "start_env \<Rightarrow> daemon \<Rightarrow> daemon" where
  "next_life env s =
     (case helper s of
        CloserGo \<Rightarrow> s\<lparr>listening := False, closer_at := CloserDone\<rparr>
      | AcceptGo \<Rightarrow> s\<lparr>accept_at := AcceptDone, wg := wg s - 1\<rparr>
      | StopperGo \<Rightarrow> s\<lparr>stopper_at := (if stopper_at s = StopperWaiting then StopperCalled else StopperDone)\<rparr>
      | HandlerGo \<Rightarrow> s\<lparr>rpcs := rpcs s - 1\<rparr>
      | ReaderGo \<Rightarrow> s\<lparr>readers := readers s - 1\<rparr>
      | MainGo \<Rightarrow> s\<lparr>main_at := MainReturned\<rparr>
      | AdminGo \<Rightarrow>
          (case admin_at s of
             AdminServing \<Rightarrow> s\<lparr>admin_at := AdminServeReturned False\<rparr>
           | AdminServeReturned b \<Rightarrow> s\<lparr>admin_at := AdminLocking b\<rparr>
           | AdminLocking b \<Rightarrow>
               (case ShutdownRaft env (raftNode s) of
                  (_, nodep, evs) \<Rightarrow>
                    s\<lparr>admin_at := AdminRaftClosed, raftNode := nodep, events := events s @ evs,
                      sv := (sv s)\<lparr>proc := (proc (sv s))\<lparr>raft_role := None\<rparr>\<rparr>\<rparr>)
           | _ \<Rightarrow> s\<lparr>admin_at := AdminDone, wg := wg s - 1\<rparr>))"

lemma admin_progress:
  assumes "life_inv env nodep evs s" "alive s" "closer_at s \<noteq> CloserWaiting" "accept_at s \<noteq> AcceptLoop" "stopper_at s \<noteq> StopperWaiting"
  shows "life_step env (helper s) s (next_life env s)"
proof -
  have h: "helper s = admin_helper s (admin_at s)" using assms(3-5) by (simp add: helper_def)
  show ?thesis
  proof (cases "admin_at s")
    case AdminServing
    then show ?thesis using assms(2,5) h
      by (cases "stopper_at s") (auto simp: next_life_def intro: life_step.serve_stopped life_step.rpc_returns life_step.stop_returns simp del: One_nat_def)
  next
    case (AdminServeReturned b)
    then show ?thesis using assms(2) h by (simp add: next_life_def life_step.shutdown_locks)
  next
    case (AdminLocking b)
    then show ?thesis using assms(2) h life_step.raft_shutdown [OF assms(2) AdminLocking]
      by (cases "ShutdownRaft env (raftNode s)") (auto simp: next_life_def intro: life_step.reader_leaves simp del: One_nat_def)
  next
    case AdminRaftClosed
    then show ?thesis using assms(2) h life_step.admin_returns by (simp add: next_life_def del: One_nat_def)
  next
    case AdminDone
    then have "wg s = 0" using assms(1,4) by (simp add: life_inv_def)
    then show ?thesis using AdminDone assms(2) h by (simp add: next_life_def life_step.main_returns)
  qed
qed

lemma life_progress:
  assumes "life_inv env nodep evs s" "ctxDone s" "alive s"
  shows "life_step env (helper s) s (next_life env s)"
proof -
  have l: "listening s \<longleftrightarrow> closer_at s = CloserWaiting" using assms(1) by (simp add: life_inv_def)
  consider "closer_at s = CloserWaiting" | "closer_at s \<noteq> CloserWaiting" "accept_at s = AcceptLoop"
    | "closer_at s \<noteq> CloserWaiting" "accept_at s \<noteq> AcceptLoop" "stopper_at s = StopperWaiting"
    | "closer_at s \<noteq> CloserWaiting" "accept_at s \<noteq> AcceptLoop" "stopper_at s \<noteq> StopperWaiting" by blast
  then show ?thesis
  proof cases
    case 4
    then show ?thesis by (rule admin_progress [OF assms(1,3)])
  qed (use assms l in \<open>simp_all add: helper_def next_life_def life_step.close_listener life_step.accept_returns life_step.stop_called del: One_nat_def\<close>)
qed

text \<open>No step puts the end further away, and one that does not bring it closer leaves the helper the same.\<close>

lemma step_rank:
  assumes "daemon_step env lib up input s t"
  shows "(t, s) \<in> nearer \<or> life_left t = life_left s \<and> waits_for t = waits_for s \<and> helper t = helper s"
  using assms
proof (cases rule: daemon_step.cases)
  case (life g)
  then show ?thesis
    by (cases rule: life_step.cases; cases "stopper_at s")
      (auto simp: nearer_iff life_left_def waits_for_def helper_def alive_def split: admin_pc.splits)
next
  case rpc_called
  then show ?thesis by (cases "admin_at s") (auto simp: nearer_iff life_left_def waits_for_def helper_def)
next
  case reader_enters
  then show ?thesis by (cases "admin_at s") (auto simp: nearer_iff life_left_def waits_for_def helper_def)
next
  case activity
  then show ?thesis by (cases "admin_at s") (auto simp: nearer_iff life_left_def waits_for_def helper_def)
next
  case connected
  then show ?thesis by (cases "admin_at s") (auto simp: nearer_iff life_left_def waits_for_def helper_def)
next
  case signal
  then show ?thesis by (cases "admin_at s") (auto simp: nearer_iff life_left_def waits_for_def helper_def)
qed (auto simp: nearer_iff life_left_def waits_for_def helper_def alive_def)

lemma helper_nearer:
  assumes "life_step env (helper s) s t"
  shows "(t, s) \<in> nearer"
proof -
  have "g = helper s \<Longrightarrow> (t, s) \<in> nearer" if "life_step env g s t" for g
    using that
  proof (induction rule: life_step.induct)
    case (rpc_returns s)
    then show ?case
      by (cases "admin_at s"; cases "stopper_at s") (auto simp: nearer_iff life_left_def waits_for_def helper_def split: if_splits)
  next
    case (reader_leaves s)
    then show ?case by (cases "admin_at s") (auto simp: nearer_iff life_left_def waits_for_def helper_def split: if_splits)
  qed (auto simp: nearer_iff life_left_def alive_def)
  with assms show ?thesis by blast
qed

lemma life_step_ctx: "life_step env g s t \<Longrightarrow> ctxDone t = ctxDone s"
  by (induction rule: life_step.induct) auto

lemma daemon_step_ctx: "daemon_step env lib up input s t \<Longrightarrow> ctxDone s \<Longrightarrow> ctxDone t"
  by (induction rule: daemon_step.induct) (auto dest: life_step_ctx)

lemma next_life_stays:
  "crashed (sv (next_life env s)) = crashed (sv s)"
  "main_at (next_life env s) = main_at s \<or> main_at (next_life env s) = MainReturned"
  by (auto simp: next_life_def split: goroutine.split admin_pc.split prod.split)

text \<open>After the signal the process can always be brought to its regular end.\<close>

lemma shutdown_reaches:
  assumes "daemon_reach env lib up input s0 s" "life_inv env nodep evs s" "ctxDone s" "alive s"
  shows "\<exists>t. daemon_reach env lib up input s0 t \<and> main_at t = MainReturned"
  using assms
proof (induction s rule: wf_induct_rule [OF wf_nearer])
  case (1 s)
  let ?t = "next_life env s"
  have st: "life_step env (helper s) s ?t" by (rule life_progress [OF 1(3-5)])
  have r: "daemon_reach env lib up input s0 ?t" by (rule daemon_reach.step [OF 1(2) daemon_step.life [OF st]])
  show ?case
  proof (cases "main_at ?t = MainReturned")
    case False
    then have "alive ?t" using 1(5) next_life_stays [of env s] by (auto simp: alive_def)
    then show ?thesis
      using 1(1) [OF helper_nearer [OF st] r life_step_inv [OF st 1(3)]] life_step_ctx [OF st] 1(4) by simp
  qed (use r in blast)
qed

section \<open>Fair runs\<close>

text \<open>A run: it goes on while the process is alive and stays put afterwards.\<close>

definition is_run :: "('s \<Rightarrow> 's \<Rightarrow> bool) \<Rightarrow> ('s \<Rightarrow> bool) \<Rightarrow> (nat \<Rightarrow> 's) \<Rightarrow> bool" where
  "is_run step up_and_running f \<longleftrightarrow> (\<forall>n. if up_and_running (f n) then step (f n) (f (Suc n)) else f (Suc n) = f n)"

text \<open>
  Weak fairness of the scheduler to every goroutine: one that can take a step from some moment on does take one,
  unless the process ends.
\<close>

definition fair :: "('g \<Rightarrow> 's \<Rightarrow> 's \<Rightarrow> bool) \<Rightarrow> ('s \<Rightarrow> bool) \<Rightarrow> (nat \<Rightarrow> 's) \<Rightarrow> bool" where
  "fair own up_and_running f \<longleftrightarrow>
     (\<forall>g n. (\<forall>m \<ge> n. \<exists>t. own g (f m) t) \<longrightarrow> (\<exists>m \<ge> n. own g (f m) (f (Suc m)) \<or> \<not> up_and_running (f m)))"

text \<open>
  What the goroutines owe to the process: in a phase that no step leaves there is always one, the helper,
  that can move and whose step brings the end closer; any other step brings it closer or leaves the helper
  the same. Then every fair run that enters the phase ends.
\<close>

locale winding_down =
  fixes step :: "'s \<Rightarrow> 's \<Rightarrow> bool"
    and own :: "'g \<Rightarrow> 's \<Rightarrow> 's \<Rightarrow> bool"
    and up_and_running phase :: "'s \<Rightarrow> bool"
    and helps :: "'s \<Rightarrow> 'g"
    and closer :: "('s \<times> 's) set"
  assumes wf_closer: "wf closer"
    and phase_kept: "step s t \<Longrightarrow> phase s \<Longrightarrow> phase t"
    and helps_enabled: "phase s \<Longrightarrow> up_and_running s \<Longrightarrow> \<exists>t. own (helps s) s t"
    and helps_closer: "own (helps s) s t \<Longrightarrow> (t, s) \<in> closer"
    and others: "step s t \<Longrightarrow> (t, s) \<in> closer \<or> helps t = helps s \<and> (\<forall>u. (u, t) \<in> closer \<longrightarrow> (u, s) \<in> closer)"
begin

lemma run_phase:
  assumes "is_run step up_and_running f" "phase (f n)" "n \<le> m"
  shows "phase (f m)"
  using assms(3)
proof (induction rule: dec_induct)
  case base
  show ?case by (rule assms(2))
next
  case (step k)
  have "f (Suc k) = f k \<or> step (f k) (f (Suc k))" using assms(1) unfolding is_run_def by meson
  then show ?case using step.IH phase_kept by metis
qed

text \<open>Until the end has come closer, the helper is the same, and what is closer than now is closer than then.\<close>

lemma run_helper:
  assumes "is_run step up_and_running f" "n \<le> m"
  shows "(\<exists>k \<ge> n. (f k, f n) \<in> closer) \<or> helps (f m) = helps (f n) \<and> (\<forall>u. (u, f m) \<in> closer \<longrightarrow> (u, f n) \<in> closer)"
  using assms(2)
proof (induction rule: dec_induct)
  case (step k)
  have "f (Suc k) = f k \<or> step (f k) (f (Suc k))" using assms(1) unfolding is_run_def by meson
  then show ?case
  proof
    assume "step (f k) (f (Suc k))"
    then show ?thesis using others [of "f k" "f (Suc k)"] step.IH step.hyps(1) le_SucI by metis
  qed (use step.IH in simp)
qed simp

lemma run_closer:
  assumes "is_run step up_and_running f" "fair own up_and_running f" "phase (f n)" "\<And>m. up_and_running (f m)"
  shows "\<exists>k \<ge> n. (f k, f n) \<in> closer"
proof (rule ccontr)
  assume a: "\<not> ?thesis"
  then have h: "helps (f m) = helps (f n)" "\<And>u. (u, f m) \<in> closer \<Longrightarrow> (u, f n) \<in> closer" if "n \<le> m" for m
    using run_helper [OF assms(1) that] by blast+
  have "\<exists>t. own (helps (f n)) (f m) t" if "n \<le> m" for m
    using helps_enabled [OF run_phase [OF assms(1,3) that] assms(4)] h(1) [OF that] by simp
  then obtain m where m: "n \<le> m" "own (helps (f n)) (f m) (f (Suc m))" using assms(2,4) unfolding fair_def by blast
  from m(2) have "(f (Suc m), f m) \<in> closer" by (intro helps_closer) (simp only: h(1) [OF m(1)])
  from h(2) [OF m(1) this] show False using a le_SucI [OF m(1)] by blast
qed

lemma run_ends:
  assumes "is_run step up_and_running f" "fair own up_and_running f" "phase (f n)"
  shows "\<exists>m. \<not> up_and_running (f m)"
proof (rule ccontr)
  assume a: "\<not> ?thesis"
  have "\<nexists>k. n \<le> k \<and> f k = s" for s
    using wf_closer
  proof (induction s)
    case (less s)
    show ?case
    proof
      assume "\<exists>k \<ge> n. f k = s"
      then obtain k where k: "n \<le> k" "f k = s" by blast
      obtain j where "k \<le> j" "(f j, f k) \<in> closer"
        using run_closer [OF assms(1,2) run_phase [OF assms(1,3) k(1)]] a by blast
      then show False using less.IH [of "f j"] k by (metis le_trans)
    qed
  qed
  then show False by blast
qed

end

lemma life_phase_kept:
  "daemon_step env lib up input s t \<Longrightarrow> life_inv env nodep evs s \<and> ctxDone s \<Longrightarrow> life_inv env nodep evs t \<and> ctxDone t"
  using daemon_step_inv daemon_step_ctx by blast

interpretation shutdown: winding_down "daemon_step env lib up input" "life_step env" alive
  "\<lambda>s. life_inv env nodep evs s \<and> ctxDone s" helper nearer for env lib up input nodep evs
proof
  show "wf nearer" by (rule wf_nearer)
next
  fix s t
  assume "daemon_step env lib up input s t"
  from step_rank [OF this] show "(t, s) \<in> nearer \<or> helper t = helper s \<and> (\<forall>u. (u, t) \<in> nearer \<longrightarrow> (u, s) \<in> nearer)"
    by (auto simp: nearer_iff)
qed (use life_phase_kept helper_nearer life_progress in blast)+

lemma run_inv:
  assumes "is_run (daemon_step env lib up input) alive f" "life_inv env nodep evs (f 0)"
  shows "life_inv env nodep evs (f n)"
proof (induction n)
  case (Suc n)
  have "f (Suc n) = f n \<or> daemon_step env lib up input (f n) (f (Suc n))" using assms(1) unfolding is_run_def by meson
  then show ?case using Suc daemon_step_inv by metis
qed (rule assms(2))

text \<open>Fair runs exist: after the signal, let the helpers take their steps until the process has ended.\<close>

definition go_on :: "start_env \<Rightarrow> daemon \<Rightarrow> daemon" where
  "go_on env s = (if alive s then next_life env s else s)"

lemma go_on_phase:
  "life_inv env nodep evs s \<and> ctxDone s \<Longrightarrow> life_inv env nodep evs (go_on env s) \<and> ctxDone (go_on env s)"
  using life_progress life_step_inv life_step_ctx unfolding go_on_def by (metis (full_types))

lemma go_on_stays: "crashed (sv s) = None \<and> (\<forall>x. main_at s \<noteq> Exited x) \<Longrightarrow>
    crashed (sv (go_on env s)) = None \<and> (\<forall>x. main_at (go_on env s) \<noteq> Exited x)"
  using next_life_stays [of env s] by (auto simp: go_on_def)

lemma go_on_ends: "life_inv env nodep evs s \<Longrightarrow> ctxDone s \<Longrightarrow> \<exists>k. \<not> alive ((go_on env ^^ k) s)"
proof (induction s rule: wf_induct_rule [OF wf_nearer])
  case (1 s)
  show ?case
  proof (cases "alive s")
    case True
    then have "(go_on env s, s) \<in> nearer" using helper_nearer [OF life_progress [OF 1(2,3)]] by (simp add: go_on_def)
    then obtain k where "\<not> alive ((go_on env ^^ k) (go_on env s))" using 1 go_on_phase by blast
    then show ?thesis by (metis funpow_Suc_right o_apply)
  qed (use funpow_0 in metis)
qed

lemma go_on_dead: "\<not> alive ((go_on env ^^ k) s) \<Longrightarrow> k \<le> m \<Longrightarrow> \<not> alive ((go_on env ^^ m) s)"
  by (rotate_tac, induction m rule: dec_induct) (simp_all add: go_on_def)

lemma fair_run_exists:
  assumes "life_inv env nodep evs s0" "alive s0"
  shows "\<exists>f. is_run (daemon_step env lib up input) alive f \<and> fair (life_step env) alive f \<and> f 0 = s0 \<and> ctxDone (f 1)
    \<and> (\<forall>n. crashed (sv (f n)) = None \<and> (\<forall>x. main_at (f n) \<noteq> Exited x))"
proof -
  let ?s1 = "s0\<lparr>ctxDone := True\<rparr>"
  define f where "f = (\<lambda>n. case n of 0 \<Rightarrow> s0 | Suc k \<Rightarrow> (go_on env ^^ k) ?s1)"
  have f: "f 0 = s0" "f (Suc k) = (go_on env ^^ k) ?s1" for k by (simp_all add: f_def)
  have "life_inv env nodep evs ?s1" by (rule daemon_step_inv [OF daemon_step.signal [OF assms(2)] assms(1)])
  then have ph: "life_inv env nodep evs (f (Suc k)) \<and> ctxDone (f (Suc k))" for k
  proof (induction k)
    case (Suc k)
    from go_on_phase [OF Suc.IH [OF Suc.prems]] show ?case by (simp add: f)
  qed (simp add: f)
  have "if alive (f n) then daemon_step env lib up input (f n) (f (Suc n)) else f (Suc n) = f n" for n
  proof (cases n)
    case 0
    then show ?thesis using daemon_step.signal [OF assms(2)] f assms(2) by simp
  next
    case (Suc k)
    then show ?thesis using life_progress [of env nodep evs "f (Suc k)"] ph [of k] daemon_step.life by (auto simp: f go_on_def)
  qed
  moreover obtain k where k: "\<not> alive ((go_on env ^^ k) ?s1)" using go_on_ends [of env nodep evs ?s1] ph [of 0] f(2) [of 0] by auto
  have "\<not> alive (f (Suc (max k n)))" for n using go_on_dead [OF k, of "max k n"] f(2) by simp
  then have "fair (life_step env) alive f" unfolding fair_def by (meson le_SucI max.cobounded2)
  moreover have "crashed (sv (f n)) = None \<and> (\<forall>x. main_at (f n) \<noteq> Exited x)" for n
  proof (cases n)
    case (Suc j)
    have "crashed (sv ((go_on env ^^ j) ?s1)) = None \<and> (\<forall>x. main_at ((go_on env ^^ j) ?s1) \<noteq> Exited x)"
    proof (induction j)
      case (Suc j)
      from go_on_stays [OF Suc] show ?case by simp
    qed (use assms(2) in \<open>simp add: alive_def\<close>)
    then show ?thesis using Suc f by simp
  qed (use assms(2) f in \<open>simp add: alive_def\<close>)
  ultimately show ?thesis using f(1) ph [of 0] by (intro exI [of _ f]) (simp add: is_run_def)
qed

lemma InitDBConfig_raft: "EnableRaft (InitDBConfig flags) = f_enable_raft flags"
  by (simp add: InitDBConfig_def)

section \<open>A connection in the running process\<close>

lemma quiet_daemon:
  assumes "(quiet_step lib up input)\<^sup>*\<^sup>* v w" "daemon_reach env lib up input s0 (s\<lparr>sv := v\<rparr>)" "main_at s = MainWaiting"
  shows "daemon_reach env lib up input s0 (s\<lparr>sv := w\<rparr>)"
  using assms
proof (induction rule: rtranclp_induct)
  case (step w w')
  then have "server_step lib up input w w'" by (simp add: quiet_step_def)
  then have "alive (s\<lparr>sv := w\<rparr>)" using step.prems(2) by (cases rule: server_step.cases) (auto simp: alive_def)
  then show ?case using step daemon_reach.step [OF step.IH] daemon_step.activity [of "s\<lparr>sv := w\<rparr>" lib up input w' env] by simp
qed simp

lemma listening_before_signal:
  "life_inv env nodep evs s \<Longrightarrow> \<not> ctxDone s \<Longrightarrow> accept_at s = AcceptLoop \<and> listening s \<and> stopper_at s = StopperWaiting"
  by (cases "accept_at s") (auto simp: life_inv_def)

lemma connection_in_daemon:
  assumes "daemon_reach env lib up input s0 s" "alive s" "accept_at s = AcceptLoop" "listening s" "conns (sv s) i = None"
    and "handleConnection lib up (input i) (proc (sv s)) = Some (Closed, rets, q)"
  shows "\<exists>c h. daemon_reach env lib up input s0
      (s\<lparr>sv := (sv s)\<lparr>conns := (conns (sv s))(i \<mapsto> c), proc := q, history := h\<rparr>\<rparr>) \<and> cpc c = Ended Closed \<and> cout c = rets"
proof -
  obtain c h where run: "(quiet_step lib up input)\<^sup>*\<^sup>* ((sv s)\<lparr>conns := (conns (sv s))(i \<mapsto> new_conn (input i))\<rparr>)
      ((sv s)\<lparr>conns := (conns (sv s))(i \<mapsto> c), proc := q, history := h\<rparr>)" "cpc c = Ended Closed" "cout c = rets"
    using connection_served [of lib up input i "sv s" rets q] assms(2,6) by (auto simp: alive_def)
  have "daemon_reach env lib up input s0 (s\<lparr>sv := (sv s)\<lparr>conns := (conns (sv s))(i \<mapsto> new_conn (input i))\<rparr>\<rparr>)"
    by (rule daemon_reach.step [OF assms(1) daemon_step.connected [OF assms(2-5)]])
  from quiet_daemon [OF run(1) this] assms(2) run(2,3) show ?thesis by (auto simp: alive_def)
qed

text \<open>What is left of a process whose admin server has failed: the same server, without a Raft node.\<close>

definition after_admin_failure :: "start_env \<Rightarrow> daemon \<Rightarrow> daemon" where
  "after_admin_failure env s =
     s\<lparr>readers := 0, admin_at := AdminRaftClosed, raftNode := None, events := events s @ snd (snd (ShutdownRaft env (raftNode s))),
       sv := (sv s)\<lparr>proc := (proc (sv s))\<lparr>raft_role := None\<rparr>\<rparr>\<rparr>"

lemma readers_leave:
  assumes "daemon_reach env lib up input s0 s" "alive s"
  shows "daemon_reach env lib up input s0 (s\<lparr>readers := 0\<rparr>)"
  using assms
proof (induction "readers s" arbitrary: s)
  case 0
  then show ?case by (metis daemon.surjective daemon.update_convs(10))
next
  case (Suc n)
  have "daemon_reach env lib up input s0 (s\<lparr>readers := readers s - 1\<rparr>)"
    by (rule daemon_reach.step [OF Suc.prems(1) daemon_step.life [OF life_step.reader_leaves [OF Suc.prems(2)]]]) (use Suc.hyps(2) in simp)
  then show ?case using Suc.hyps(1) [of "s\<lparr>readers := readers s - 1\<rparr>"] Suc.hyps(2) Suc.prems(2) by (simp add: alive_def)
qed

lemma admin_failure_reach:
  assumes "daemon_reach env lib up input s0 s" "alive s" "admin_at s = AdminServing" "stopper_at s = StopperWaiting"
  shows "daemon_reach env lib up input s0 (after_admin_failure env s)"
proof -
  let ?t1 = "s\<lparr>admin_at := AdminServeReturned True\<rparr>" and ?t2 = "s\<lparr>admin_at := AdminLocking True\<rparr>"
  let ?t3 = "?t2\<lparr>readers := 0\<rparr>"
  have a: "alive ?t1" "alive ?t2" "alive ?t3" using assms(2) by (simp_all add: alive_def)
  have "daemon_reach env lib up input s0 ?t1" by (rule daemon_reach.step [OF assms(1) daemon_step.serve_failed [OF assms(2-4)]])
  from daemon_reach.step [OF this daemon_step.life [OF life_step.shutdown_locks [OF a(1)]]]
  have "daemon_reach env lib up input s0 ?t2" by simp
  from readers_leave [OF this a(2)] have r: "daemon_reach env lib up input s0 ?t3" .
  obtain cerrs n cevs where sh: "ShutdownRaft env (raftNode ?t3) = (cerrs, n, cevs)" by (metis prod_cases3)
  from daemon_reach.step [OF r daemon_step.life [OF life_step.raft_shutdown [where b = True, OF a(3) _ _ sh]]] show ?thesis
    using ShutdownRaft_clears [OF sh] sh by (simp add: after_admin_failure_def)
qed

lemma spec_session_set:
  "spec_session (map typed (request_cmds up [[''SET'', k, v]])) m = ([ROk], m(k \<mapsto> v))"
  by (simp add: request_cmds_def typed_def)

section \<open>Properties\<close>

text \<open>
  C15. A regular end is a clean end: whatever the flags, the clients, the scheduler and the Raft library
  do, when \<^verbatim>\<open>main\<close> returns, a termination signal has been received, both servers have stopped, no Raft node
  is left, and if Raft was enabled, its node, transport and stores were opened once and then closed
  once, in the right order; without Raft nothing was opened.
\<close>

theorem main_return_is_clean:
  assumes "start_main env listen flags = (Inr nodep, evs)"
    and "daemon_reach env lib up input (daemon_start nodep evs p) s" "main_at s = MainReturned"
  shows "ctxDone s \<and> admin_at s = AdminDone \<and> accept_at s = AcceptDone \<and> raftNode s = None
    \<and> events s = (if f_enable_raft flags
        then [StoreOpened, TransportOpened, RaftStarted, RaftShutdown, TransportClosed, StoreClosed] else [])"
proof -
  have inv: "life_inv env nodep evs s" by (rule daemon_reach_inv [OF assms(2) refl])
  then have wg0: "accept_at s \<noteq> AcceptLoop" "admin_at s = AdminDone" using assms(3) by (auto simp: life_inv_def split: if_splits)
  have "init_ok nodep evs \<and> (nodep \<noteq> None \<longleftrightarrow> f_enable_raft flags)"
    using InitRaft_outcome [where env = env and listen = listen and config = "InitDBConfig flags"] assms(1)
    by (auto simp: start_main_def InitDBConfig_def split: prod.splits sum.splits option.splits)
  then have "evs @ snd (snd (ShutdownRaft env nodep)) = (if f_enable_raft flags then all_opened @ all_closed else [])"
    by (cases nodep) (auto simp: init_ok_def ShutdownRaft_fresh ShutdownRaft_def [of env None])
  then show ?thesis using inv wg0 by (cases "accept_at s") (auto simp: life_inv_def raft_closed_def all_opened_def all_closed_def)
qed

lemma start_main_first:
  "\<exists>nd. start_main first_start (\<lambda>_. None) (flag_defaults\<lparr>f_enable_raft := True, f_bootstrap := True, f_raft_id := ''n1'', f_raft_addr := ''h:7000''\<rparr>)
    = (Inr (Some nd), all_opened)"
  using first_start_errs StartRaft_ok [of first_config first_start, OF first_config_facts(1)]
  by (auto simp: start_main_def InitRaft_def listen_admin_def InitRESPTCPServer_def first_config_def [symmetric] first_config_facts Let_def start_ok_def)

theorem main_return_is_clean_witness:
  "\<exists>nd s. daemon_reach first_start single_node_lib id (\<lambda>_. \<lparr>rbuf = [], rfail = EOF\<rparr>)
      (daemon_start (Some nd) [StoreOpened, TransportOpened, RaftStarted]
        \<lparr>raft_role = Some Leader, machine = \<lparr>fsm_db = empty_db, leaderAdminAddr = []\<rparr>\<rparr>) s
    \<and> main_at s = MainReturned \<and> events s = [StoreOpened, TransportOpened, RaftStarted, RaftShutdown, TransportClosed, StoreClosed]"
proof -
  let ?flags = "flag_defaults\<lparr>f_enable_raft := True, f_bootstrap := True, f_raft_id := ''n1'', f_raft_addr := ''h:7000''\<rparr>"
    and ?p = "\<lparr>raft_role = Some Leader, machine = \<lparr>fsm_db = empty_db, leaderAdminAddr = []\<rparr>\<rparr>"
    and ?in = "\<lambda>_. \<lparr>rbuf = [], rfail = EOF\<rparr>"
  obtain nd where nd: "start_main first_start (\<lambda>_. None) ?flags = (Inr (Some nd), all_opened)" using start_main_first by blast
  let ?s0 = "daemon_start (Some nd) all_opened ?p"
  have a: "alive ?s0" by (simp add: alive_def daemon_start_def server_start_def)
  have r: "daemon_reach first_start single_node_lib id ?in ?s0 (?s0\<lparr>ctxDone := True\<rparr>)"
    by (rule daemon_reach.step [OF daemon_reach.start daemon_step.signal [OF a]])
  obtain t where t: "daemon_reach first_start single_node_lib id ?in ?s0 t" "main_at t = MainReturned"
    using shutdown_reaches [OF r daemon_reach_inv [OF r refl]] a by (auto simp: alive_def)
  from main_return_is_clean [OF nd t] have "events t = [StoreOpened, TransportOpened, RaftStarted, RaftShutdown, TransportClosed, StoreClosed]"
    by simp
  with t show ?thesis unfolding all_opened_def by blast
qed

text \<open>
  C18. A shutdown ends: take a run of the process under a scheduler that is weakly fair to \<^verbatim>\<open>main\<close>, to each of the four
  goroutines of the servers, to the handlers of the admin server and to the goroutines inside a section under
  the read lock of \<^verbatim>\<open>raftNodeMu\<close> (that is, calls and sections come to an end). Whatever the clients do and
  whatever fails, once the termination signal has arrived the process ends: \<^verbatim>\<open>main\<close> returns, or the listener cannot be
  closed and the process exits with that error, or a panic ends it. Until then one of these goroutines can always
  take a step, so the process is never stuck. No failure is needed for this: failures of the environment are not
  among the steps the scheduler has to be fair to.
\<close>

theorem shutdown_terminates:
  assumes "is_run (daemon_step env lib up input) alive f" "fair (life_step env) alive f" "f 0 = daemon_start nodep evs p" "ctxDone (f n)"
  shows "(\<exists>m. main_at (f m) = MainReturned \<or> (\<exists>err. main_at (f m) = Exited (RespCloseFailed err)) \<or> crashed (sv (f m)) \<noteq> None)
    \<and> (\<forall>m \<ge> n. alive (f m) \<longrightarrow> (\<exists>g t. life_step env g (f m) t))"
proof -
  have inv: "life_inv env nodep evs (f m)" for m using run_inv [OF assms(1)] life_inv_start assms(3) by simp
  then have ph: "life_inv env nodep evs (f n) \<and> ctxDone (f n)" using assms(4) by simp
  obtain m where m: "\<not> alive (f m)" using shutdown.run_ends [OF assms(1,2) ph] by blast
  then have "main_at (f m) = MainReturned \<or> (\<exists>err. main_at (f m) = Exited (RespCloseFailed err)) \<or> crashed (sv (f m)) \<noteq> None"
    using inv [of m] by (cases "main_at (f m)") (auto simp: alive_def life_inv_def)
  moreover have "\<exists>g t. life_step env g (f m) t" if "n \<le> m" "alive (f m)" for m
    using shutdown.helps_enabled that shutdown.run_phase [OF assms(1) ph that(1)] by blast
  ultimately show ?thesis by blast
qed

theorem shutdown_terminates_witness:
  "\<exists>f m. is_run (daemon_step first_start single_node_lib id (\<lambda>_. \<lparr>rbuf = [], rfail = EOF\<rparr>)) alive f
    \<and> fair (life_step first_start) alive f \<and> ctxDone (f 1) \<and> main_at (f m) = MainReturned"
proof -
  let ?p = "\<lparr>raft_role = None, machine = \<lparr>fsm_db = empty_db, leaderAdminAddr = []\<rparr>\<rparr>"
    and ?in = "\<lambda>_. \<lparr>rbuf = [], rfail = EOF\<rparr>"
  have "alive (daemon_start None [] ?p)" by (simp add: alive_def daemon_start_def server_start_def)
  from fair_run_exists [OF life_inv_start this] obtain f where
    f: "is_run (daemon_step first_start single_node_lib id ?in) alive f" "fair (life_step first_start) alive f" "f 0 = daemon_start None [] ?p" "ctxDone (f 1)"
    and ok: "\<And>m. crashed (sv (f m)) = None \<and> (\<forall>x. main_at (f m) \<noteq> Exited x)" by blast
  from shutdown_terminates [OF f] obtain m where
    "main_at (f m) = MainReturned \<or> (\<exists>err. main_at (f m) = Exited (RespCloseFailed err)) \<or> crashed (sv (f m)) \<noteq> None" by blast
  then have "main_at (f m) = MainReturned" using ok [of m] by auto
  with f show ?thesis by blast
qed

text \<open>
  C28. After a failure of the admin server the process keeps serving without Raft: from any state that a
  process can reach before a signal, whatever the role of its Raft node, a failure of the admin server leads to a
  state in which a client that sends a single \<^verbatim>\<open>SET\<close> gets the reply \<^verbatim>\<open>+OK\<close> and the value is written to the local
  store only, although the process was started with Raft; this holds for every behaviour of the Raft library.
\<close>

theorem admin_failure_bypasses_raft:
  assumes "daemon_reach env lib up input (daemon_start (Some nd) evs p) s" "alive s" "\<not> ctxDone s" "admin_at s = AdminServing"
    and "conns (sv s) i = None" "input i = \<lparr>rbuf = request_bytes [[''SET'', k, v]], rfail = EOF\<rparr>" "sendable k" "sendable v"
  shows "\<exists>t c. daemon_reach env lib up input (daemon_start (Some nd) evs p) t \<and> alive t \<and> \<not> ctxDone t
    \<and> conns (sv t) i = Some c \<and> cout c = [Ok] \<and> raftNode t = None
    \<and> db_view (memdb (proc (sv t))) = (db_view (memdb (proc (sv s))))(k \<mapsto> v)"
proof -
  let ?s1 = "after_admin_failure env s"
  have inv: "life_inv env (Some nd) evs s" by (rule daemon_reach_inv [OF assms(1) refl])
  have r: "daemon_reach env lib up input (daemon_start (Some nd) evs p) ?s1" by (rule admin_failure_reach [OF assms(1,2,4)]) (use listening_before_signal [OF inv assms(3)] in simp)
  have s1: "alive ?s1" "accept_at ?s1 = AcceptLoop" "listening ?s1" "conns (sv ?s1) i = None" "\<not> ctxDone ?s1" "raftNode ?s1 = None"
    "raft_role (proc (sv ?s1)) = None" "memdb (proc (sv ?s1)) = memdb (proc (sv s))"
    using listening_before_signal [OF inv assms(3)] assms(2,3,5) by (simp_all add: after_admin_failure_def alive_def memdb_def)
  have ok: "list_all sendable_request [[''SET'', k, v]]"
    using assms(7,8) by (simp add: sendable_request_def sendable_args_def sendable_def [of "''SET''"] maxAlloc_def)
  obtain q where "handleConnection lib up (input i) (proc (sv ?s1)) = Some (Closed, [Ok], q)"
    "db_view (memdb q) = (db_view (memdb (proc (sv s))))(k \<mapsto> v)"
    using handleConnection_local [OF ok s1(7), of lib up] assms(6) s1(8) by (auto simp: spec_session_set)
  with connection_in_daemon [OF r s1(1-4)] obtain c h where
    "daemon_reach env lib up input (daemon_start (Some nd) evs p)
      (?s1\<lparr>sv := (sv ?s1)\<lparr>conns := (conns (sv ?s1))(i \<mapsto> c), proc := q, history := h\<rparr>\<rparr>)" "cout c = [Ok]" by blast
  then show ?thesis using s1 \<open>db_view (memdb q) = _\<close>
    by (intro exI [of _ "?s1\<lparr>sv := (sv ?s1)\<lparr>conns := (conns (sv ?s1))(i \<mapsto> c), proc := q, history := h\<rparr>\<rparr>"] exI [of _ c])
      (simp add: alive_def)
qed

theorem admin_failure_bypasses_raft_witness:
  "\<exists>nd t c. daemon_reach first_start single_node_lib id (\<lambda>_. \<lparr>rbuf = request_bytes [[''SET'', ''k'', ''v'']], rfail = EOF\<rparr>)
      (daemon_start (Some nd) [StoreOpened, TransportOpened, RaftStarted]
        \<lparr>raft_role = Some Follower, machine = \<lparr>fsm_db = empty_db, leaderAdminAddr = []\<rparr>\<rparr>) t
    \<and> conns (sv t) 0 = Some c \<and> cout c = [Ok] \<and> raftNode t = None \<and> db_view (memdb (proc (sv t))) ''k'' = Some ''v''"
proof -
  let ?p = "\<lparr>raft_role = Some Follower, machine = \<lparr>fsm_db = empty_db, leaderAdminAddr = []\<rparr>\<rparr>"
    and ?in = "\<lambda>_ :: nat. \<lparr>rbuf = request_bytes [[''SET'', ''k'', ''v'']], rfail = EOF\<rparr>"
  obtain nd where "start_main first_start (\<lambda>_. None)
      (flag_defaults\<lparr>f_enable_raft := True, f_bootstrap := True, f_raft_id := ''n1'', f_raft_addr := ''h:7000''\<rparr>) = (Inr (Some nd), all_opened)"
    using start_main_first by blast
  let ?s0 = "daemon_start (Some nd) all_opened ?p"
  have s0: "alive ?s0" "\<not> ctxDone ?s0" "admin_at ?s0 = AdminServing" "conns (sv ?s0) 0 = None"
    by (simp_all add: alive_def daemon_start_def server_start_def)
  have kv: "sendable ''k''" "sendable ''v''" by (simp_all add: sendable_def maxAlloc_def)
  from admin_failure_bypasses_raft [OF daemon_reach.start s0 refl kv, of first_start single_node_lib id]
  show ?thesis unfolding all_opened_def by fastforce
qed

text \<open>
  C29. How a start-up ends that does not succeed: if Raft cannot be started or the admin address cannot be
  listened on, the process exits with everything it had opened closed again. If the address for the
  clients cannot be listened on, the process exits with the Raft node, its transport and its stores still open.
\<close>

theorem failed_start_up:
  assumes "start_main env listen flags = (Inl x, evs)"
  shows "if (\<exists>err. x = RespListenFailed err)
    then evs = (if f_enable_raft flags then [StoreOpened, TransportOpened, RaftStarted] else [])
    else released evs"
proof -
  have out: "case InitRaft env listen (InitDBConfig flags) of
     (Inl f, _, evs) \<Rightarrow> released evs
   | (Inr nodep, _, evs) \<Rightarrow> init_ok nodep evs \<and> (nodep \<noteq> None \<longleftrightarrow> f_enable_raft flags)"
    using InitRaft_outcome [where env = env and listen = listen and config = "InitDBConfig flags"] by (simp only: InitDBConfig_raft)
  obtain res config evs' where i: "InitRaft env listen (InitDBConfig flags) = (res, config, evs')" by (metis prod_cases3)
  show ?thesis
  proof (cases res)
    case (Inl y)
    then have "\<nexists>err. y = RespListenFailed err"
      using i by (auto simp: InitRaft_def listen_admin_def Let_def split: if_splits option.splits prod.splits)
    then show ?thesis using assms out i Inl by (simp add: start_main_def)
  next
    case (Inr nodep)
    then show ?thesis using assms out i
      by (cases nodep) (auto simp: start_main_def InitRESPTCPServer_def init_ok_def all_opened_def split: option.splits)
  qed
qed

theorem failed_start_up_witness:
  "\<exists>evs. start_main first_start (\<lambda>a. if a = '':6379'' then Some ''in use'' else None)
      (flag_defaults\<lparr>f_enable_raft := True, f_bootstrap := True, f_raft_id := ''n1'', f_raft_addr := ''h:7000''\<rparr>)
    = (Inl (RespListenFailed ''in use''), evs) \<and> evs = [StoreOpened, TransportOpened, RaftStarted]"
proof -
  let ?flags = "flag_defaults\<lparr>f_enable_raft := True, f_bootstrap := True, f_raft_id := ''n1'', f_raft_addr := ''h:7000''\<rparr>"
    and ?listen = "\<lambda>a. if a = '':6379'' then Some ''in use'' else None"
  have "AdminAddr first_config = '':50051''" "ListenAddr first_config = '':6379''"
    by (simp_all add: first_config_def InitDBConfig_def flag_defaults_def TrimSpace_printable printable_def)
  then have "\<exists>evs. start_main first_start ?listen ?flags = (Inl (RespListenFailed ''in use''), evs)"
    using first_start_result
    by (simp add: start_main_def InitRaft_def listen_admin_def InitRESPTCPServer_def first_config_def [symmetric] first_config_facts Let_def)
  then obtain evs where e: "start_main first_start ?listen ?flags = (Inl (RespListenFailed ''in use''), evs)" by blast
  from failed_start_up [OF e] e show ?thesis by simp
qed

end
