(* ===== verification/Durability.thy ===== *)
theory Durability
  imports RespServer
begin

text \<open>
  From the reply a client gets to the stores of all nodes: a server process that leads a cluster,
  put together from the request dispatch of \<^verbatim>\<open>src/server/resp_server.go\<close>, the submission to Raft and the
  replicated state machine of \<^verbatim>\<open>src/core/raft.go\<close>. \<open>commits\<close> states what a successful \<^verbatim>\<open>Apply\<close> of the Raft
  library means for the cluster.
\<close>

section \<open>Runs of the cluster\<close>

lemma cluster_reach_steps: "cluster_step\<^sup>*\<^sup>* c c' \<Longrightarrow> cluster_reach c \<Longrightarrow> cluster_reach c'"
  by (induction rule: rtranclp_induct) (auto intro: cluster_reach.step)

lemma cluster_step_log: "cluster_step c c' \<Longrightarrow> prefix (log c) (log c')"
  by (auto elim!: cluster_stepE)

lemma cluster_steps_log: "cluster_step\<^sup>*\<^sup>* c c' \<Longrightarrow> prefix (log c) (log c')"
  by (induction rule: rtranclp_induct) (auto dest: cluster_step_log intro: prefix_order.trans)

text \<open>
  The documented meaning of a successful \<^verbatim>\<open>Apply\<close> on node \<open>i\<close> of the cluster \<open>c\<close>: the cluster has moved on, the new
  entry is committed, node \<open>i\<close> has applied the log up to and including it, and possibly later entries of other
  clients, and its state machine is the one the call leaves behind. Nothing is promised when the call fails.
\<close>

definition commits :: "raft_lib \<Rightarrow> cluster \<Rightarrow> nat \<Rightarrow> bool" where
  "commits lib c i \<longleftrightarrow>
     (\<forall>cmd p v q. IsWriteOp cmd \<longrightarrow> machine p = node c i \<longrightarrow> lib_apply lib (marshal_cmd cmd) p = (FutureResponse v, q) \<longrightarrow>
        (\<exists>c' es ls. cluster_step\<^sup>*\<^sup>* c c' \<and> log c' = log c @ es @ marshal_cmd cmd # ls
          \<and> length (log c @ es) < applied c' i \<and> machine q = node c' i))"

lemma log_writes_one: "IsWriteOp cmd \<Longrightarrow> log_writes [marshal_cmd cmd] = [coerce_cmd cmd]"
  using coerce_write_op [of cmd] by (simp add: log_writes_def unmarshal_marshal IsWriteOp_def)

text \<open>The store of a node that has applied entry \<open>n\<close>, a write: the writes of the log in their order, this one at its place.\<close>

lemma replica_splits_log:
  assumes "cluster_reach c" "n < applied c j" "log c ! n = marshal_cmd cmd" "IsWriteOp cmd"
  shows "fsm_db (node c j) = run_commands (executeOnDB None)
    (log_writes (take n (log c)) @ coerce_cmd cmd # log_writes (drop (Suc n) (take (applied c j) (log c)))) empty_db"
proof -
  have j: "applied c j \<le> length (log c)" "fsm_db (node c j) = run_commands (executeOnDB None) (log_writes (take (applied c j) (log c))) empty_db"
    using cluster_reach_inv [OF assms(1)] by (auto simp: cluster_inv_def node_ok_def)
  have "take (applied c j) (log c) = take n (log c) @ [log c ! n] @ drop (Suc n) (take (applied c j) (log c))"
    using assms(2) j(1) id_take_nth_drop [of n "take (applied c j) (log c)"] by (simp add: min_def)
  then have "log_writes (take (applied c j) (log c)) =
      log_writes (take n (log c)) @ coerce_cmd cmd # log_writes (drop (Suc n) (take (applied c j) (log c)))"
    using log_writes_one [OF assms(4)] assms(3) by (metis log_writes_append append_Cons append_Nil)
  then show ?thesis using j(2) by simp
qed

section \<open>Properties\<close>

text \<open>
  C14. Acknowledged writes survive: if the leader answers a write command with \<^verbatim>\<open>+OK\<close>, there is an index \<open>n\<close> of the
  log, new since the command was sent, at which the log holds this command from then on; and in every later state
  of the cluster the store of every node that has applied the log beyond \<open>n\<close> is exactly the result of executing
  from the empty store the writes of the log before \<open>n\<close>, then this command, then the writes of the log
  after \<open>n\<close> up to the node's applied index, whether the node got there entry by entry or through
  snapshots, and whoever leads by then. The writes before \<open>n\<close> are the same for all nodes and all later states.
\<close>

theorem acknowledged_write_survives:
  assumes "cluster_reach c" "commits lib c i" "machine p = node c i" "raft_role p = Some Leader" "IsWriteOp cmd"
    and "executeRESPCmd lib (Some cmd) p = (Ok, q)"
  shows "\<exists>c' n. cluster_step\<^sup>*\<^sup>* c c' \<and> machine q = node c' i \<and> length (log c) \<le> n \<and> n < applied c' i
    \<and> (\<forall>c''. cluster_step\<^sup>*\<^sup>* c' c'' \<longrightarrow> n < length (log c'') \<and> log c'' ! n = marshal_cmd cmd
        \<and> (\<forall>j. n < applied c'' j \<longrightarrow>
            fsm_db (node c'' j) = run_commands (executeOnDB None)
              (log_writes (take n (log c')) @ coerce_cmd cmd # log_writes (drop (Suc n) (take (applied c'' j) (log c'')))) empty_db))"
proof -
  have "applyCmdViaRaftNode lib cmd p = (Ok, q)" using assms(4-6) by (simp add: execute_leader)
  then obtain v where "lib_apply lib (marshal_cmd cmd) p = (FutureResponse v, q)"
    using ErrInternal_neq_Ok by (auto simp: applyCmdViaRaftNode_def split: prod.splits apply_future.splits go_value.splits)
  then obtain c' es ls where c': "cluster_step\<^sup>*\<^sup>* c c'" "log c' = log c @ es @ marshal_cmd cmd # ls"
      "length (log c @ es) < applied c' i" "machine q = node c' i"
    using assms(2,3,5) unfolding commits_def by metis
  let ?n = "length (log c @ es)"
  have "?n < length (log c'') \<and> log c'' ! ?n = marshal_cmd cmd \<and> (\<forall>j. ?n < applied c'' j \<longrightarrow>
      fsm_db (node c'' j) = run_commands (executeOnDB None)
        (log_writes (take ?n (log c')) @ coerce_cmd cmd # log_writes (drop (Suc ?n) (take (applied c'' j) (log c'')))) empty_db)"
    if s: "cluster_step\<^sup>*\<^sup>* c' c''" for c''
  proof -
    obtain fs where fs: "log c'' = (log c @ es) @ marshal_cmd cmd # fs" using cluster_steps_log [OF s] c'(2) by (auto simp: prefix_def)
    have r: "cluster_reach c''" by (rule cluster_reach_steps [OF s cluster_reach_steps [OF c'(1) assms(1)]])
    have n: "?n < length (log c'')" "log c'' ! ?n = marshal_cmd cmd" "take ?n (log c'') = take ?n (log c')" unfolding fs using c'(2) by simp_all
    show ?thesis using replica_splits_log [OF r _ n(2) assms(5)] n by simp
  qed
  then show ?thesis using c' by (intro exI [of _ c'] exI [of _ ?n]) simp
qed

lemma single_node_commits: "commits single_node_lib cluster_start 0"
  unfolding commits_def
proof (intro allI impI)
  fix cmd p v q
  assume a: "IsWriteOp cmd" "machine p = node cluster_start 0" "lib_apply single_node_lib (marshal_cmd cmd) p = (FutureResponse v, q)"
  then obtain r f where ap: "Apply None (marshal_cmd cmd) (machine p) = Inr (r, f)" "q = p\<lparr>machine := f\<rparr>"
    by (auto simp: single_node_lib_def split: if_splits sum.splits prod.splits)
  let ?c1 = "cluster_start\<lparr>log := [marshal_cmd cmd]\<rparr>"
  let ?c2 = "?c1\<lparr>node := (node ?c1)(0 := f), applied := (applied ?c1)(0 := Suc (applied ?c1 0))\<rparr>"
  have "cluster_step cluster_start ?c1" using cluster_step.client_write [OF a(1), of cluster_start] by (simp add: cluster_start_def)
  moreover have "cluster_step ?c1 ?c2"
    by (rule cluster_step.entry_applied [where save = None and r = r]) (use ap a(2) in \<open>simp_all add: cluster_start_def\<close>)
  ultimately have "cluster_step\<^sup>*\<^sup>* cluster_start ?c2" by (meson r_into_rtranclp rtranclp.rtrancl_into_rtrancl)
  then show "\<exists>c' es ls. cluster_step\<^sup>*\<^sup>* cluster_start c' \<and> log c' = log cluster_start @ es @ marshal_cmd cmd # ls
      \<and> length (log cluster_start @ es) < applied c' 0 \<and> machine q = node c' 0"
    by (intro exI [of _ ?c2] exI [of _ "[]"] exI [of _ "[]"]) (use ap(2) in \<open>simp add: cluster_start_def\<close>)
qed

theorem acknowledged_write_survives_witness:
  "\<exists>c' n. cluster_step\<^sup>*\<^sup>* cluster_start c' \<and> n < applied c' 0 \<and> log c' ! n = marshal_cmd \<lparr>Op = ''SET'', Args = [''k'', ''v'']\<rparr>
    \<and> fsm_db (node c' 0) = run_commands (executeOnDB None)
        (log_writes (take n (log c')) @ \<lparr>Op = ''SET'', Args = [''k'', ''v'']\<rparr> # log_writes (drop (Suc n) (take (applied c' 0) (log c')))) empty_db"
proof -
  let ?c = "\<lparr>Op = ''SET'', Args = [''k'', ''v'']\<rparr>" and ?p = "\<lparr>raft_role = Some Leader, machine = node cluster_start 0\<rparr>"
  have w: "IsWriteOp ?c" by (simp add: IsWriteOp_def)
  have co: "coerce_cmd ?c = ?c" by (simp add: coerce_cmd_valid valid_cmd_def valid_ascii)
  obtain q where "lib_apply single_node_lib (marshal_cmd ?c) ?p = (FutureResponse (response_value (Reply Ok)), q)"
    using Apply_marshal [of ?c None "machine ?p"] co by (simp add: single_node_lib_def OpLeaderChanged_def executeOnDB_def)
  then have "executeRESPCmd single_node_lib (Some ?c) ?p = (Ok, q)"
    using execute_leader [OF w, of ?p single_node_lib] by (simp add: applyCmdViaRaftNode_response)
  from acknowledged_write_survives [OF cluster_reach.start single_node_commits _ _ w this] obtain c' n where
    "cluster_step\<^sup>*\<^sup>* cluster_start c'" "n < applied c' 0" "log c' ! n = marshal_cmd ?c"
    "fsm_db (node c' 0) = run_commands (executeOnDB None)
        (log_writes (take n (log c')) @ ?c # log_writes (drop (Suc n) (take (applied c' 0) (log c')))) empty_db"
    unfolding co by auto
  then show ?thesis by blast
qed

end
