(* ===== verification/Locks.thy ===== *)
theory Locks
  imports Membership RespServer
begin

text \<open>
  The locks of a server process: the package lock \<^verbatim>\<open>raftNodeMu\<close>, the node's \<^verbatim>\<open>membershipMu\<close> and
  \<^verbatim>\<open>joinProgressMu\<close> (\<^verbatim>\<open>src/core/raft.go\<close>) and the store's \<^verbatim>\<open>mutex\<close> (\<^verbatim>\<open>src/core/memdb.go\<close>). Every operation that
  takes a lock or touches a shared variable has a definition of what it does to them, in the order of
  the source and on every branch. Goroutines run such programs concurrently; a call of the Raft library
  that waits for the state machine hands a job to the library's one state machine goroutine and waits for it.

  Lemmas: programs that take the locks in the order of their ranks never block each other, and an
  access under the lock that guards its variable never races. Both are proved once, in the locale
  \<open>lock_discipline\<close>, and interpreted on the programs of the server.
\<close>

section \<open>Locks and goroutines\<close>

text \<open>
  \<^verbatim>\<open>sync.RWMutex\<close>: any number of readers or one writer. \<^verbatim>\<open>Lock\<close> first announces the writer, which keeps new
  readers and other writers out, and then waits for the readers that are in; \<open>Acquire\<close> is this second half.
  A \<^verbatim>\<open>sync.Mutex\<close> is one that is never read-locked. \<open>Submit\<close> hands a job to the state machine goroutine and
  \<open>Await\<close> waits for its end.
\<close>

datatype lock_mode = Shared | Exclusive

datatype ('l, 'v) action =
    RLock 'l | RUnlock 'l | Lock 'l | Acquire 'l | Unlock 'l
  | Read 'v | Write 'v
  | Submit "('l, 'v) action list" | Await

record ('l, 'v) agent =
  held :: "('l \<times> lock_mode) list"
  todo :: "('l, 'v) action list"

definition fresh_agent :: "('l, 'v) action list \<Rightarrow> ('l, 'v) agent" where
  "fresh_agent p = \<lparr>held = [], todo = p\<rparr>"

definition holds :: "'l \<Rightarrow> ('l, 'v) agent \<Rightarrow> bool" where
  "holds l a \<longleftrightarrow> (l, Shared) \<in> set (held a) \<or> (l, Exclusive) \<in> set (held a)"

definition claims :: "'l \<Rightarrow> ('l, 'v) agent \<Rightarrow> bool" where
  "claims l a \<longleftrightarrow> (l, Exclusive) \<in> set (held a) \<or> (case todo a of Acquire l' # _ \<Rightarrow> l' = l | _ \<Rightarrow> False)"

text \<open>One step of an agent among the agents \<open>ags\<close>; \<open>None\<close> is a blocked agent, or one whose next step is not its own.\<close>

definition advance :: "('l, 'v) agent list \<Rightarrow> ('l, 'v) agent \<Rightarrow> ('l, 'v) agent option" where
  "advance ags a =
     (case todo a of
        [] \<Rightarrow> None
      | act # rest \<Rightarrow>
          (case act of
             RLock l \<Rightarrow> if list_ex (claims l) ags then None else Some (a\<lparr>held := (l, Shared) # held a, todo := rest\<rparr>)
           | Lock l \<Rightarrow> if list_ex (claims l) ags then None else Some (a\<lparr>todo := Acquire l # rest\<rparr>)
           | Acquire l \<Rightarrow> if list_ex (holds l) ags then None else Some (a\<lparr>held := (l, Exclusive) # held a, todo := rest\<rparr>)
           | RUnlock l \<Rightarrow> if (l, Shared) \<in> set (held a) then Some (a\<lparr>held := remove1 (l, Shared) (held a), todo := rest\<rparr>) else None
           | Unlock l \<Rightarrow> if (l, Exclusive) \<in> set (held a) then Some (a\<lparr>held := remove1 (l, Exclusive) (held a), todo := rest\<rparr>) else None
           | Read v \<Rightarrow> Some (a\<lparr>todo := rest\<rparr>)
           | Write v \<Rightarrow> Some (a\<lparr>todo := rest\<rparr>)
           | Submit p \<Rightarrow> None
           | Await \<Rightarrow> None))"

text \<open>
  The goroutines of the process and the jobs of the state machine goroutine, oldest first; a job knows the
  goroutine that waits for it, if any.
\<close>

record ('l, 'v) system =
  threads :: "('l, 'v) agent list"
  jobs :: "(nat option \<times> ('l, 'v) agent) list"

definition agents :: "('l, 'v) system \<Rightarrow> ('l, 'v) agent list" where
  "agents s = threads s @ (case jobs s of [] \<Rightarrow> [] | (w, j) # _ \<Rightarrow> [j])"

inductive sys_step :: "('l, 'v) system \<Rightarrow> ('l, 'v) system \<Rightarrow> bool" where
  run_thread: "i < length (threads s) \<Longrightarrow> advance (agents s) (threads s ! i) = Some a \<Longrightarrow>
    sys_step s (s\<lparr>threads := (threads s)[i := a]\<rparr>)"
| submit: "i < length (threads s) \<Longrightarrow> todo (threads s ! i) = Submit p # rest \<Longrightarrow>
    sys_step s (s\<lparr>threads := (threads s)[i := (threads s ! i)\<lparr>todo := Await # rest\<rparr>], jobs := jobs s @ [(Some i, fresh_agent p)]\<rparr>)"
| await: "i < length (threads s) \<Longrightarrow> todo (threads s ! i) = Await # rest \<Longrightarrow> Some i \<notin> fst ` set (jobs s) \<Longrightarrow>
    sys_step s (s\<lparr>threads := (threads s)[i := (threads s ! i)\<lparr>todo := rest\<rparr>]\<rparr>)"
| run_job: "jobs s = (w, j) # js \<Longrightarrow> advance (agents s) j = Some j' \<Longrightarrow> sys_step s (s\<lparr>jobs := (w, j') # js\<rparr>)"
| end_job: "jobs s = (w, j) # js \<Longrightarrow> todo j = [] \<Longrightarrow> sys_step s (s\<lparr>jobs := js\<rparr>)"

definition sys_start :: "('l, 'v) action list list \<Rightarrow> ('l, 'v) action list list \<Rightarrow> ('l, 'v) system" where
  "sys_start ps js = \<lparr>threads = map fresh_agent ps, jobs = map (\<lambda>j. (None, fresh_agent j)) js\<rparr>"

definition finished :: "('l, 'v) system \<Rightarrow> bool" where
  "finished s \<longleftrightarrow> list_all (\<lambda>a. todo a = [] \<and> held a = []) (threads s) \<and> jobs s = []"

text \<open>Two agents race when both are about to access a variable and one of them writes it.\<close>

definition accesses :: "'v \<Rightarrow> ('l, 'v) agent \<Rightarrow> bool" where
  "accesses v a \<longleftrightarrow> (case todo a of Read v' # _ \<Rightarrow> v' = v | Write v' # _ \<Rightarrow> v' = v | _ \<Rightarrow> False)"

definition writes :: "'v \<Rightarrow> ('l, 'v) agent \<Rightarrow> bool" where
  "writes v a \<longleftrightarrow> (case todo a of Write v' # _ \<Rightarrow> v' = v | _ \<Rightarrow> False)"

definition races :: "'v \<Rightarrow> ('l, 'v) system \<Rightarrow> bool" where
  "races v s \<longleftrightarrow> (\<exists>i < length (agents s). \<exists>j < length (agents s). i \<noteq> j \<and> writes v (agents s ! i) \<and> accesses v (agents s ! j))"

section \<open>The discipline\<close>

text \<open>
  A program is disciplined when it takes a lock only while it holds locks of lower rank, submits jobs only
  while it holds locks below the rank of the state machine goroutine, releases what it took, and
  accesses a guarded variable under its lock. Jobs take locks above that rank only and submit nothing.
\<close>

definition service_only :: "('l \<Rightarrow> nat) \<Rightarrow> nat \<Rightarrow> ('l, 'v) action list \<Rightarrow> bool" where
  "service_only rank svc p \<longleftrightarrow>
     list_all (\<lambda>act. case act of RLock l \<Rightarrow> svc < rank l | Lock l \<Rightarrow> svc < rank l | Acquire l \<Rightarrow> svc < rank l
                   | Submit _ \<Rightarrow> False | Await \<Rightarrow> False | _ \<Rightarrow> True) p"

definition below :: "('l \<Rightarrow> nat) \<Rightarrow> nat \<Rightarrow> ('l \<times> lock_mode) list \<Rightarrow> bool" where
  "below rank n h \<longleftrightarrow> list_all (\<lambda>(k, _). rank k < n) h"

fun disciplined ::
  "('l \<Rightarrow> nat) \<Rightarrow> nat \<Rightarrow> ('v \<Rightarrow> 'l option) \<Rightarrow> ('l \<times> lock_mode) list \<Rightarrow> ('l, 'v) action list \<Rightarrow> bool"
where
  "disciplined rank svc guard h [] \<longleftrightarrow> h = []"
| "disciplined rank svc guard h (RLock l # rest) \<longleftrightarrow> below rank (rank l) h \<and> disciplined rank svc guard ((l, Shared) # h) rest"
| "disciplined rank svc guard h (Lock l # rest) \<longleftrightarrow> below rank (rank l) h \<and> disciplined rank svc guard ((l, Exclusive) # h) rest"
| "disciplined rank svc guard h (Acquire l # rest) \<longleftrightarrow> below rank (rank l) h \<and> disciplined rank svc guard ((l, Exclusive) # h) rest"
| "disciplined rank svc guard h (RUnlock l # rest) \<longleftrightarrow> (l, Shared) \<in> set h \<and> disciplined rank svc guard (remove1 (l, Shared) h) rest"
| "disciplined rank svc guard h (Unlock l # rest) \<longleftrightarrow> (l, Exclusive) \<in> set h \<and> disciplined rank svc guard (remove1 (l, Exclusive) h) rest"
| "disciplined rank svc guard h (Read v # rest) \<longleftrightarrow>
     (case guard v of None \<Rightarrow> True | Some l \<Rightarrow> (l, Shared) \<in> set h \<or> (l, Exclusive) \<in> set h) \<and> disciplined rank svc guard h rest"
| "disciplined rank svc guard h (Write v # rest) \<longleftrightarrow>
     (case guard v of None \<Rightarrow> True | Some l \<Rightarrow> (l, Exclusive) \<in> set h) \<and> disciplined rank svc guard h rest"
| "disciplined rank svc guard h (Submit p # rest) \<longleftrightarrow>
     below rank svc h \<and> service_only rank svc p \<and> disciplined rank svc guard [] p \<and> disciplined rank svc guard h rest"
| "disciplined rank svc guard h (Await # rest) \<longleftrightarrow> below rank svc h \<and> disciplined rank svc guard h rest"

lemma disciplined_append:
  "disciplined rank svc guard h p \<Longrightarrow> disciplined rank svc guard [] q \<Longrightarrow> disciplined rank svc guard h (p @ q)"
  by (induction rank svc guard h p rule: disciplined.induct) auto

lemma disciplined_concat: "list_all (disciplined rank svc guard []) ps \<Longrightarrow> disciplined rank svc guard [] (concat ps)"
  by (induction ps) (auto intro: disciplined_append)

lemma service_only_simps [simp]:
  "service_only rank svc []"
  "service_only rank svc (p @ q) \<longleftrightarrow> service_only rank svc p \<and> service_only rank svc q"
  by (simp_all add: service_only_def)

section \<open>Every step makes progress\<close>

fun cost :: "('l, 'v) action \<Rightarrow> nat" where
  "cost (Lock l) = 2"
| "cost (Submit p) = 3 + sum_list (map cost p)"
| "cost act = 1"

definition remaining :: "('l, 'v) agent \<Rightarrow> nat" where
  "remaining a = sum_list (map cost (todo a))"

definition total_cost :: "('l, 'v) system \<Rightarrow> nat" where
  "total_cost s = sum_list (map remaining (threads s)) + sum_list (map (\<lambda>(w, j). Suc (remaining j)) (jobs s))"

lemma remaining_fresh [simp]: "remaining (fresh_agent p) = sum_list (map cost p)"
  by (simp add: remaining_def fresh_agent_def)

lemma sum_list_update_less:
  fixes f :: "'a \<Rightarrow> nat"
  shows "i < length xs \<Longrightarrow> f x + k \<le> f (xs ! i) \<Longrightarrow> sum_list (map f (xs[i := x])) + k \<le> sum_list (map f xs)"
  by (induction xs arbitrary: i) (auto split: nat.splits)

lemma advance_cost: "advance ags a = Some a' \<Longrightarrow> remaining a' + 1 \<le> remaining a"
  by (auto simp: advance_def remaining_def split: list.splits action.splits if_splits)

lemma step_cost: "sys_step s s' \<Longrightarrow> total_cost s' < total_cost s"
proof (induction rule: sys_step.induct)
  case (run_thread i s a)
  then show ?case
    using sum_list_update_less [of i "threads s" remaining a 1] advance_cost by (fastforce simp: total_cost_def)
next
  case (submit i s p rest)
  let ?a = "(threads s ! i)\<lparr>todo := Await # rest\<rparr>"
  have "remaining ?a + (2 + sum_list (map cost p)) \<le> remaining (threads s ! i)" using submit by (simp add: remaining_def)
  from sum_list_update_less [OF submit(1) this] show ?case by (simp add: total_cost_def)
next
  case (await i s rest)
  let ?a = "(threads s ! i)\<lparr>todo := rest\<rparr>"
  have "remaining ?a + 1 \<le> remaining (threads s ! i)" using await by (simp add: remaining_def)
  from sum_list_update_less [OF await(1) this] show ?case by (simp add: total_cost_def)
next
  case (run_job s w j js j')
  then show ?case using advance_cost [OF run_job(2)] by (simp add: total_cost_def)
qed (simp add: total_cost_def)

lemma run_length: "(sys_step ^^ n) s s' \<Longrightarrow> n + total_cost s' \<le> total_cost s"
proof (induction n arbitrary: s')
  case (Suc n)
  then obtain t where "(sys_step ^^ n) s t" "sys_step t s'" by auto
  with Suc.IH step_cost show ?case by fastforce
qed simp

section \<open>Disciplined systems\<close>

definition compatible :: "('l, 'v) agent \<Rightarrow> ('l, 'v) agent \<Rightarrow> bool" where
  "compatible a b \<longleftrightarrow> (\<forall>l. ((l, Exclusive) \<in> set (held a) \<longrightarrow> \<not> holds l b) \<and> ((l, Exclusive) \<in> set (held b) \<longrightarrow> \<not> holds l a))"

definition exclusive :: "('l, 'v) agent list \<Rightarrow> bool" where
  "exclusive ags \<longleftrightarrow> (\<forall>i < length ags. \<forall>j < length ags. i \<noteq> j \<longrightarrow> compatible (ags ! i) (ags ! j))"

lemma compatible_sym: "compatible a b \<Longrightarrow> compatible b a"
  by (auto simp: compatible_def)

lemma exclusive_update:
  assumes "exclusive ags" "k < length ags" "\<And>m. m < length ags \<Longrightarrow> m \<noteq> k \<Longrightarrow> compatible a (ags ! m)"
  shows "exclusive (ags[k := a])"
  unfolding exclusive_def
proof (intro allI impI)
  fix i j assume ij: "i < length (ags[k := a])" "j < length (ags[k := a])" "i \<noteq> j"
  show "compatible (ags[k := a] ! i) (ags[k := a] ! j)"
    using ij assms(1,2) assms(3) [of j] assms(3) [of i, THEN compatible_sym]
    by (cases "i = k"; cases "j = k") (simp_all add: exclusive_def)
qed

lemma compatible_fewer: "compatible a b \<Longrightarrow> set (held a') \<subseteq> set (held a) \<Longrightarrow> compatible a' b"
  unfolding compatible_def holds_def by blast

lemma exclusive_fewer:
  "exclusive ags \<Longrightarrow> k < length ags \<Longrightarrow> set (held a) \<subseteq> set (held (ags ! k)) \<Longrightarrow> exclusive (ags[k := a])"
  by (rule exclusive_update, assumption, assumption, rule compatible_fewer) (auto simp: exclusive_def)

lemma compatible_fresh: "held a = [] \<Longrightarrow> compatible a b" "held a = [] \<Longrightarrow> compatible b a"
  by (simp_all add: compatible_def holds_def)

lemma exclusive_snoc: "exclusive ags \<Longrightarrow> held a = [] \<Longrightarrow> exclusive (ags @ [a])"
  unfolding exclusive_def by (auto simp: nth_append compatible_fresh less_Suc_eq)

lemma exclusive_append: "exclusive (xs @ ys) \<Longrightarrow> exclusive xs"
  unfolding exclusive_def by (metis nth_append length_append trans_less_add1)

lemma advance_held:
  "advance ags a = Some a' \<Longrightarrow>
   set (held a') \<subseteq> set (held a) \<or>
   (\<exists>l m. held a' = (l, m) # held a \<and> (\<forall>b \<in> set ags. (l, Exclusive) \<notin> set (held b) \<and> (m = Exclusive \<longrightarrow> \<not> holds l b)))"
  using set_remove1_subset
  by (fastforce simp: advance_def list_ex_iff claims_def holds_def split: list.splits action.splits if_splits)

lemma advance_exclusive:
  assumes "exclusive ags" "k < length ags" "advance ags (ags ! k) = Some a"
  shows "exclusive (ags[k := a])"
  using advance_held [OF assms(3)]
proof (elim disjE exE conjE)
  assume "set (held a) \<subseteq> set (held (ags ! k))"
  then show ?thesis by (rule exclusive_fewer [OF assms(1,2)])
next
  fix l m
  assume h: "held a = (l, m) # held (ags ! k)"
    and free: "\<forall>b \<in> set ags. (l, Exclusive) \<notin> set (held b) \<and> (m = Exclusive \<longrightarrow> \<not> holds l b)"
  show ?thesis
  proof (rule exclusive_update [OF assms(1,2)])
    fix i assume i: "i < length ags" "i \<noteq> k"
    have "compatible (ags ! k) (ags ! i)" using assms(1,2) i by (simp add: exclusive_def)
    with bspec [OF free nth_mem [OF i(1)]] show "compatible a (ags ! i)" by (auto simp: compatible_def holds_def h)
  qed
qed

text \<open>
  The contract: a ranking of the locks and of the state machine goroutine, and the lock that guards each
  variable, such that all programs and all jobs are disciplined.
\<close>

locale lock_discipline =
  fixes rank :: "'l \<Rightarrow> nat"
    and svc :: nat
    and guard :: "'v \<Rightarrow> 'l option"
    and program :: "('l, 'v) action list \<Rightarrow> bool"
    and job :: "('l, 'v) action list \<Rightarrow> bool"
  assumes program_disciplined: "program p \<Longrightarrow> disciplined rank svc guard [] p"
    and job_disciplined: "job p \<Longrightarrow> disciplined rank svc guard [] p"
    and job_service: "job p \<Longrightarrow> service_only rank svc p"
begin

definition agent_ok :: "('l, 'v) agent \<Rightarrow> bool" where
  "agent_ok a \<longleftrightarrow> disciplined rank svc guard (held a) (todo a)"

definition job_ok :: "('l, 'v) agent \<Rightarrow> bool" where
  "job_ok a \<longleftrightarrow> agent_ok a \<and> service_only rank svc (todo a)"

definition sys_ok :: "('l, 'v) system \<Rightarrow> bool" where
  "sys_ok s \<longleftrightarrow> (\<forall>a \<in> set (threads s). agent_ok a) \<and> (\<forall>(w, j) \<in> set (jobs s). job_ok j) \<and>
     (\<forall>(w, j) \<in> set (tl (jobs s)). held j = []) \<and> exclusive (agents s)"

lemma advance_ok: "advance ags a = Some a' \<Longrightarrow> agent_ok a \<Longrightarrow> agent_ok a'"
  by (auto simp: advance_def agent_ok_def split: list.splits action.splits if_splits)

lemma advance_job: "advance ags a = Some a' \<Longrightarrow> job_ok a \<Longrightarrow> job_ok a'"
  using advance_ok [of ags a a']
  by (auto simp: advance_def job_ok_def service_only_def split: list.splits action.splits if_splits)

lemma ok_start: "list_all program ps \<Longrightarrow> list_all job js \<Longrightarrow> sys_ok (sys_start ps js)"
proof -
  assume a: "list_all program ps" "list_all job js"
  have "exclusive (agents (sys_start ps js))"
    by (auto simp: exclusive_def agents_def sys_start_def compatible_def holds_def fresh_agent_def nth_append split: list.splits)
  moreover have "held j = []" if "(w, j) \<in> set (tl (jobs (sys_start ps js)))" for w j
    using list.set_sel(2) [of "jobs (sys_start ps js)"] that by (cases js) (auto simp: sys_start_def fresh_agent_def)
  ultimately show ?thesis
    using a program_disciplined job_disciplined job_service
    by (auto simp: sys_ok_def sys_start_def agent_ok_def job_ok_def fresh_agent_def list_all_iff)
qed

lemma ok_step: "sys_step s s' \<Longrightarrow> sys_ok s \<Longrightarrow> sys_ok s'"
proof (induction rule: sys_step.induct)
  case (run_thread i s a)
  have "agents (s\<lparr>threads := (threads s)[i := a]\<rparr>) = (agents s)[i := a]" using run_thread(1) by (simp add: agents_def list_update_append)
  moreover have "exclusive ((agents s)[i := a])"
    using run_thread by (intro advance_exclusive) (auto simp: sys_ok_def agents_def nth_append)
  moreover have "agent_ok a" using run_thread advance_ok by (auto simp: sys_ok_def)
  ultimately show ?case using run_thread(3) set_update_subset_insert [of "threads s" i a] by (auto simp: sys_ok_def)
next
  case (submit i s p rest)
  let ?a = "(threads s ! i)\<lparr>todo := Await # rest\<rparr>" and ?new = "[(Some i, fresh_agent p)]"
  have ok: "agent_ok (threads s ! i)" using submit by (simp add: sys_ok_def)
  have e: "exclusive ((agents s)[i := ?a])"
    by (intro exclusive_fewer) (use submit in \<open>auto simp: sys_ok_def agents_def nth_append\<close>)
  have "exclusive (agents (s\<lparr>threads := (threads s)[i := ?a], jobs := jobs s @ ?new\<rparr>))"
    using e exclusive_snoc [OF e, of "fresh_agent p"] submit(1)
    by (cases "jobs s") (auto simp: agents_def list_update_append fresh_agent_def split: prod.splits)
  moreover have "agent_ok ?a" "job_ok (fresh_agent p)" using ok submit(2) by (auto simp: agent_ok_def job_ok_def fresh_agent_def)
  moreover have "held j = []" if "(w, j) \<in> set (tl (jobs s @ ?new))" for w j
    using that submit(3) by (cases "jobs s") (auto simp: sys_ok_def fresh_agent_def)
  ultimately show ?case using submit(3) set_update_subset_insert [of "threads s" i ?a] by (auto simp: sys_ok_def)
next
  case (await i s rest)
  let ?a = "(threads s ! i)\<lparr>todo := rest\<rparr>"
  have ok: "agent_ok (threads s ! i)" using await by (simp add: sys_ok_def)
  have "exclusive ((agents s)[i := ?a])"
    by (intro exclusive_fewer) (use await in \<open>auto simp: sys_ok_def agents_def nth_append\<close>)
  then have "exclusive (agents (s\<lparr>threads := (threads s)[i := ?a]\<rparr>))" using await(1) by (simp add: agents_def list_update_append)
  moreover have "agent_ok ?a" using ok await(2) by (auto simp: agent_ok_def)
  ultimately show ?case using await(4) set_update_subset_insert [of "threads s" i ?a] by (auto simp: sys_ok_def)
next
  case (run_job s w j js j')
  let ?k = "length (threads s)"
  have "exclusive ((agents s)[?k := j'])" using run_job by (intro advance_exclusive) (auto simp: sys_ok_def agents_def nth_append)
  then have "exclusive (threads s @ [j'])" using run_job(1) by (simp add: agents_def)
  moreover have "job_ok j'" using advance_job [OF run_job(2)] run_job(1,3) by (auto simp: sys_ok_def)
  ultimately show ?case using run_job(1,3) by (auto simp: sys_ok_def agents_def)
next
  case (end_job s w j js)
  have e: "exclusive (threads s)" by (rule exclusive_append [of _ "[j]"]) (use end_job in \<open>simp add: sys_ok_def agents_def\<close>)
  have "exclusive (agents (s\<lparr>jobs := js\<rparr>))" using end_job(1,3) e by (cases js) (auto simp: agents_def sys_ok_def intro: exclusive_snoc)
  moreover have "held j = []" if "(w, j) \<in> set (tl js)" for w j using that end_job(1,3) by (cases js) (auto simp: sys_ok_def)
  ultimately show ?case using end_job(1,3) by (auto simp: sys_ok_def)
qed

lemma ok_run: "sys_step\<^sup>*\<^sup>* s s' \<Longrightarrow> sys_ok s \<Longrightarrow> sys_ok s'"
  by (induction rule: rtranclp_induct) (auto intro: ok_step)

text \<open>In a stuck state every agent that is not finished waits for a lock or for a job.\<close>

definition wait_rank :: "('l, 'v) agent \<Rightarrow> nat" where
  "wait_rank a = (case todo a of RLock l # _ \<Rightarrow> rank l | Lock l # _ \<Rightarrow> rank l | Acquire l # _ \<Rightarrow> rank l | _ \<Rightarrow> svc)"

lemma stuck_advance:
  assumes "\<nexists>s'. sys_step s s'" "a \<in> set (agents s)"
  shows "advance (agents s) a = None"
proof (cases "a \<in> set (threads s)")
  case True
  then obtain i where "i < length (threads s)" "threads s ! i = a" by (auto simp: in_set_conv_nth)
  then show ?thesis using assms(1) sys_step.run_thread [of i s] by (cases "advance (agents s) a") auto
next
  case False
  then obtain w js where "jobs s = (w, a) # js" using assms(2) by (cases "jobs s") (auto simp: agents_def)
  then show ?thesis using assms(1) sys_step.run_job [of s w a js] by (cases "advance (agents s) a") auto
qed

lemma agents_ok: "sys_ok s \<Longrightarrow> a \<in> set (agents s) \<Longrightarrow> agent_ok a"
  by (auto simp: sys_ok_def agents_def job_ok_def split: list.splits)

lemma stuck_waits:
  assumes "\<nexists>s'. sys_step s s'" "sys_ok s" "a \<in> set (agents s)" "todo a = act # rest"
  shows "below rank (wait_rank a) (held a) \<and>
    ((\<exists>l. rank l = wait_rank a \<and> list_ex (holds l) (agents s)) \<or> a \<in> set (threads s) \<and> act = Await \<and> jobs s \<noteq> [])"
proof -
  have adv: "advance (agents s) a = None" by (rule stuck_advance [OF assms(1,3)])
  have ok: "disciplined rank svc guard (held a) (act # rest)" using agents_ok [OF assms(2,3)] assms(4) by (simp add: agent_ok_def)
  have hold: "list_ex (holds l) (agents s)" if "list_ex (claims l) (agents s)" for l
  proof -
    obtain b where b: "b \<in> set (agents s)" "claims l b" using \<open>list_ex (claims l) (agents s)\<close> by (auto simp: list_ex_iff)
    show ?thesis
    proof (cases "(l, Exclusive) \<in> set (held b)")
      case True
      with b(1) show ?thesis by (auto simp: list_ex_iff holds_def)
    next
      case False
      with b(2) obtain r where "todo b = Acquire l # r" by (auto simp: claims_def split: list.splits action.splits)
      with stuck_advance [OF assms(1) b(1)] show ?thesis by (auto simp: advance_def split: if_splits)
    qed
  qed
  have thread: "a \<in> set (threads s)" if "act = Submit p \<or> act = Await" for p
  proof (rule ccontr)
    assume "a \<notin> set (threads s)"
    then have "service_only rank svc (todo a)" using assms(2,3) by (auto simp: agents_def sys_ok_def job_ok_def split: list.splits)
    with that assms(4) show False by (auto simp: service_only_def)
  qed
  have nosubmit: "act \<noteq> Submit p" for p
  proof
    assume e: "act = Submit p"
    then obtain i where "i < length (threads s)" "threads s ! i = a" using thread by (auto simp: in_set_conv_nth)
    with e assms(1,4) sys_step.submit [of i s p rest] show False by auto
  qed
  have aw: "jobs s \<noteq> []" if e: "act = Await"
  proof -
    obtain i where "i < length (threads s)" "threads s ! i = a" using thread e by (auto simp: in_set_conv_nth)
    with e assms(1,4) sys_step.await [of i s rest] show ?thesis by auto
  qed
  show ?thesis
    using adv ok hold nosubmit aw thread assms(4)
    by (cases act) (auto simp: advance_def wait_rank_def split: if_splits)
qed

lemma waits_higher:
  assumes "\<nexists>s'. sys_step s s'" "sys_ok s" "a \<in> set (agents s)" "todo a \<noteq> []"
  shows "\<exists>b \<in> set (agents s). todo b \<noteq> [] \<and> wait_rank a < wait_rank b"
proof -
  obtain act rest where act: "todo a = act # rest" using assms(4) by (cases "todo a") auto
  from stuck_waits [OF assms(1-3) act]
  consider l b where "rank l = wait_rank a" "b \<in> set (agents s)" "holds l b" | "act = Await" "jobs s \<noteq> []"
    by (auto simp: list_ex_iff)
  then show ?thesis
  proof cases
    case (1 l b)
    then have "disciplined rank svc guard (held b) (todo b)" "held b \<noteq> []"
      using agents_ok [OF assms(2)] by (auto simp: agent_ok_def holds_def)
    then obtain act' rest' where b: "todo b = act' # rest'" by (cases "todo b") auto
    then have "rank l < wait_rank b"
      using stuck_waits [OF assms(1,2) 1(2) b] 1(3) by (auto simp: below_def list_all_iff holds_def)
    with 1 b show ?thesis by force
  next
    case 2
    then obtain w j js where js: "jobs s = (w, j) # js" by (cases "jobs s") auto
    with assms(1) have "todo j \<noteq> []" using sys_step.end_job [of s w j js] by auto
    then obtain act' rest' where b: "todo j = act' # rest'" by (cases "todo j") auto
    have j: "j \<in> set (agents s)" using js by (simp add: agents_def)
    have sv: "service_only rank svc (todo j)" using assms(2) js by (auto simp: sys_ok_def job_ok_def)
    have "disciplined rank svc guard (held j) (act' # rest')" using agents_ok [OF assms(2) j] b by (simp add: agent_ok_def)
    with stuck_advance [OF assms(1) j] sv b have "svc < wait_rank j"
      by (cases act') (auto simp: advance_def service_only_def wait_rank_def split: if_splits)
    moreover have "wait_rank a = svc" using act 2 by (simp add: wait_rank_def)
    ultimately show ?thesis using b by (intro bexI [OF _ j]) simp
  qed
qed

theorem not_stuck:
  assumes "sys_ok s" "\<nexists>s'. sys_step s s'"
  shows "finished s"
proof -
  let ?W = "{a \<in> set (agents s). todo a \<noteq> []}"
  have "?W = {}"
  proof (rule ccontr)
    assume "?W \<noteq> {}"
    moreover have "finite ?W" by simp
    ultimately obtain a where "a \<in> ?W" "\<forall>b \<in> ?W. wait_rank b \<le> wait_rank a"
      using Max_in [of "wait_rank ` ?W"] Max_ge [of "wait_rank ` ?W"] by (smt (verit) empty_is_image finite_imageI imageE image_eqI)
    with waits_higher [OF assms(2,1), of a] show False by fastforce
  qed
  then have idle: "todo a = []" if "a \<in> set (agents s)" for a using that by blast
  have "jobs s = []"
  proof (cases "jobs s")
    case (Cons x js)
    then obtain w j where j: "jobs s = (w, j) # js" by (cases x) auto
    then have "todo j = []" using idle by (simp add: agents_def)
    with j assms(2) sys_step.end_job [of s w j js] show ?thesis by auto
  qed
  moreover have "held a = []" if "a \<in> set (threads s)" for a
    using agents_ok [OF assms(1), of a] idle [of a] that by (auto simp: agents_def agent_ok_def)
  ultimately show ?thesis using idle by (auto simp: finished_def list_all_iff agents_def)
qed

theorem no_race:
  assumes "sys_ok s" "guard v = Some l"
  shows "\<not> races v s"
proof
  assume "races v s"
  then obtain i j where ij: "i < length (agents s)" "j < length (agents s)" "i \<noteq> j" "writes v (agents s ! i)" "accesses v (agents s ! j)"
    by (auto simp: races_def)
  have d: "disciplined rank svc guard (held (agents s ! k)) (todo (agents s ! k))" if "k < length (agents s)" for k
    using agents_ok [OF assms(1)] that by (auto simp: agent_ok_def)
  have "(l, Exclusive) \<in> set (held (agents s ! i))"
    using d [OF ij(1)] ij(4) assms(2) by (auto simp: writes_def split: list.splits action.splits)
  moreover have "holds l (agents s ! j)"
    using d [OF ij(2)] ij(5) assms(2) by (auto simp: accesses_def holds_def split: list.splits action.splits)
  moreover have "compatible (agents s ! i) (agents s ! j)" using assms(1) ij(1-3) by (auto simp: sys_ok_def exclusive_def)
  ultimately show False by (auto simp: compatible_def)
qed

end

section \<open>What the server's operations lock\<close>

datatype lock_name = raftNodeMu | membershipMu | joinProgressMu | db_mutex

datatype shared_var = raftNode_var | joinProgress_map | keyspace_map | leaderAdminAddr_var

type_synonym program = "(lock_name, shared_var) action list"

text \<open>
  What an operation finds out on the way. Other goroutines may change the state between two of its steps,
  so each finding is free.
\<close>

record findings =
  sees_raft :: bool \<comment> \<open>\<^verbatim>\<open>RaftEnabled\<close> returns true\<close>
  sees_leader :: bool \<comment> \<open>the node's state is \<^verbatim>\<open>Leader\<close>\<close>
  node_there :: bool \<comment> \<open>\<^verbatim>\<open>raftNode\<close> is not nil under the lock\<close>
  accepted :: bool \<comment> \<open>Raft takes the entry\<close>
  key_found :: bool
  counter_ok :: bool

definition read_keyspace :: program where
  "read_keyspace = [RLock db_mutex, Read keyspace_map, RUnlock db_mutex]"

definition CountKeys_locks :: program where
  "CountKeys_locks = read_keyspace"

definition Get_locks :: program where
  "Get_locks = read_keyspace"

definition Set_locks :: program where
  "Set_locks = [Lock db_mutex, Write keyspace_map, Unlock db_mutex]"

definition Delete_locks :: "findings \<Rightarrow> program" where
  "Delete_locks f =
     [Lock db_mutex, Read keyspace_map] @ (if key_found f then [Write keyspace_map] else []) @ [Unlock db_mutex]"

definition Incr_locks :: "findings \<Rightarrow> program" where
  "Incr_locks f =
     [Lock db_mutex, Read keyspace_map] @ (if \<not> key_found f \<or> counter_ok f then [Write keyspace_map] else []) @
     [Unlock db_mutex]"

definition Snapshot_locks :: program where
  "Snapshot_locks = read_keyspace"

definition Restore_locks :: "bool \<Rightarrow> program" where
  \<comment> \<open>the image is decoded and checked before the lock is taken\<close>
  "Restore_locks valid = (if valid then [Lock db_mutex, Write keyspace_map, Unlock db_mutex] else [])"

definition SaveSnapshot_locks :: "findings \<Rightarrow> program" where
  "SaveSnapshot_locks f =
     [RLock raftNodeMu, Read raftNode_var] @ (if node_there f then [Submit Snapshot_locks] else []) @ [RUnlock raftNodeMu]"

definition executeOnDB_locks :: "findings \<Rightarrow> Cmd \<Rightarrow> program" where
  "executeOnDB_locks f cmd =
     (case typed cmd of
        SetC _ _ \<Rightarrow> Set_locks
      | GetC _ \<Rightarrow> Get_locks
      | DelC _ \<Rightarrow> Delete_locks f
      | IncrC _ _ \<Rightarrow> Incr_locks f
      | ExistsC _ \<Rightarrow> CountKeys_locks
      | SaveC \<Rightarrow> SaveSnapshot_locks f
      | _ \<Rightarrow> [])"

definition RaftEnabled_locks :: program where
  "RaftEnabled_locks = [RLock raftNodeMu, Read raftNode_var, RUnlock raftNodeMu]"

definition IsLeader_locks :: program where
  "IsLeader_locks = [RLock raftNodeMu, Read raftNode_var, RUnlock raftNodeMu]"

definition Apply_locks :: "findings \<Rightarrow> bytes \<Rightarrow> program" where
  "Apply_locks f data =
     (case unmarshal_cmd data of
        None \<Rightarrow> []
      | Some cmd \<Rightarrow> if Op cmd = OpLeaderChanged then [Write leaderAdminAddr_var] else executeOnDB_locks f cmd)"

definition applyCmdViaRaftNode_locks :: "findings \<Rightarrow> Cmd \<Rightarrow> program" where
  "applyCmdViaRaftNode_locks f cmd = (if accepted f then [Submit (Apply_locks f (marshal_cmd cmd))] else [])"

definition ApplyCmdViaRaft_locks :: "findings \<Rightarrow> Cmd \<Rightarrow> program" where
  "ApplyCmdViaRaft_locks f cmd =
     [RLock raftNodeMu, Read raftNode_var] @
     (if node_there f then applyCmdViaRaftNode_locks f cmd else executeOnDB_locks f cmd) @
     [RUnlock raftNodeMu]"

definition executeRESPCmd_locks :: "findings \<Rightarrow> Cmd \<Rightarrow> program" where
  "executeRESPCmd_locks f cmd =
     (if IsWriteOp cmd then
        RaftEnabled_locks @
        (if sees_raft f then IsLeader_locks @ (if sees_leader f then ApplyCmdViaRaft_locks f cmd else [])
         else executeOnDB_locks f cmd)
      else executeOnDB_locks f cmd)"

definition recordJoinProgress_locks :: program where
  "recordJoinProgress_locks = [Lock joinProgressMu, Read joinProgress_map, Write joinProgress_map, Unlock joinProgressMu]"

definition clearJoinProgress_locks :: program where
  "clearJoinProgress_locks = [Lock joinProgressMu, Write joinProgress_map, Unlock joinProgressMu]"

definition clusterMemberProgress_locks :: "Server \<Rightarrow> program" where
  "clusterMemberProgress_locks server = (if Suffrage server = Voter then [] else recordJoinProgress_locks)"

definition buildClusterInfoForNode_locks :: "Server list option \<Rightarrow> program" where
  \<comment> \<open>\<open>None\<close>: the configuration cannot be read\<close>
  "buildClusterInfoForNode_locks servers =
     (case servers of
        None \<Rightarrow> []
      | Some srvs \<Rightarrow> Read leaderAdminAddr_var # concat (map clusterMemberProgress_locks srvs))"

definition buildClusterInfo_locks :: "findings \<Rightarrow> Server list option \<Rightarrow> program" where
  "buildClusterInfo_locks f servers =
     [RLock raftNodeMu, Read raftNode_var] @ (if node_there f then buildClusterInfoForNode_locks servers else []) @ [RUnlock raftNodeMu]"

text \<open>How \<^verbatim>\<open>JoinClusterWithProgress\<close> goes on once it holds the membership lock.\<close>

datatype join_branch =
    Refused | AlreadyVoter "Server list option"
  | AddFailed | Added "Server list option"
  | StillBehind "Server list option" | PromoteFailed | Promoted "Server list option"

definition join_member_locks :: "join_branch \<Rightarrow> program" where
  "join_member_locks b =
     (case b of
        Refused \<Rightarrow> []
      | AlreadyVoter srvs \<Rightarrow> clearJoinProgress_locks @ buildClusterInfoForNode_locks srvs
      | AddFailed \<Rightarrow> [Submit []]
      | Added srvs \<Rightarrow> [Submit []] @ recordJoinProgress_locks @ buildClusterInfoForNode_locks srvs
      | StillBehind srvs \<Rightarrow> recordJoinProgress_locks @ buildClusterInfoForNode_locks srvs
      | PromoteFailed \<Rightarrow> recordJoinProgress_locks @ [Submit []]
      | Promoted srvs \<Rightarrow> recordJoinProgress_locks @ [Submit []] @ clearJoinProgress_locks @ buildClusterInfoForNode_locks srvs)"

definition JoinClusterWithProgress_locks :: "findings \<Rightarrow> bool \<Rightarrow> join_branch \<Rightarrow> program" where
  "JoinClusterWithProgress_locks f args_given b =
     [RLock raftNodeMu, Read raftNode_var] @
     (if \<not> node_there f then []
      else if \<not> sees_leader f then [Read leaderAdminAddr_var]
      else if \<not> args_given then []
      else [Lock membershipMu] @ join_member_locks b @ [Unlock membershipMu]) @
     [RUnlock raftNodeMu]"

definition ShutdownRaft_locks :: "findings \<Rightarrow> program" where
  "ShutdownRaft_locks f =
     [Lock raftNodeMu, Read raftNode_var] @ (if node_there f then [Write raftNode_var, Submit []] else []) @ [Unlock raftNodeMu]"

definition announce_locks :: "findings \<Rightarrow> program" where
  \<comment> \<open>the second goroutine of \<^verbatim>\<open>observeClusterLeaderChange\<close>, for one event\<close>
  "announce_locks f = Read leaderAdminAddr_var # (if accepted f then [Submit [Write leaderAdminAddr_var]] else [])"

definition StartRaft_locks :: "bool \<Rightarrow> bool list \<Rightarrow> nat \<Rightarrow> bool \<Rightarrow> program" where
  \<comment> \<open>whether a node exists already, the snapshots tried while Raft is created, the calls of the library that are
     waited for (configuration, bootstrap, shutdown after a failure), and whether the node is installed\<close>
  "StartRaft_locks duplicate images waits started =
     [Lock raftNodeMu, Read raftNode_var] @
     (if duplicate then []
      else concat (map Restore_locks images) @ replicate waits (Submit []) @ (if started then [Write raftNode_var] else [])) @
     [Unlock raftNodeMu]"

datatype handler =
    Request findings Cmd
  | Join findings bool join_branch
  | Inspect findings "Server list option"
  | Announce findings
  | StartNode bool "bool list" nat bool
  | StopNode findings

primrec handler_locks :: "handler \<Rightarrow> program" where
  "handler_locks (Request f cmd) = executeRESPCmd_locks f cmd"
| "handler_locks (Join f args_given b) = JoinClusterWithProgress_locks f args_given b"
| "handler_locks (Inspect f srvs) = buildClusterInfo_locks f srvs"
| "handler_locks (Announce f) = announce_locks f"
| "handler_locks (StartNode duplicate images waits started) = StartRaft_locks duplicate images waits started"
| "handler_locks (StopNode f) = ShutdownRaft_locks f"

text \<open>A goroutine handles one operation after the other.\<close>

definition goroutine :: "handler list \<Rightarrow> program" where
  "goroutine hs = concat (map handler_locks hs)"

text \<open>What the Raft library asks of the state machine by itself: entries of the log, snapshots to take and to install.\<close>

datatype raft_job = LogEntry findings bytes | TakeSnapshot | InstallSnapshot bool

primrec job_locks :: "raft_job \<Rightarrow> program" where
  "job_locks (LogEntry f data) = Apply_locks f data"
| "job_locks TakeSnapshot = Snapshot_locks"
| "job_locks (InstallSnapshot valid) = Restore_locks valid"

primrec raft_job_ok :: "raft_job \<Rightarrow> bool" where
  "raft_job_ok (LogEntry f data) \<longleftrightarrow> entry_ok data"
| "raft_job_ok TakeSnapshot \<longleftrightarrow> True"
| "raft_job_ok (InstallSnapshot valid) \<longleftrightarrow> True"

section \<open>The server is disciplined\<close>

fun server_rank :: "lock_name \<Rightarrow> nat" where
  "server_rank raftNodeMu = 0"
| "server_rank membershipMu = 1"
| "server_rank joinProgressMu = 2"
| "server_rank db_mutex = 4"

definition fsm_rank :: nat where
  "fsm_rank = 3"

fun server_guard :: "shared_var \<Rightarrow> lock_name option" where
  "server_guard raftNode_var = Some raftNodeMu"
| "server_guard joinProgress_map = Some joinProgressMu"
| "server_guard keyspace_map = Some db_mutex"
| "server_guard leaderAdminAddr_var = None"

abbreviation ordered :: "(lock_name \<times> lock_mode) list \<Rightarrow> program \<Rightarrow> bool" where
  "ordered \<equiv> disciplined server_rank fsm_rank server_guard"

abbreviation for_fsm :: "program \<Rightarrow> bool" where
  "for_fsm \<equiv> service_only server_rank fsm_rank"

lemmas store_locks = read_keyspace_def CountKeys_locks_def Get_locks_def Set_locks_def Delete_locks_def Incr_locks_def
  Snapshot_locks_def Restore_locks_def
lemmas lock_checks = below_def service_only_def fsm_rank_def

text \<open>Everything that touches the store only can run under any of the other locks.\<close>

lemma ordered_balanced:
  "below server_rank n h \<Longrightarrow> n \<le> 4 \<Longrightarrow>
   ordered h (read_keyspace @ q) = ordered h q \<and> ordered h (Set_locks @ q) = ordered h q \<and>
   ordered h (Delete_locks f @ q) = ordered h q \<and> ordered h (Incr_locks f @ q) = ordered h q \<and>
   ordered h (Restore_locks v @ q) = ordered h q"
  by (auto simp: store_locks lock_checks list_all_iff)

lemma typed_save: "typed cmd = SaveC \<Longrightarrow> \<not> IsWriteOp cmd"
  by (auto simp: typed_def IsWriteOp_def Let_def split: if_splits list.splits option.splits)

lemma write_on_store: "IsWriteOp cmd \<Longrightarrow> for_fsm (executeOnDB_locks f cmd)"
  by (cases "typed cmd") (auto simp: executeOnDB_locks_def store_locks lock_checks dest: typed_save)

lemma write_ordered:
  "IsWriteOp cmd \<Longrightarrow> below server_rank n h \<Longrightarrow> n \<le> 4 \<Longrightarrow> ordered h (executeOnDB_locks f cmd @ q) = ordered h q"
  using ordered_balanced [of n h q f] by (cases "typed cmd") (auto simp: executeOnDB_locks_def CountKeys_locks_def Get_locks_def dest: typed_save)

lemma execute_ordered: "ordered [] (executeOnDB_locks f cmd)"
  by (cases "typed cmd") (auto simp: executeOnDB_locks_def SaveSnapshot_locks_def store_locks lock_checks)

lemma Apply_ordered: "entry_ok e \<Longrightarrow> ordered [] (Apply_locks f e) \<and> for_fsm (Apply_locks f e)"
  using execute_ordered write_on_store
  by (auto simp: entry_ok_def Apply_locks_def service_only_def dest: write_not_announce)

lemma progress_ordered:
  "below server_rank 2 h \<Longrightarrow> ordered h (recordJoinProgress_locks @ q) = ordered h q"
  "below server_rank 2 h \<Longrightarrow> ordered h (clearJoinProgress_locks @ q) = ordered h q"
  by (auto simp: recordJoinProgress_locks_def clearJoinProgress_locks_def lock_checks list_all_iff)

lemma build_ordered:
  assumes "below server_rank 2 h"
  shows "ordered h (buildClusterInfoForNode_locks srvs @ q) = ordered h q"
proof -
  have "ordered h (concat (map clusterMemberProgress_locks ss) @ q) = ordered h q" for ss
    by (induction ss) (auto simp: clusterMemberProgress_locks_def progress_ordered [OF assms])
  then show ?thesis by (auto simp: buildClusterInfoForNode_locks_def split: option.splits)
qed

lemma join_ordered: "ordered h (join_member_locks b @ q) = ordered h q" if "below server_rank 2 h"
proof -
  have "below server_rank fsm_rank h" using that by (auto simp: lock_checks list_all_iff)
  then show ?thesis
    using that by (cases b) (auto simp: join_member_locks_def progress_ordered build_ordered)
qed

lemma waits_ordered: "below server_rank fsm_rank h \<Longrightarrow> ordered h (replicate n (Submit []) @ q) = ordered h q"
  by (induction n) auto

lemma restores_ordered: "below server_rank n h \<Longrightarrow> n \<le> 4 \<Longrightarrow> ordered h (concat (map Restore_locks vs) @ q) = ordered h q"
  by (induction vs) (simp_all add: ordered_balanced)

lemma request_ordered: "ordered [] (executeRESPCmd_locks f cmd)"
proof (cases "IsWriteOp cmd")
  case True
  have n: "below server_rank 1 [(raftNodeMu, Shared)]" by (simp add: lock_checks)
  have "ordered [] (Apply_locks f (marshal_cmd cmd)) \<and> for_fsm (Apply_locks f (marshal_cmd cmd))"
    by (rule Apply_ordered [OF entry_ok_write [OF True]])
  then have "ordered [] (ApplyCmdViaRaft_locks f cmd)"
    using write_ordered [OF True n, of f "[RUnlock raftNodeMu]"]
    by (auto simp: ApplyCmdViaRaft_locks_def applyCmdViaRaftNode_locks_def below_def fsm_rank_def)
  then show ?thesis
    using execute_ordered [of f cmd]
    by (auto simp: executeRESPCmd_locks_def RaftEnabled_locks_def IsLeader_locks_def below_def)
qed (simp add: executeRESPCmd_locks_def execute_ordered)

lemma handler_ordered: "ordered [] (handler_locks h)"
proof (cases h)
  case (Request f cmd)
  then show ?thesis by (simp add: request_ordered)
next
  case (Join f args_given b)
  have "below server_rank 2 [(membershipMu, Exclusive), (raftNodeMu, Shared)]" by (simp add: lock_checks)
  with Join show ?thesis by (auto simp: JoinClusterWithProgress_locks_def below_def join_ordered)
next
  case (Inspect f srvs)
  have "below server_rank 2 [(raftNodeMu, Shared)]" by (simp add: lock_checks)
  with Inspect show ?thesis by (auto simp: buildClusterInfo_locks_def below_def build_ordered)
next
  case (Announce f)
  then show ?thesis by (auto simp: announce_locks_def lock_checks)
next
  case (StartNode d vs n st)
  have n: "below server_rank 1 [(raftNodeMu, Exclusive)]" "below server_rank fsm_rank [(raftNodeMu, Exclusive)]" by (simp_all add: lock_checks)
  have "ordered [(raftNodeMu, Exclusive)] (concat (map Restore_locks vs) @ replicate n (Submit []) @ q) = ordered [(raftNodeMu, Exclusive)] q" for q
    by (simp only: restores_ordered [OF n(1)] waits_ordered [OF n(2)])
  with StartNode show ?thesis by (simp add: StartRaft_locks_def below_def)
next
  case (StopNode f)
  then show ?thesis by (auto simp: ShutdownRaft_locks_def lock_checks)
qed

lemma job_ordered: "raft_job_ok j \<Longrightarrow> ordered [] (job_locks j) \<and> for_fsm (job_locks j)"
  by (cases j) (simp add: Apply_ordered, simp_all add: store_locks lock_checks)

definition server_program :: "program \<Rightarrow> bool" where
  "server_program p \<longleftrightarrow> (\<exists>hs. p = goroutine hs)"

definition server_job :: "program \<Rightarrow> bool" where
  "server_job p \<longleftrightarrow> (\<exists>j. raft_job_ok j \<and> p = job_locks j)"

lemma goroutine_ordered: "ordered [] (goroutine hs)"
  unfolding goroutine_def by (rule disciplined_concat) (simp add: list_all_iff handler_ordered)

interpretation server_locks: lock_discipline server_rank fsm_rank server_guard server_program server_job
  by unfold_locales (auto simp: server_program_def server_job_def goroutine_ordered job_ordered)

text \<open>The states of a process whose goroutines run \<open>hss\<close> and whose Raft library starts with the jobs \<open>js\<close>.\<close>

definition locks_start :: "handler list list \<Rightarrow> raft_job list \<Rightarrow> (lock_name, shared_var) system" where
  "locks_start hss js = sys_start (map goroutine hss) (map job_locks js)"

lemma server_ok: "list_all raft_job_ok js \<Longrightarrow> sys_step\<^sup>*\<^sup>* (locks_start hss js) s \<Longrightarrow> server_locks.sys_ok s"
  unfolding locks_start_def
  by (erule server_locks.ok_run, rule server_locks.ok_start) (auto simp: list_all_iff server_program_def server_job_def)

section \<open>Properties\<close>



text \<open>
  C10. The server never deadlocks on its locks: whatever requests, joins, inspections, announcements, starts and
  shutdowns its goroutines handle, and however their steps interleave with each other and with the state machine
  goroutine of the Raft library, every run is finite, and as long as not every operation has returned with all locks
  released, some goroutine can go on. In particular a \<^verbatim>\<open>ShutdownRaft\<close> that waits for the package lock, which
  keeps new readers out, never meets a reader that waits for another reader.
\<close>

theorem server_never_deadlocks:
  assumes "list_all raft_job_ok js" "(sys_step ^^ n) (locks_start hss js) s"
  shows "n \<le> total_cost (locks_start hss js) \<and> ((\<exists>s'. sys_step s s') \<or> finished s)"
proof -
  have "sys_step\<^sup>*\<^sup>* (locks_start hss js) s" using assms(2) by (rule relpowp_imp_rtranclp)
  then have "server_locks.sys_ok s" by (rule server_ok [OF assms(1)])
  then show ?thesis using server_locks.not_stuck [of s] run_length [OF assms(2)] by auto
qed

definition example_findings :: findings where
  "example_findings = \<lparr>sees_raft = True, sees_leader = True, node_there = True, accepted = True, key_found = True, counter_ok = True\<rparr>"

abbreviation announce_entry :: bytes where
  "announce_entry \<equiv> marshal_cmd \<lparr>Op = OpLeaderChanged, Args = [[]]\<rparr>"

theorem server_never_deadlocks_witness:
  "\<exists>s'. sys_step (locks_start [[Join example_findings True (Promoted None)], [StopNode example_findings]] [LogEntry example_findings announce_entry]) s'"
proof -
  have "\<not> finished (locks_start [[Join example_findings True (Promoted None)], [StopNode example_findings]] [LogEntry example_findings announce_entry])"
    by (simp add: locks_start_def sys_start_def finished_def)
  then show ?thesis
    using server_never_deadlocks [of "[LogEntry example_findings announce_entry]" 0
        "[[Join example_findings True (Promoted None)], [StopNode example_findings]]"]
    by (simp add: entry_ok_announce)
qed

text \<open>
  C22. The store, the progress table and the node variable are free of data races: in no reachable state are two
  goroutines, among them the one that applies log entries and takes snapshots, both about to access one of them with
  at least one of them writing.
\<close>

theorem guarded_state_race_free:
  assumes "list_all raft_job_ok js" "sys_step\<^sup>*\<^sup>* (locks_start hss js) s" "v \<in> {keyspace_map, joinProgress_map, raftNode_var}"
  shows "\<not> races v s"
  using server_locks.no_race [OF server_ok [OF assms(1,2)], of v] assms(3) by auto

theorem guarded_state_race_free_witness:
  "\<exists>s. sys_step\<^sup>*\<^sup>* (locks_start [[Join (example_findings\<lparr>sees_leader := False\<rparr>) True Refused]] [TakeSnapshot]) s
    \<and> held (hd (threads s)) = [(raftNodeMu, Shared)] \<and> hd (todo (hd (threads s))) = Read raftNode_var \<and> \<not> races raftNode_var s"
proof -
  let ?s = "locks_start [[Join (example_findings\<lparr>sees_leader := False\<rparr>) True Refused]] [TakeSnapshot]"
  let ?a = "\<lparr>held = [], todo = [RLock raftNodeMu, Read raftNode_var, Read leaderAdminAddr_var, RUnlock raftNodeMu]\<rparr>"
  let ?b = "\<lparr>held = [(raftNodeMu, Shared)], todo = [Read raftNode_var, Read leaderAdminAddr_var, RUnlock raftNodeMu]\<rparr>"
  have s: "threads ?s = [?a]"
    by (simp add: locks_start_def sys_start_def goroutine_def JoinClusterWithProgress_locks_def example_findings_def fresh_agent_def)
  have "sys_step ?s (?s\<lparr>threads := [?b]\<rparr>)"
    using sys_step.run_thread [of 0 ?s ?b] s by (simp add: agents_def advance_def claims_def fresh_agent_def locks_start_def sys_start_def Snapshot_locks_def read_keyspace_def)
  then have r: "sys_step\<^sup>*\<^sup>* ?s (?s\<lparr>threads := [?b]\<rparr>)" by blast
  have "\<not> races raftNode_var (?s\<lparr>threads := [?b]\<rparr>)" by (rule guarded_state_race_free [OF _ r]) simp_all
  with r show ?thesis by (intro exI [of _ "?s\<lparr>threads := [?b]\<rparr>"]) simp
qed

text \<open>
  The leader's admin address is not guarded: \<^verbatim>\<open>fsm.Apply\<close> assigns \<^verbatim>\<open>leaderAdminAddr\<close> without a lock, and a join
  request on a follower reads it under \<^verbatim>\<open>raftNodeMu\<close> only; there is a run in which both are about to
  access it.
\<close>

lemma leader_address_races:
  "\<exists>s. sys_step\<^sup>*\<^sup>* (locks_start [[Join (example_findings\<lparr>sees_leader := False\<rparr>) True Refused]] [LogEntry example_findings announce_entry]) s
    \<and> races leaderAdminAddr_var s"
proof -
  let ?f = "example_findings\<lparr>sees_leader := False\<rparr>"
  let ?s = "locks_start [[Join ?f True Refused]] [LogEntry example_findings announce_entry]"
  let ?job = "fresh_agent [Write leaderAdminAddr_var] :: (lock_name, shared_var) agent"
  let ?a = "\<lparr>held = [], todo = [RLock raftNodeMu, Read raftNode_var, Read leaderAdminAddr_var, RUnlock raftNodeMu]\<rparr>"
  let ?b = "\<lparr>held = [(raftNodeMu, Shared)], todo = [Read raftNode_var, Read leaderAdminAddr_var, RUnlock raftNodeMu]\<rparr>"
  let ?c = "\<lparr>held = [(raftNodeMu, Shared)], todo = [Read leaderAdminAddr_var, RUnlock raftNodeMu]\<rparr>"
  let ?st = "\<lambda>a. \<lparr>threads = [a], jobs = [(None, ?job)]\<rparr>"
  have s: "?s = ?st ?a"
    by (simp add: locks_start_def sys_start_def goroutine_def JoinClusterWithProgress_locks_def example_findings_def
        Apply_locks_def unmarshal_marshal coerce_cmd_def coerce_valid OpLeaderChanged_valid fresh_agent_def)
  have "sys_step (?st ?a) (?st ?b)" "sys_step (?st ?b) (?st ?c)"
    using sys_step.run_thread [of 0 "?st ?a" ?b] sys_step.run_thread [of 0 "?st ?b" ?c]
    by (simp_all add: agents_def advance_def claims_def fresh_agent_def)
  then have "sys_step\<^sup>*\<^sup>* ?s (?st ?c)" unfolding s by (meson r_into_rtranclp rtranclp.rtrancl_into_rtrancl)
  moreover have "races leaderAdminAddr_var (?st ?c)"
    unfolding races_def
    by (rule exI [of _ "Suc 0"], rule conjI, simp add: agents_def, rule exI [of _ 0])
      (simp add: agents_def writes_def accesses_def fresh_agent_def)
  ultimately show ?thesis by blast
qed

end
