(* ===== verification/Recovery.thy ===== *)
theory Recovery
  imports Replication Storage
begin

text \<open>
  Restarting a node from its disk (\<^verbatim>\<open>src/core/raft.go\<close>, \<^verbatim>\<open>src/core/raft_storage.go\<close>): the snapshot policy the
  program configures, and what it is for. Snapshots are taken at intervals, the three newest that can be listed are
  kept, and after each one the Raft library removes old log entries but leaves the configured number of trailing ones. When
  newer snapshots turn out to be damaged, a restart falls back to an older one, so the log must reach back to it.

  The library is nondeterministic here: it may remove any entries that its documented options allow, and
  it is not assumed to notice a gap between the snapshot it restored and the first entry it still has. Entries
  are counted from 0 and \<open>removed\<close> is how many the log store has dropped.
\<close>

section \<open>The policy\<close>

definition raftSnapshotRetention :: nat where
  "raftSnapshotRetention = 3"

definition raftSnapshotThreshold :: uint64 where
  "raftSnapshotThreshold = 8192"

definition raftSnapshotInterval :: int where
  "raftSnapshotInterval = 2 * 60 * 1000000000"

definition raftSnapshotTrailingLogs :: uint64 where
  "raftSnapshotTrailingLogs = raftSnapshotThreshold * of_nat (raftSnapshotRetention - 1)"

record raft_conf =
  LocalID :: bytes
  SnapshotThreshold :: uint64
  SnapshotInterval :: int
  TrailingLogs :: uint64

definition node_conf :: "Config \<Rightarrow> raft_conf \<Rightarrow> raft_conf" where
  \<comment> \<open>the second argument is the library's \<^verbatim>\<open>DefaultConfig\<close>\<close>
  "node_conf config conf =
     conf\<lparr>LocalID := GetRaftId config, SnapshotThreshold := raftSnapshotThreshold,
          SnapshotInterval := raftSnapshotInterval, TrailingLogs := raftSnapshotTrailingLogs\<rparr>"

section \<open>A node's disk and memory\<close>

text \<open>
  A finalized snapshot: its metadata may have become unreadable, or its contents may fail the checksum; otherwise it
  holds the image that was written.
\<close>

datatype snapshot_content = Unreadable | Damaged | Intact bytes

record snapshot_file =
  snap_name :: bytes
  snap_index :: nat
  snap_content :: snapshot_content

record node_disk =
  history :: "bytes list"
  removed :: nat
  snapshots :: "snapshot_file list" \<comment> \<open>finalized ones, newest first\<close>
  leftovers :: "bytes list" \<comment> \<open>directories of snapshots that were not completed\<close>
  mem_applied :: nat
  mem_fsm :: fsm

definition empty_fsm :: fsm where
  "empty_fsm = \<lparr>fsm_db = empty_db, leaderAdminAddr = []\<rparr>"

definition disk_start :: node_disk where
  "disk_start = \<lparr>history = [], removed = 0, snapshots = [], leftovers = [], mem_applied = 0, mem_fsm = empty_fsm\<rparr>"

text \<open>What \<^verbatim>\<open>List\<close> of the snapshot store returns, and the entries of the snapshot directory.\<close>

definition List_snapshots :: "node_disk \<Rightarrow> snapshot_file list" where
  "List_snapshots d = filter (\<lambda>s. snap_content s \<noteq> Unreadable) (snapshots d)"

definition snapshot_entries :: "node_disk \<Rightarrow> (bytes \<times> bool) list" where
  "snapshot_entries d = map (\<lambda>s. (snap_name s, True)) (snapshots d) @ map (\<lambda>n. (n, True)) (leftovers d)"

text \<open>The library tries the listed snapshots from the newest on until one passes its checksum and is accepted by \<^verbatim>\<open>Restore\<close>.\<close>

fun restore_newest :: "snapshot_file list \<Rightarrow> fsm \<Rightarrow> (nat \<times> fsm) option" where
  "restore_newest [] f = None"
| "restore_newest (s # ss) f =
     (case snap_content s of
        Intact img \<Rightarrow> (case restore_image img f of Some g \<Rightarrow> Some (snap_index s, g) | None \<Rightarrow> restore_newest ss f)
      | _ \<Rightarrow> restore_newest ss f)"

datatype restart_error = StoresRefused storage_error | NoSnapshotRestored

text \<open>Opening the stores of a disk and creating Raft on them: the index and the state it starts from.\<close>

definition restart :: "bytes \<Rightarrow> node_disk \<Rightarrow> restart_error + nat \<times> fsm" where
  "restart dir d =
     (case rejectUnreadableFinalizedSnapshots dir (Inr (length (List_snapshots d))) (Inr (snapshot_entries d)) of
        Some err \<Rightarrow> Inl (StoresRefused err)
      | None \<Rightarrow>
          if List_snapshots d = [] then Inr (0, empty_fsm)
          else (case restore_newest (List_snapshots d) empty_fsm of
                  None \<Rightarrow> Inl NoSnapshotRestored
                | Some r \<Rightarrow> Inr r))"

text \<open>
  What the file snapshot store keeps after a new snapshot. It lists the snapshots whose metadata it can read
  and removes those listed beyond the newest \<open>n\<close>; a directory whose metadata it cannot read is neither counted nor
  removed. So a snapshot may outlive the \<open>n\<close> that were taken after it.
\<close>

fun reap :: "nat \<Rightarrow> snapshot_file list \<Rightarrow> snapshot_file list" where
  "reap n [] = []"
| "reap n (s # ss) =
     (if snap_content s = Unreadable then s # reap n ss
      else (case n of 0 \<Rightarrow> reap 0 ss | Suc m \<Rightarrow> s # reap m ss))"


text \<open>
  The steps of a node. \<open>admits\<close> says which restarts are considered, by the index they start from. \<open>spacing\<close> bounds how far the log has grown since the snapshot before when a new one is
  taken. Removing entries respects the options: nothing after the snapshot, and not the last \<^verbatim>\<open>TrailingLogs\<close>
  entries.
\<close>

definition compaction :: "raft_conf \<Rightarrow> node_disk \<Rightarrow> nat \<Rightarrow> bool" where
  "compaction conf d r \<longleftrightarrow>
     removed d \<le> r \<and> r \<le> max (removed d) (min (mem_applied d) (length (history d) - unat (TrailingLogs conf)))"

definition next_entry :: "node_disk \<Rightarrow> nat" where
  "next_entry d = max (mem_applied d) (removed d)"

inductive disk_step :: "raft_conf \<Rightarrow> nat \<Rightarrow> (node_disk \<Rightarrow> nat \<Rightarrow> bool) \<Rightarrow> node_disk \<Rightarrow> node_disk \<Rightarrow> bool"
  for conf spacing admits where
  appended: "entry_ok e \<Longrightarrow> disk_step conf spacing admits d (d\<lparr>history := history d @ [e]\<rparr>)"
| entry_applied: "next_entry d < length (history d) \<Longrightarrow> Apply save (history d ! next_entry d) (mem_fsm d) = Inr (r, f) \<Longrightarrow>
    disk_step conf spacing admits d (d\<lparr>mem_applied := Suc (next_entry d), mem_fsm := f\<rparr>)"
| snapshot_taken: "list_all (\<lambda>s. snap_index s < mem_applied d) (snapshots d) \<Longrightarrow>
    (case snapshots d of [] \<Rightarrow> True | s # _ \<Rightarrow> length (history d) \<le> snap_index s + spacing) \<Longrightarrow>
    \<not> HasSuffix name raftIncompleteSnapshotSuffix \<Longrightarrow> compaction conf d r \<Longrightarrow>
    disk_step conf spacing admits d
      (d\<lparr>snapshots := reap raftSnapshotRetention
            (\<lparr>snap_name = name, snap_index = mem_applied d, snap_content = Intact (snapshot_text (Snapshot (mem_fsm d)))\<rparr> # snapshots d),
         removed := r\<rparr>)"
| snapshot_interrupted: "HasSuffix name raftIncompleteSnapshotSuffix \<Longrightarrow>
    disk_step conf spacing admits d (d\<lparr>leftovers := name # leftovers d\<rparr>)"
| snapshot_lost: "i < length (snapshots d) \<Longrightarrow> snap_content (snapshots d ! i) \<noteq> Unreadable \<Longrightarrow> c = Unreadable \<or> c = Damaged \<Longrightarrow>
    disk_step conf spacing admits d (d\<lparr>snapshots := (snapshots d)[i := (snapshots d ! i)\<lparr>snap_content := c\<rparr>]\<rparr>)"
| restarted: "restart dir d = Inr (i, f) \<Longrightarrow> admits d i \<Longrightarrow> disk_step conf spacing admits d (d\<lparr>mem_applied := i, mem_fsm := f\<rparr>)"

abbreviation disk_runs :: "raft_conf \<Rightarrow> nat \<Rightarrow> node_disk \<Rightarrow> bool" where
  "disk_runs conf spacing \<equiv> (disk_step conf spacing (\<lambda>_ _. True))\<^sup>*\<^sup>* disk_start"


section \<open>Invariant\<close>

lemma trailing_value: "unat raftSnapshotTrailingLogs = unat raftSnapshotThreshold * (raftSnapshotRetention - 1)"
  by (simp add: raftSnapshotTrailingLogs_def raftSnapshotThreshold_def raftSnapshotRetention_def)










lemma reap_subset: "set (reap n ss) \<subseteq> set ss"
  by (induction n ss rule: reap.induct) (auto split: nat.splits)

lemma reap_readable: "list_all (\<lambda>s. snap_content s \<noteq> Unreadable) ss \<Longrightarrow> reap n ss = take n ss"
  by (induction n ss rule: reap.induct) (auto split: nat.split)













section \<open>Runs\<close>

text \<open>A node that works without trouble: every snapshot it can list is intact and nothing it needs is missing.\<close>

definition intact :: "snapshot_file \<Rightarrow> bool" where
  "intact s \<longleftrightarrow> (\<exists>f. fsm_inv f \<and> snap_content s = Intact (snapshot_text (Snapshot f)))"

definition healthy :: "node_disk \<Rightarrow> bool" where
  "healthy d \<longleftrightarrow> list_all entry_ok (history d) \<and> fsm_inv (mem_fsm d) \<and> leaderAdminAddr (mem_fsm d) = [] \<and>
     removed d \<le> mem_applied d \<and> mem_applied d \<le> length (history d) \<and>
     list_all (\<lambda>s. snap_content s = Unreadable \<or> intact s) (snapshots d)"

lemma some_entry: "entry_ok (marshal_cmd \<lparr>Op = ''SET'', Args = [''k'', ''v'']\<rparr>)"
  by (rule entry_ok_write) (simp add: IsWriteOp_def)

lemma grows:
  assumes "healthy d" "length (history d) \<le> n"
  shows "\<exists>es. (disk_step conf k ok)\<^sup>*\<^sup>* d (d\<lparr>history := es\<rparr>) \<and> length es = n \<and> healthy (d\<lparr>history := es\<rparr>)"
  using assms(2)
proof (induction n rule: dec_induct)
  case base
  then show ?case using assms(1) by (intro exI [of _ "history d"]) simp
next
  case (step n)
  then obtain es where es: "(disk_step conf k ok)\<^sup>*\<^sup>* d (d\<lparr>history := es\<rparr>)" "length es = n" "healthy (d\<lparr>history := es\<rparr>)" by blast
  let ?e = "marshal_cmd \<lparr>Op = ''SET'', Args = [''k'', ''v'']\<rparr>"
  have "disk_step conf k ok (d\<lparr>history := es\<rparr>) (d\<lparr>history := es @ [?e]\<rparr>)"
    using disk_step.appended [OF some_entry, of conf k ok "d\<lparr>history := es\<rparr>"] by simp
  then show ?case using es some_entry by (intro exI [of _ "es @ [?e]"]) (auto simp: healthy_def)
qed

lemma catches_up:
  assumes "healthy d" "mem_applied d \<le> m" "m \<le> length (history d)"
  shows "\<exists>f. (disk_step conf k ok)\<^sup>*\<^sup>* d (d\<lparr>mem_applied := m, mem_fsm := f\<rparr>) \<and> healthy (d\<lparr>mem_applied := m, mem_fsm := f\<rparr>)"
  using assms(2,3)
proof (induction m rule: dec_induct)
  case base
  then show ?case using assms(1) by (intro exI [of _ "mem_fsm d"]) simp
next
  case (step m)
  then obtain f where f: "(disk_step conf k ok)\<^sup>*\<^sup>* d (d\<lparr>mem_applied := m, mem_fsm := f\<rparr>)" "healthy (d\<lparr>mem_applied := m, mem_fsm := f\<rparr>)" by auto
  have e: "entry_ok (history d ! m)" using assms(1) step.prems by (auto simp: healthy_def list_all_length)
  obtain r g where g: "Apply None (history d ! m) f = Inr (r, g)" "leaderAdminAddr g = []"
    using Apply_entry_ok [OF e, of f None] f(2) by (auto simp: healthy_def)
  have "next_entry (d\<lparr>mem_applied := m, mem_fsm := f\<rparr>) = m" using assms(1) step.hyps by (simp add: healthy_def next_entry_def)
  then have "disk_step conf k ok (d\<lparr>mem_applied := m, mem_fsm := f\<rparr>) (d\<lparr>mem_applied := Suc m, mem_fsm := g\<rparr>)"
    using disk_step.entry_applied [of "d\<lparr>mem_applied := m, mem_fsm := f\<rparr>" None r g conf k ok] g(1) step.prems by simp
  moreover have "healthy (d\<lparr>mem_applied := Suc m, mem_fsm := g\<rparr>)"
    using f(2) g Apply_inv [OF _ g(1)] step.prems by (simp add: healthy_def)
  ultimately show ?case using f(1) by (intro exI [of _ g]) auto
qed

text \<open>Work until the log has \<open>n\<close> entries of which \<open>m\<close> are applied, then a snapshot that removes \<open>r\<close> entries.\<close>

lemma works_and_saves:
  assumes "healthy d" "mem_applied d < m" "m \<le> n" "length (history d) \<le> n"
    and "list_all (\<lambda>s. snap_index s < m) (snapshots d)"
    and "case snapshots d of [] \<Rightarrow> True | s # _ \<Rightarrow> n \<le> snap_index s + k"
    and "removed d \<le> r" "r \<le> max (removed d) (min m (n - unat (TrailingLogs conf)))"
  shows "\<exists>d' s. (disk_step conf k ok)\<^sup>*\<^sup>* d d' \<and> healthy d' \<and> mem_applied d' = m \<and> length (history d') = n \<and> removed d' = r
    \<and> snap_index s = m \<and> intact s \<and> snapshots d' = reap raftSnapshotRetention (s # snapshots d)"
proof -
  obtain es where es: "(disk_step conf k ok)\<^sup>*\<^sup>* d (d\<lparr>history := es\<rparr>)" "length es = n" "healthy (d\<lparr>history := es\<rparr>)"
    using grows [OF assms(1,4)] by blast
  obtain f where f: "(disk_step conf k ok)\<^sup>*\<^sup>* (d\<lparr>history := es\<rparr>) (d\<lparr>history := es, mem_applied := m, mem_fsm := f\<rparr>)"
      "healthy (d\<lparr>history := es, mem_applied := m, mem_fsm := f\<rparr>)"
    using catches_up [OF es(3), of m conf k ok] assms(2,3) es(2) by auto
  let ?d = "d\<lparr>history := es, mem_applied := m, mem_fsm := f\<rparr>"
  let ?s = "\<lparr>snap_name = ''1'', snap_index = m, snap_content = Intact (snapshot_text (Snapshot f))\<rparr>"
  let ?d' = "?d\<lparr>snapshots := reap raftSnapshotRetention (?s # snapshots d), removed := r\<rparr>"
  have "\<not> HasSuffix ''1'' raftIncompleteSnapshotSuffix" by (simp add: HasSuffix_def raftIncompleteSnapshotSuffix_def)
  moreover have "compaction conf ?d r" using assms(7,8) es(2) by (simp add: compaction_def)
  ultimately have "disk_step conf k ok ?d ?d'"
    using disk_step.snapshot_taken [of ?d k "''1''" conf r ok] assms(5,6) es(2) by (cases "snapshots d") simp_all
  moreover have i: "intact ?s" using f(2) by (auto simp: healthy_def intact_def)
  have "healthy ?d'"
    using f(2) assms(2,7,8) i reap_subset [of raftSnapshotRetention "?s # snapshots d"] by (auto simp: healthy_def list_all_iff simp del: reap.simps)
  ultimately show ?thesis using es(1,2) f(1) i by (intro exI [of _ ?d'] exI [of _ ?s]) (auto intro: rtranclp_trans)
qed

lemma intact_readable [simp]: "intact s \<Longrightarrow> snap_content s \<noteq> Unreadable"
  by (auto simp: intact_def)

text \<open>Two snapshots, a threshold apart, before anything was removed.\<close>

lemma two_saved:
  assumes "t = unat raftSnapshotThreshold" "t \<le> k"
  shows "\<exists>d s1 s2. (disk_step conf k ok)\<^sup>*\<^sup>* disk_start d \<and> healthy d \<and> mem_applied d = 2 * t \<and> length (history d) = 2 * t \<and> removed d = 0
    \<and> snapshots d = [s2, s1] \<and> snap_index s1 = t \<and> snap_index s2 = 2 * t \<and> intact s1 \<and> intact s2"
proof -
  have t: "0 < t" by (simp add: assms(1) raftSnapshotThreshold_def)
  have "healthy disk_start" by (simp add: healthy_def disk_start_def empty_fsm_def empty_db_def fsm_inv_def)
  then obtain d1 s1 where d1: "(disk_step conf k ok)\<^sup>*\<^sup>* disk_start d1" "healthy d1" "mem_applied d1 = t" "length (history d1) = t" "removed d1 = 0"
      "snap_index s1 = t" "intact s1" "snapshots d1 = [s1]"
    using works_and_saves [of disk_start t t k 0 conf ok] t by (auto simp: disk_start_def raftSnapshotRetention_def)
  then obtain d2 s2 where d2: "(disk_step conf k ok)\<^sup>*\<^sup>* d1 d2" "healthy d2" "mem_applied d2 = 2 * t" "length (history d2) = 2 * t" "removed d2 = 0"
      "snap_index s2 = 2 * t" "intact s2" "snapshots d2 = [s2, s1]"
    using works_and_saves [of d1 "2 * t" "2 * t" k 0 conf ok] t assms(2) by (auto simp: raftSnapshotRetention_def)
  from rtranclp_trans [OF d1(1) d2(1)] d1 d2 show ?thesis by blast
qed

lemma falls_back:
  assumes "snapshots d = ss @ [s]" "list_all (\<lambda>s. snap_content s = Damaged \<or> snap_content s = Unreadable) ss" "intact s"
  shows "\<exists>f. restart dir d = Inr (snap_index s, f)"
proof -
  have l: "List_snapshots d = filter (\<lambda>s. snap_content s \<noteq> Unreadable) ss @ [s]" using assms(1,3) by (simp add: List_snapshots_def)
  obtain f where f: "fsm_inv f" "snap_content s = Intact (snapshot_text (Snapshot f))" using assms(3) by (auto simp: intact_def)
  have "restore_newest (filter (\<lambda>s. snap_content s \<noteq> Unreadable) ss @ [s]) empty_fsm = Some (snap_index s, empty_fsm\<lparr>fsm_db := fsm_db f\<rparr>)"
    using assms(2) by (induction ss) (auto simp: f restore_image_snapshot)
  then show ?thesis by (simp add: restart_def rejectUnreadableFinalizedSnapshots_def l)
qed

text \<open>
  Why the metadata matters: a snapshot that cannot be listed is not counted when old ones are removed, so an older one
  stays although the log it needs is gone. Two snapshots with damaged contents after it, and a restart falls back to
  that one, with the snapshots exactly a threshold apart.
\<close>

lemma unreadable_metadata_gap:
  "\<exists>d i f. disk_runs (node_conf config base) (unat raftSnapshotThreshold) d \<and> restart dir d = Inr (i, f) \<and> i < removed d"
proof -
  define t where "t = unat raftSnapshotThreshold"
  let ?c = "node_conf config base"
  let ?step = "disk_step ?c t (\<lambda>_ _. True)" and ?lost = "\<lambda>c s. s\<lparr>snap_content := c\<rparr>"
  have t: "0 < t" "unat (TrailingLogs ?c) = t * 2" by (simp_all add: t_def node_conf_def trailing_value raftSnapshotRetention_def raftSnapshotThreshold_def)
  obtain d2 s1 s2 where d2: "?step\<^sup>*\<^sup>* disk_start d2" "healthy d2" "mem_applied d2 = 2 * t" "length (history d2) = 2 * t" "removed d2 = 0"
      "snapshots d2 = [s2, s1]" "snap_index s1 = t" "snap_index s2 = 2 * t" "intact s1" "intact s2"
    using two_saved [OF t_def order.refl, of ?c "\<lambda>_ _. True"] by blast
  let ?u = "?lost Unreadable s2"
  let ?d2 = "d2\<lparr>snapshots := [?u, s1]\<rparr>"
  have l2: "?step d2 ?d2" using disk_step.snapshot_lost [of 0 d2 Unreadable ?c t] d2 by simp
  have h2: "healthy ?d2" using d2 by (simp add: healthy_def)
  obtain d3 s3 where d3: "?step\<^sup>*\<^sup>* ?d2 d3" "healthy d3" "mem_applied d3 = 3 * t" "length (history d3) = 3 * t" "removed d3 = 0"
      "snap_index s3 = 3 * t" "intact s3" "snapshots d3 = [s3, ?u, s1]"
    using works_and_saves [OF h2, of "3 * t" "3 * t" t 0 ?c "\<lambda>_ _. True"] t d2 by (auto simp: raftSnapshotRetention_def)
  obtain d4 s4 where d4: "?step\<^sup>*\<^sup>* d3 d4" "removed d4 = 2 * t" "intact s4" "snapshots d4 = [s4, s3, ?u, s1]"
    using works_and_saves [OF d3(2), of "4 * t" "4 * t" t "2 * t" ?c "\<lambda>_ _. True"] t d2 d3 by (auto simp: raftSnapshotRetention_def)
  let ?d5 = "d4\<lparr>snapshots := [?lost Damaged s4, s3, ?u, s1]\<rparr>" and ?d6 = "d4\<lparr>snapshots := [?lost Damaged s4, ?lost Damaged s3, ?u, s1]\<rparr>"
  have "?step d4 ?d5" "?step ?d5 ?d6"
    using disk_step.snapshot_lost [of 0 d4 Damaged ?c t] disk_step.snapshot_lost [of 1 ?d5 Damaged ?c t] d3(7) d4(3,4) by simp_all
  then have "?step\<^sup>*\<^sup>* disk_start ?d6" using d2(1) l2 d3(1) d4(1) by (meson rtranclp_trans rtranclp.rtrancl_into_rtrancl)
  moreover obtain f where "restart dir ?d6 = Inr (snap_index s1, f)"
    using falls_back [of ?d6 "[?lost Damaged s4, ?lost Damaged s3, ?u]" s1 dir] d2(9) by auto
  ultimately show ?thesis using d2(7) d4(2) t(1) t_def by (intro exI [of _ ?d6]) auto
qed

section \<open>Properties\<close>






text \<open>
  C30. The trailing log is not one entry longer than needed: if a snapshot may be taken 8193 entries after the one
  before, there is a run after which a restart falls back to an intact snapshot whose next entry has been removed.
  The library takes snapshots when at least 8192 entries are new, so the distance is a lower bound, not an upper one.
\<close>

theorem fallback_may_miss_entries:
  "\<exists>d i f. disk_runs (node_conf config base) (unat raftSnapshotThreshold + 1) d \<and> restart dir d = Inr (i, f) \<and> i < removed d"
proof -
  define t where "t = unat raftSnapshotThreshold"
  let ?c = "node_conf config base" and ?k = "t + 1"
  let ?step = "disk_step ?c ?k (\<lambda>_ _. True)" and ?lost = "\<lambda>s. s\<lparr>snap_content := Damaged\<rparr>"
  have t: "0 < t" "unat (TrailingLogs ?c) = t * 2" by (simp_all add: t_def node_conf_def trailing_value raftSnapshotRetention_def raftSnapshotThreshold_def)
  obtain d2 s1 s2 where d2: "?step\<^sup>*\<^sup>* disk_start d2" "healthy d2" "mem_applied d2 = 2 * t" "length (history d2) = 2 * t" "removed d2 = 0"
      "snapshots d2 = [s2, s1]" "snap_index s1 = t" "snap_index s2 = 2 * t" "intact s1" "intact s2"
    using two_saved [OF t_def, of ?k ?c "\<lambda>_ _. True"] by auto
  then obtain d3 s3 where d3: "?step\<^sup>*\<^sup>* d2 d3" "removed d3 = t + 1" "intact s3" "snapshots d3 = [s3, s2, s1]"
    using works_and_saves [of d2 "3 * t" "3 * t + 1" ?k "t + 1" ?c "\<lambda>_ _. True"] t by (auto simp: raftSnapshotRetention_def)
  let ?d4 = "d3\<lparr>snapshots := [?lost s3, s2, s1]\<rparr>" and ?d5 = "d3\<lparr>snapshots := [?lost s3, ?lost s2, s1]\<rparr>"
  have "?step d3 ?d4" "?step ?d4 ?d5"
    using disk_step.snapshot_lost [of 0 d3 Damaged ?c ?k] disk_step.snapshot_lost [of 1 ?d4 Damaged ?c ?k] d2(10) d3(3,4) by simp_all
  then have "?step\<^sup>*\<^sup>* disk_start ?d5" using d2(1) d3(1) by (meson rtranclp_trans rtranclp.rtrancl_into_rtrancl)
  moreover obtain f where "restart dir ?d5 = Inr (snap_index s1, f)"
    using falls_back [of ?d5 "[?lost s3, ?lost s2]" s1 dir] d2(9) by auto
  ultimately show ?thesis using d2(7) d3(2) t_def by (intro exI [of _ ?d5]) auto
qed

end
