(* ===== verification/Announce.thy ===== *)
theory Announce
  imports Replication
begin

text \<open>
  The two goroutines of \<^verbatim>\<open>observeClusterLeaderChange\<close> (\<^verbatim>\<open>src/core/raft.go\<close>) with the channels between them: the
  Raft library delivers leader observations into \<^verbatim>\<open>obsCh\<close> without blocking, so an observation that finds the
  channel full is dropped; the first goroutine forwards those that name this node through \<^verbatim>\<open>workCh\<close>, waiting
  when it is full; the second one submits the announcements. Both watch the context, but not while they send or submit.

  Lemmas: whatever the schedule, the submissions are those of the function \<open>announcements\<close> on the observations
  delivered so far; what is left running when the context has ended.
\<close>

section \<open>State and steps\<close>

definition chan_capacity :: nat where
  "chan_capacity = 64"

datatype forwarder_pc = Forwarding | Sending bytes | ForwarderDone
datatype announcer_pc = Receiving | Submitting bytes | AnnouncerDone

record observer =
  obsCh :: "bytes list"
  workCh :: "bytes list"
  forwarder :: forwarder_pc
  announcer :: announcer_pc
  lastLeader :: bytes
  cancelled :: bool
  registered :: bool
  delivered :: "bytes list" \<comment> \<open>the leaders of all observations that were not dropped\<close>
  submitted :: "bytes list" \<comment> \<open>the leaders of the submitted announcements\<close>

definition observeClusterLeaderChange :: observer where
  "observeClusterLeaderChange =
     \<lparr>obsCh = [], workCh = [], forwarder = Forwarding, announcer = Receiving, lastLeader = [], cancelled = False,
      registered = True, delivered = [], submitted = []\<rparr>"

text \<open>The steps of the two goroutines.\<close>

inductive goroutine_step :: "bytes \<Rightarrow> observer \<Rightarrow> observer \<Rightarrow> bool" for localID where
  take_event: "forwarder s = Forwarding \<Longrightarrow> obsCh s = leader # rest \<Longrightarrow>
    goroutine_step localID s
      (s\<lparr>obsCh := rest, forwarder := (if leader = localID then Sending leader else Forwarding)\<rparr>)"
| send: "forwarder s = Sending leader \<Longrightarrow> length (workCh s) < chan_capacity \<Longrightarrow>
    goroutine_step localID s (s\<lparr>workCh := workCh s @ [leader], forwarder := Forwarding\<rparr>)"
| forwarder_returns: "forwarder s = Forwarding \<Longrightarrow> cancelled s \<Longrightarrow>
    goroutine_step localID s (s\<lparr>forwarder := ForwarderDone, registered := False\<rparr>)"
| receive: "announcer s = Receiving \<Longrightarrow> workCh s = leader # rest \<Longrightarrow>
    goroutine_step localID s
      (if leader = lastLeader s then s\<lparr>workCh := rest\<rparr>
       else s\<lparr>workCh := rest, lastLeader := leader, announcer := Submitting leader\<rparr>)"
| submit: "announcer s = Submitting leader \<Longrightarrow>
    goroutine_step localID s (s\<lparr>announcer := Receiving, submitted := submitted s @ [leader]\<rparr>)"
| announcer_returns: "announcer s = Receiving \<Longrightarrow> cancelled s \<Longrightarrow>
    goroutine_step localID s (s\<lparr>announcer := AnnouncerDone\<rparr>)"

text \<open>The Raft library observes a leader; the context is cancelled.\<close>

inductive observer_step :: "bytes \<Rightarrow> observer \<Rightarrow> observer \<Rightarrow> bool" for localID where
  observed: "registered s \<Longrightarrow>
    observer_step localID s
      (if length (obsCh s) < chan_capacity then s\<lparr>obsCh := obsCh s @ [leader], delivered := delivered s @ [leader]\<rparr> else s)"
| cancel: "observer_step localID s (s\<lparr>cancelled := True\<rparr>)"
| goroutine: "goroutine_step localID s s' \<Longrightarrow> observer_step localID s s'"

abbreviation observer_runs :: "bytes \<Rightarrow> observer \<Rightarrow> bool" where
  "observer_runs localID \<equiv> (observer_step localID)\<^sup>*\<^sup>* observeClusterLeaderChange"

inductive_cases goroutine_stepE: "goroutine_step localID s s'"
inductive_cases observer_stepE: "observer_step localID s s'"

section \<open>Invariant\<close>

text \<open>What is on its way: the leader being sent and the leader being submitted.\<close>

definition in_hand :: "observer \<Rightarrow> bytes list" where
  "in_hand s = (case forwarder s of Sending leader \<Rightarrow> [leader] | _ \<Rightarrow> [])"

definition at_submit :: "observer \<Rightarrow> bytes list" where
  "at_submit s = (case announcer s of Submitting leader \<Rightarrow> [leader] | _ \<Rightarrow> [])"

lemma drop_repeats_append: "drop_repeats l (xs @ ys) = drop_repeats l xs @ drop_repeats (last (l # drop_repeats l xs)) ys"
  by (induction xs arbitrary: l) auto

text \<open>
  The observations that have reached the announcer account for its submissions and its memory; together with
  those in the two channels and in the forwarder's hand they are the delivered ones.
\<close>

definition observer_inv :: "bytes \<Rightarrow> observer \<Rightarrow> bool" where
  "observer_inv localID s \<longleftrightarrow> (\<exists>handled.
     forward_own localID (delivered s) = handled @ workCh s @ in_hand s @ forward_own localID (obsCh s) \<and>
     drop_repeats [] handled = submitted s @ at_submit s \<and> lastLeader s = last ([] # submitted s @ at_submit s)) \<and>
     length (workCh s) \<le> chan_capacity \<and> (forwarder s = ForwarderDone \<longrightarrow> \<not> registered s)"

lemma forward_own_append: "forward_own x (a @ b) = forward_own x a @ forward_own x b"
  by (simp add: forward_own_def)

lemma observer_inv_start: "observer_inv localID observeClusterLeaderChange"
  by (simp add: observer_inv_def observeClusterLeaderChange_def forward_own_def in_hand_def at_submit_def chan_capacity_def)

lemma observer_inv_step:
  assumes "observer_step localID s s'" "observer_inv localID s"
  shows "observer_inv localID s'"
proof -
  from assms(2) obtain handled where h:
      "forward_own localID (delivered s) = handled @ workCh s @ in_hand s @ forward_own localID (obsCh s)"
      "drop_repeats [] handled = submitted s @ at_submit s" "lastLeader s = last ([] # submitted s @ at_submit s)"
      "length (workCh s) \<le> chan_capacity" "forwarder s = ForwarderDone \<longrightarrow> \<not> registered s"
    by (auto simp: observer_inv_def)
  from assms(1) show ?thesis
  proof cases
    case (observed leader)
    then show ?thesis using h by (auto simp: observer_inv_def in_hand_def at_submit_def forward_own_append)
  next
    case cancel
    then show ?thesis using assms(2) by (simp add: observer_inv_def in_hand_def at_submit_def)
  next
    case goroutine
    then show ?thesis
    proof cases
      case (take_event leader rest)
      then show ?thesis using h by (auto simp: observer_inv_def in_hand_def at_submit_def forward_own_def)
    next
      case (send leader)
      then show ?thesis using h by (auto simp: observer_inv_def in_hand_def at_submit_def)
    next
      case forwarder_returns
      then show ?thesis using h by (auto simp: observer_inv_def in_hand_def at_submit_def)
    next
      case (receive leader rest)
      have "drop_repeats [] (handled @ [leader]) = submitted s @ at_submit s @ (if leader = lastLeader s then [] else [leader])"
        using h(2,3) by (simp add: drop_repeats_append)
      moreover have "forward_own localID (delivered s) = (handled @ [leader]) @ rest @ in_hand s @ forward_own localID (obsCh s)"
        using h(1) receive(3) by simp
      ultimately show ?thesis
        using h(3-5) receive unfolding observer_inv_def
        by (intro conjI exI [of _ "handled @ [leader]"]) (auto simp: in_hand_def at_submit_def)
    next
      case (submit leader)
      then show ?thesis using h by (auto simp: observer_inv_def in_hand_def at_submit_def)
    next
      case announcer_returns
      then show ?thesis using h by (auto simp: observer_inv_def in_hand_def at_submit_def)
    qed
  qed
qed

lemma observer_runs_inv: "observer_runs localID s \<Longrightarrow> observer_inv localID s"
  by (induction rule: rtranclp_induct) (auto intro: observer_inv_start observer_inv_step)

lemma prefix_drop_repeats: "prefix xs ys \<Longrightarrow> prefix (drop_repeats l xs) (drop_repeats l ys)"
  by (auto simp: prefix_def drop_repeats_append)

section \<open>Properties\<close>

text \<open>
  C24. The announcer goroutines: however the library, the two goroutines and the cancellation interleave, the submitted
  announcements are the first ones of those that the observations call for, and so at most one; and when the goroutines
  cannot go on after the context was cancelled, both have returned, unless the first one waits
  forever to send into a full channel that the second one has stopped to read.
\<close>

theorem announcers_follow_and_end:
  assumes "observer_runs localID s"
  shows "prefix (submitted s) (announcements localID (delivered s)) \<and> length (submitted s) \<le> 1
    \<and> (cancelled s \<and> (\<nexists>s'. goroutine_step localID s s') \<longrightarrow>
        announcer s = AnnouncerDone \<and>
        (forwarder s = ForwarderDone \<or> (\<exists>leader. forwarder s = Sending leader) \<and> length (workCh s) = chan_capacity))"
proof -
  have inv: "observer_inv localID s" by (rule observer_runs_inv [OF assms])
  then obtain handled where h: "prefix handled (forward_own localID (delivered s))" "drop_repeats [] handled = submitted s @ at_submit s"
    unfolding observer_inv_def by (metis prefixI)
  have "prefix (submitted s @ at_submit s) (announcements localID (delivered s))"
    unfolding announcements_def h(2) [symmetric] by (rule prefix_drop_repeats [OF h(1)])
  then have p: "prefix (submitted s) (announcements localID (delivered s))" by (rule append_prefixD)
  then have "length (submitted s) \<le> 1" using prefix_length_le [OF p] announced_at_most_once [of localID "delivered s"] by (auto split: if_splits)
  moreover have "announcer s = AnnouncerDone" if "cancelled s" "\<nexists>s'. goroutine_step localID s s'"
    using that goroutine_step.announcer_returns [of s] goroutine_step.submit [of s] by (cases "announcer s") auto
  moreover have "forwarder s = ForwarderDone \<or> (\<exists>leader. forwarder s = Sending leader) \<and> length (workCh s) = chan_capacity"
    if "cancelled s" "\<nexists>s'. goroutine_step localID s s'"
  proof (cases "forwarder s")
    case (Sending leader)
    have "length (workCh s) \<le> chan_capacity" using inv by (simp add: observer_inv_def)
    with Sending that(2) goroutine_step.send [of s leader localID] show ?thesis by (auto simp: le_less)
  qed (use that goroutine_step.forwarder_returns [of s] in auto)
  ultimately show ?thesis using p by blast
qed


lemma own_event_received:
  "(observer_step x)\<^sup>*\<^sup>* observeClusterLeaderChange
     (observeClusterLeaderChange\<lparr>announcer := Submitting x, lastLeader := x, delivered := [x]\<rparr>)" if "x \<noteq> []"
proof -
  let ?s = observeClusterLeaderChange
  let ?s1 = "?s\<lparr>obsCh := [x], delivered := [x]\<rparr>" and ?s2 = "?s\<lparr>delivered := [x], forwarder := Sending x\<rparr>"
  let ?s3 = "?s\<lparr>delivered := [x], workCh := [x]\<rparr>" and ?s4 = "?s\<lparr>announcer := Submitting x, lastLeader := x, delivered := [x]\<rparr>"
  have "observer_step x ?s ?s1" using observer_step.observed [of ?s x x] by (simp add: observeClusterLeaderChange_def chan_capacity_def)
  moreover have "goroutine_step x ?s1 ?s2" using goroutine_step.take_event [of ?s1 x "[]" x] by (simp add: observeClusterLeaderChange_def)
  moreover have "goroutine_step x ?s2 ?s3" using goroutine_step.send [of ?s2 x x] by (simp add: observeClusterLeaderChange_def chan_capacity_def)
  moreover have "goroutine_step x ?s3 ?s4" using goroutine_step.receive [of ?s3 x "[]" x] that by (simp add: observeClusterLeaderChange_def)
  ultimately show ?thesis by (meson observer_step.goroutine r_into_rtranclp rtranclp.rtrancl_into_rtrancl)
qed

theorem announcers_follow_and_end_witness:
  "prefix [''n1''] (announcements ''n1'' [''n1''])"
proof -
  let ?s = "observeClusterLeaderChange\<lparr>announcer := Submitting ''n1'', lastLeader := ''n1'', delivered := [''n1'']\<rparr>"
  let ?t = "?s\<lparr>announcer := Receiving, submitted := [''n1'']\<rparr>"
  have "goroutine_step ''n1'' ?s ?t" using goroutine_step.submit [of ?s "''n1''" "''n1''"] by (simp add: observeClusterLeaderChange_def)
  then have "observer_runs ''n1'' ?t"
    by (rule rtranclp.rtrancl_into_rtrancl [OF own_event_received observer_step.goroutine, rotated]) simp
  from announcers_follow_and_end [OF this] show ?thesis by simp
qed

text \<open>
  The exception can happen: 65 observations of the node's own leadership while the first announcement is being submitted
  fill the channel and the forwarder's hand; when the context is cancelled then, the announcer returns and the
  forwarder never does, whatever happens later.
\<close>

lemma own_events_pile_up:
  assumes "announcer s = Submitting y" "forwarder s = Forwarding" "obsCh s = []" "workCh s = []" "registered s" "n \<le> chan_capacity"
  shows "\<exists>ds. (observer_step x)\<^sup>*\<^sup>* s (s\<lparr>workCh := replicate n x, delivered := ds\<rparr>)"
  using assms(6)
proof (induction n)
  case 0
  have "s\<lparr>workCh := [], delivered := delivered s\<rparr> = s" using assms(4) by (cases s) simp
  then show ?case by (intro exI [of _ "delivered s"]) simp
next
  case (Suc n)
  then obtain ds where ds: "(observer_step x)\<^sup>*\<^sup>* s (s\<lparr>workCh := replicate n x, delivered := ds\<rparr>)" by auto
  let ?a = "s\<lparr>workCh := replicate n x, delivered := ds\<rparr>"
  let ?b = "?a\<lparr>obsCh := [x], delivered := ds @ [x]\<rparr>" and ?c = "?a\<lparr>delivered := ds @ [x], forwarder := Sending x\<rparr>"
  let ?d = "s\<lparr>workCh := replicate n x @ [x], delivered := ds @ [x]\<rparr>"
  have "observer_step x ?a ?b" using observer_step.observed [of ?a x x] assms(3,5) by (simp add: chan_capacity_def)
  moreover have "goroutine_step x ?b ?c" using goroutine_step.take_event [of ?b x "[]" x] assms(2,3) by (cases s) simp
  moreover have "goroutine_step x ?c ?d" using goroutine_step.send [of ?c x x] Suc.prems assms(2) by (cases s) simp
  ultimately have "(observer_step x)\<^sup>*\<^sup>* s ?d" using ds by (meson observer_step.goroutine rtranclp.rtrancl_into_rtrancl)
  then show ?case by (intro exI [of _ "ds @ [x]"]) (simp add: replicate_append_same)
qed

lemma blocked_forever:
  assumes "(observer_step x)\<^sup>*\<^sup>* s s'" "announcer s = AnnouncerDone" "forwarder s = Sending l" "length (workCh s) = chan_capacity"
  shows "announcer s' = AnnouncerDone \<and> forwarder s' = Sending l \<and> length (workCh s') = chan_capacity"
  using assms(1)
proof (induction rule: rtranclp_induct)
  case base
  then show ?case using assms(2-4) by simp
next
  case (step s' s'')
  from step.hyps(2) show ?case using step.IH by cases (auto elim!: goroutine_stepE)
qed

lemma forwarder_can_leak:
  assumes "x \<noteq> []"
  shows "\<exists>s. observer_runs x s \<and> (\<forall>s'. (observer_step x)\<^sup>*\<^sup>* s s' \<longrightarrow> forwarder s' = Sending x)"
proof -
  let ?s = "observeClusterLeaderChange\<lparr>announcer := Submitting x, lastLeader := x, delivered := [x]\<rparr>"
  obtain ds where ds: "(observer_step x)\<^sup>*\<^sup>* ?s (?s\<lparr>workCh := replicate chan_capacity x, delivered := ds\<rparr>)"
    using own_events_pile_up [of ?s x chan_capacity x] by (auto simp: observeClusterLeaderChange_def)
  let ?a = "?s\<lparr>workCh := replicate chan_capacity x, delivered := ds\<rparr>"
  let ?b = "?a\<lparr>obsCh := [x], delivered := ds @ [x]\<rparr>" and ?c = "?a\<lparr>delivered := ds @ [x], forwarder := Sending x\<rparr>"
  let ?d = "?c\<lparr>cancelled := True\<rparr>" and ?e = "?c\<lparr>cancelled := True, announcer := Receiving, submitted := [x]\<rparr>"
  let ?f = "?c\<lparr>cancelled := True, announcer := AnnouncerDone, submitted := [x]\<rparr>"
  have "observer_step x ?a ?b" using observer_step.observed [of ?a x x] by (simp add: chan_capacity_def observeClusterLeaderChange_def)
  moreover have "goroutine_step x ?b ?c" using goroutine_step.take_event [of ?b x "[]" x] by (simp add: observeClusterLeaderChange_def)
  moreover have "observer_step x ?c ?d" by (rule observer_step.cancel)
  moreover have "goroutine_step x ?d ?e" using goroutine_step.submit [of ?d x x] by (simp add: observeClusterLeaderChange_def)
  moreover have "goroutine_step x ?e ?f" using goroutine_step.announcer_returns [of ?e x] by (simp add: observeClusterLeaderChange_def)
  ultimately have "(observer_step x)\<^sup>*\<^sup>* ?s ?f" using ds by (meson observer_step.goroutine rtranclp.rtrancl_into_rtrancl)
  then have "observer_runs x ?f" by (rule rtranclp_trans [OF own_event_received [OF assms]])
  moreover have "forwarder s' = Sending x" if "(observer_step x)\<^sup>*\<^sup>* ?f s'" for s' using blocked_forever [OF that, of x] by simp
  ultimately show ?thesis by blast
qed

end
