(* ===== verification/Joining.thy ===== *)
theory Joining
  imports AdminServer
begin

text \<open>
  A whole join, client and leader together: the joining node's loop in \<^verbatim>\<open>joinCluster\<close> (\<^verbatim>\<open>src/core/raft.go\<close>) sends its
  requests to the handler of \<^verbatim>\<open>src/server/raft_server.go\<close> on the leader, whose state goes on from request to
  request. Between two requests the leader's Raft instance progresses by itself.

  Lemmas: what the client makes of the leader's answer in each of the three situations of a new member; by
  induction over the requests, that the member stays registered with its frozen target until it is promoted.
\<close>

section \<open>The conversation\<close>

record 'r conversation =
  raft_calls :: "'r member_lib"
  admin_addr :: bytes
  clocks :: "nat \<Rightarrow> nat \<Rightarrow> int"
  reported :: "nat \<Rightarrow> uint64"
  evolve :: "nat \<Rightarrow> 'r \<Rightarrow> 'r" \<comment> \<open>what Raft does between requests \<open>n\<close> and \<open>n + 1\<close>\<close>
  leader0 :: "'r RaftNode"

definition join_request :: "Config \<Rightarrow> uint64 \<Rightarrow> JoinClusterRequest" where
  "join_request config aidx = \<lparr>NodeId = GetRaftId config, ReqAddr = GetRaftAdvertiseAddr config, ReqAppliedIndex = aidx\<rparr>"

text \<open>The leader when request \<open>n\<close> arrives.\<close>

primrec leader_at :: "'r conversation \<Rightarrow> Config \<Rightarrow> nat \<Rightarrow> 'r RaftNode" where
  "leader_at cv config 0 = leader0 cv"
| "leader_at cv config (Suc n) =
     (let nd = the (snd (JoinClusterRPC (raft_calls cv) (admin_addr cv) (clocks cv n) (join_request config (reported cv n))
                           (Some (leader_at cv config n))))
      in nd\<lparr>raft := evolve cv n (raft nd)\<rparr>)"

definition leader_rpc :: "'r conversation \<Rightarrow> Config \<Rightarrow> nat \<Rightarrow> bytes \<Rightarrow> JoinClusterRequest \<Rightarrow> rpc_status + JoinClusterResponse" where
  "leader_rpc cv config n adr req =
     fst (JoinClusterRPC (raft_calls cv) (admin_addr cv) (clocks cv n) req (Some (leader_at cv config n)))"

text \<open>
  The leader keeps leading and accepts membership changes; Raft's own progress leaves the configuration alone.
\<close>

definition stable_leader :: "'r conversation \<Rightarrow> bool" where
  "stable_leader cv \<longleftrightarrow> member_contract (raft_calls cv) \<and> (\<forall>r. raftState (raft_calls cv) r = Leader) \<and>
     (\<forall>i a prev r. \<not> isl (fst (AddNonvoter (raft_calls cv) i a prev r)) \<and> \<not> isl (fst (AddVoter (raft_calls cv) i a prev r))) \<and>
     (\<forall>n r. config_of (raft_calls cv) (evolve cv n r) = config_of (raft_calls cv) r)"

section \<open>One request\<close>

lemma check_members_fields:
  assumes "map (\<lambda>m. (NodeID m, Addr m, Role m)) ms = map (\<lambda>s. (ID s, Address s, roleFromSuffrage (Suffrage s))) servers"
    and "distinct (map ID servers)" "s \<in> set servers"
  shows "check_members (ID s) (map toProtoMember ms) = (if Suffrage s = Voter then None else Some errJoinPromotionPending)"
  using assms
proof (induction ms arbitrary: servers)
  case (Cons m ms)
  then obtain x xs where x: "servers = x # xs" "NodeID m = ID x" "Role m = roleFromSuffrage (Suffrage x)"
      "map (\<lambda>m. (NodeID m, Addr m, Role m)) ms = map (\<lambda>s. (ID s, Address s, roleFromSuffrage (Suffrage s))) xs"
    by (cases servers) auto
  have v: "roleFromSuffrage u = ClusterRoleVoter \<longleftrightarrow> u = Voter" for u by (cases u) (simp_all add: roleFromSuffrage_def)
  show ?case
  proof (cases "x = s")
    case True
    then show ?thesis using x(2,3) v by (simp add: toProtoMember_def)
  next
    case False
    then have s: "s \<in> set xs" "ID x \<noteq> ID s" using Cons.prems(2,3) x(1) by auto
    then show ?thesis using Cons.IH [OF x(4) _ s(1)] Cons.prems(2) x(1,2) by (simp add: toProtoMember_def)
  qed
qed simp

text \<open>The leader's answer is decided by the configuration it leaves behind.\<close>

lemma RPC_answer:
  assumes "raftState lib (raft nd) = Leader" "TrimSpace (NodeId req) = i" "TrimSpace (ReqAddr req) = a" "i \<noteq> []" "a \<noteq> []"
    and "join_member lib la clock i a (ReqAppliedIndex req) nd = buildClusterInfoForNode lib la clock' nd'"
    and "config_of lib (raft nd') = Some servers"
  shows "\<exists>info. JoinClusterRPC lib la clock req (Some nd) =
      (Inr \<lparr>Code = SUCCESS, Cluster = Some (toProtoCluster (Some info))\<rparr>, Some (snd (buildClusterInfoForNode lib la clock' nd')))
    \<and> map (\<lambda>m. (NodeID m, Addr m, Role m)) (Members info) = map (\<lambda>s. (ID s, Address s, roleFromSuffrage (Suffrage s))) servers"
proof -
  obtain info where info: "fst (buildClusterInfoForNode lib la clock' nd') = Inr info"
      "map (\<lambda>m. (NodeID m, Addr m, Role m)) (Members info) = map (\<lambda>s. (ID s, Address s, roleFromSuffrage (Suffrage s))) servers"
    using build_members [OF assms(7)] by blast
  have "JoinClusterWithProgress lib la clock i a (ReqAppliedIndex req) (Some nd) =
      (Inr info, Some (snd (buildClusterInfoForNode lib la clock' nd')))"
    using Join_leader [OF assms(1) _ _ assms(4,5), of i a] assms(2,3,6) info(1) by (auto simp: prod_eq_iff)
  then show ?thesis using assms(2-5) info(2) by (intro exI [of _ info]) (simp add: JoinClusterRPC_def)
qed

lemma client_reads_answer:
  assumes "rpc (JoinAddr config) (join_request config aidx) = Inr \<lparr>Code = SUCCESS, Cluster = Some (toProtoCluster (Some info))\<rparr>"
    and "map (\<lambda>m. (NodeID m, Addr m, Role m)) (Members info) = map (\<lambda>s. (ID s, Address s, roleFromSuffrage (Suffrage s))) servers"
    and "distinct (map ID servers)" "s \<in> set servers" "ID s = GetRaftId config" "dial (JoinAddr config)"
  shows "sendRequest dial rpc aidx config = (if Suffrage s = Voter then None else Some errJoinPromotionPending)"
  using assms check_members_fields [OF assms(2-4)]
  by (simp add: sendRequest_def check_response_def join_request_def toProtoCluster_def)

section \<open>The first request, the waiting, the promotion\<close>

text \<open>The leader after a request that ended in a report of the cluster.\<close>

lemma leader_after:
  assumes "JoinClusterRPC (raft_calls cv) (admin_addr cv) (clocks cv n) (join_request config (reported cv n)) (Some (leader_at cv config n)) =
      (res, Some nd)"
  shows "leader_at cv config (Suc n) = nd\<lparr>raft := evolve cv n (raft nd)\<rparr>"
  using assms by simp

definition waiting_member :: "'r conversation \<Rightarrow> Config \<Rightarrow> Server list \<Rightarrow> uint64 \<Rightarrow> nat \<Rightarrow> bool" where
  "waiting_member cv config servers target n \<longleftrightarrow>
     config_of (raft_calls cv) (raft (leader_at cv config n)) =
       Some (servers @ [new_nonvoter (GetRaftId config) (GetRaftAdvertiseAddr config)]) \<and>
     (\<exists>pr. progress_of (leader_at cv config n) (GetRaftId config) = Some pr \<and> targetIndex pr = target)"

lemma report_keeps_entry:
  assumes "progress_of nd i = Some pr"
  shows "\<exists>pr'. progress_of ((snd (buildClusterInfoForNode lib la clock nd))\<lparr>raft := r\<rparr>) i = Some pr' \<and> targetIndex pr' = targetIndex pr"
  using build_kept [of lib la clock nd] assms unfolding kept_where_def by fastforce

text \<open>The situation of the theorem: a new identity and a new address ask a leader that keeps leading.\<close>

definition fresh_join :: "'r conversation \<Rightarrow> Config \<Rightarrow> Server list \<Rightarrow> bool" where
  "fresh_join cv config servers \<longleftrightarrow> stable_leader cv \<and>
     config_of (raft_calls cv) (raft (leader0 cv)) = Some servers \<and> unique_members servers \<and>
     GetRaftId config \<notin> ID ` set servers \<and> GetRaftAdvertiseAddr config \<notin> Address ` set servers \<and>
     GetRaftId config \<noteq> [] \<and> GetRaftAdvertiseAddr config \<noteq> []"

lemma trimmed_identity [simp]:
  "TrimSpace (GetRaftId config) = GetRaftId config" "TrimSpace (GetRaftAdvertiseAddr config) = GetRaftAdvertiseAddr config"
  by (simp_all add: GetRaftId_def GetRaftAdvertiseAddr_def Let_def)

abbreviation joined_as :: "ServerSuffrage \<Rightarrow> Config \<Rightarrow> Server" where
  "joined_as u config \<equiv> \<lparr>Suffrage = u, ID = GetRaftId config, Address = GetRaftAdvertiseAddr config\<rparr>"

lemma fresh_unique:
  "fresh_join cv config servers \<Longrightarrow> unique_members (servers @ [joined_as u config])"
  by (auto simp: fresh_join_def unique_members_def)

lemma request_outcome:
  assumes "fresh_join cv config servers" "dial (JoinAddr config)"
    and "join_member (raft_calls cv) (admin_addr cv) (clocks cv n) (GetRaftId config) (GetRaftAdvertiseAddr config) (reported cv n)
          (leader_at cv config n) = buildClusterInfoForNode (raft_calls cv) (admin_addr cv) clock nd"
    and "config_of (raft_calls cv) (raft nd) = Some (servers @ [joined_as u config])"
  shows "sendRequest dial (leader_rpc cv config n) (reported cv n) config = (if u = Voter then None else Some errJoinPromotionPending)"
    and "leader_at cv config (Suc n) =
      (snd (buildClusterInfoForNode (raft_calls cv) (admin_addr cv) clock nd))\<lparr>raft := evolve cv n (raft nd)\<rparr>"
    and "config_of (raft_calls cv) (raft (leader_at cv config (Suc n))) = Some (servers @ [joined_as u config])"
proof -
  have facts: "GetRaftId config \<noteq> []" "GetRaftAdvertiseAddr config \<noteq> []" "raftState (raft_calls cv) (raft (leader_at cv config n)) = Leader"
    and st: "stable_leader cv" using assms(1) by (simp_all add: fresh_join_def stable_leader_def)
  obtain info where info: "JoinClusterRPC (raft_calls cv) (admin_addr cv) (clocks cv n) (join_request config (reported cv n))
        (Some (leader_at cv config n)) = (Inr \<lparr>Code = SUCCESS, Cluster = Some (toProtoCluster (Some info))\<rparr>,
        Some (snd (buildClusterInfoForNode (raft_calls cv) (admin_addr cv) clock nd)))"
      "map (\<lambda>m. (NodeID m, Addr m, Role m)) (Members info) =
        map (\<lambda>s. (ID s, Address s, roleFromSuffrage (Suffrage s))) (servers @ [joined_as u config])"
    using RPC_answer [OF facts(3) _ _ facts(1,2) _ assms(4), of "join_request config (reported cv n)" "admin_addr cv" "clocks cv n" clock]
      assms(3) by (fastforce simp: join_request_def)
  show "sendRequest dial (leader_rpc cv config n) (reported cv n) config = (if u = Voter then None else Some errJoinPromotionPending)"
    using client_reads_answer [OF _ info(2), of "leader_rpc cv config n" config "reported cv n" "joined_as u config" dial]
      info(1) fresh_unique [OF assms(1), of u] assms(2) by (simp add: leader_rpc_def unique_members_def)
  show l: "leader_at cv config (Suc n) =
      (snd (buildClusterInfoForNode (raft_calls cv) (admin_addr cv) clock nd))\<lparr>raft := evolve cv n (raft nd)\<rparr>"
    using leader_after [OF info(1)] by simp
  show "config_of (raft_calls cv) (raft (leader_at cv config (Suc n))) = Some (servers @ [joined_as u config])"
    using l st assms(4) by (simp add: stable_leader_def)
qed


text \<open>Request 0 registers the node without a vote and freezes its target.\<close>

lemma first_request:
  assumes "fresh_join cv config servers" "dial (JoinAddr config)"
  shows "sendRequest dial (leader_rpc cv config 0) (reported cv 0) config = Some errJoinPromotionPending"
    and "\<exists>target. waiting_member cv config servers target 1"
proof -
  let ?lib = "raft_calls cv" and ?i = "GetRaftId config" and ?a = "GetRaftAdvertiseAddr config"
  have f: "member_contract ?lib" "config_of ?lib (raft (leader0 cv)) = Some servers" "?i \<notin> ID ` set servers" "?a \<notin> Address ` set servers"
    "\<And>prev r. \<not> isl (fst (AddNonvoter ?lib ?i ?a prev r))"
    using assms(1) by (auto simp: fresh_join_def stable_leader_def)
  have "List.find (\<lambda>s. ID s = ?i \<or> Address s = ?a) servers = None" using f(3,4)
    by (induction servers) auto
  then obtain idx where v: "validateJoiningMember ?lib (leader0 cv) ?i ?a = Inr (None, idx)"
    using f(2) by (auto simp: validateJoiningMember_def config_of_def split: sum.splits)
  obtain k r where an: "AddNonvoter ?lib ?i ?a idx (raft (leader0 cv)) = (Inr k, r)"
    using f(5) [of idx "raft (leader0 cv)"]
    by (cases "AddNonvoter ?lib ?i ?a idx (raft (leader0 cv))"; cases "fst (AddNonvoter ?lib ?i ?a idx (raft (leader0 cv)))") auto
  have conf: "config_of ?lib r = Some (servers @ [joined_as Nonvoter config])"
    using contract_AddNonvoter [OF f(1,2,3) an] by (simp add: new_nonvoter_def)
  let ?rec = "recordJoinProgress ?lib ?i (max k (lastApplied ?lib r)) (reported cv 0) (clocks cv 0 0) ((leader0 cv)\<lparr>raft := r\<rparr>)"
  have j: "join_member ?lib (admin_addr cv) (clocks cv 0) ?i ?a (reported cv 0) (leader_at cv config 0) =
      buildClusterInfoForNode ?lib (admin_addr cv) (\<lambda>k. clocks cv 0 (Suc k)) (snd ?rec)"
    using v an by (cases ?rec) (simp add: join_member_def Let_def)
  have c: "config_of ?lib (raft (snd ?rec)) = Some (servers @ [joined_as Nonvoter config])" using conf by simp
  note out = request_outcome [where dial = dial, OF assms j c]
  show "sendRequest dial (leader_rpc cv config 0) (reported cv 0) config = Some errJoinPromotionPending" using out(1) by simp
  obtain pr where "progress_of (leader_at cv config (Suc 0)) ?i = Some pr"
    using report_keeps_entry [OF record_result] unfolding out(2) by metis
  then show "\<exists>target. waiting_member cv config servers target 1"
    using out(3) by (auto simp: waiting_member_def new_nonvoter_def simp del: leader_at.simps)
qed


text \<open>A later request finds the node registered; what happens is decided by the frozen target.\<close>

lemma waiting_found:
  assumes "fresh_join cv config servers" "waiting_member cv config servers target n"
  shows "\<exists>idx. validateJoiningMember (raft_calls cv) (leader_at cv config n) (GetRaftId config) (GetRaftAdvertiseAddr config) =
      Inr (Some (joined_as Nonvoter config), idx)"
    and "targetIndex (fst (recordJoinProgress (raft_calls cv) (GetRaftId config) 0 aidx now (leader_at cv config n))) = target"
  using validate_member [of "raft_calls cv" "leader_at cv config n" _ "joined_as Nonvoter config"] fresh_unique [OF assms(1), of Nonvoter]
    assms(2) record_target [of "raft_calls cv" "GetRaftId config" aidx now "leader_at cv config n"]
  by (auto simp: waiting_member_def new_nonvoter_def target_for_def)

lemma waiting_request:
  assumes "fresh_join cv config servers" "dial (JoinAddr config)" "waiting_member cv config servers target n" "reported cv n < target"
  shows "sendRequest dial (leader_rpc cv config n) (reported cv n) config = Some errJoinPromotionPending"
    and "waiting_member cv config servers target (Suc n)"
proof -
  let ?lib = "raft_calls cv" and ?i = "GetRaftId config" and ?a = "GetRaftAdvertiseAddr config" and ?nd = "leader_at cv config n"
  let ?rec = "recordJoinProgress ?lib ?i 0 (reported cv n) (clocks cv n 0) ?nd"
  have t: "targetIndex (fst ?rec) = target" by (rule waiting_found(2) [OF assms(1,3)])
  have j: "join_member ?lib (admin_addr cv) (clocks cv n) ?i ?a (reported cv n) ?nd =
      buildClusterInfoForNode ?lib (admin_addr cv) (\<lambda>k. clocks cv n (Suc k)) (snd ?rec)"
    using waiting_found(1) [OF assms(1,3)] t assms(4) by (cases ?rec) (auto simp: join_member_def)
  have c: "config_of ?lib (raft (snd ?rec)) = Some (servers @ [joined_as Nonvoter config])"
    using assms(3) by (simp add: waiting_member_def new_nonvoter_def)
  note out = request_outcome [where dial = dial, OF assms(1,2) j c]
  show "sendRequest dial (leader_rpc cv config n) (reported cv n) config = Some errJoinPromotionPending" using out(1) by simp
  obtain pr where "progress_of (leader_at cv config (Suc n)) ?i = Some pr" "targetIndex pr = target"
    using report_keeps_entry [OF record_result] t unfolding out(2) by metis
  then show "waiting_member cv config servers target (Suc n)"
    using out(3) by (auto simp: waiting_member_def new_nonvoter_def simp del: leader_at.simps)
qed

lemma promote_append: "i \<notin> ID ` set servers \<Longrightarrow> promote i a (servers @ [\<lparr>Suffrage = u, ID = i, Address = b\<rparr>]) = servers @ [\<lparr>Suffrage = Voter, ID = i, Address = a\<rparr>]"
  by (induction servers) (auto simp: promote_def)

lemma promoting_request:
  assumes "fresh_join cv config servers" "dial (JoinAddr config)" "waiting_member cv config servers target n" "target \<le> reported cv n"
  shows "sendRequest dial (leader_rpc cv config n) (reported cv n) config = None"
    and "config_of (raft_calls cv) (raft (leader_at cv config (Suc n))) = Some (servers @ [joined_as Voter config])"
proof -
  let ?lib = "raft_calls cv" and ?i = "GetRaftId config" and ?a = "GetRaftAdvertiseAddr config" and ?nd = "leader_at cv config n"
  let ?rec = "recordJoinProgress ?lib ?i 0 (reported cv n) (clocks cv n 0) ?nd"
  have f: "member_contract ?lib" "config_of ?lib (raft ?nd) = Some (servers @ [joined_as Nonvoter config])"
    "\<And>prev r. \<not> isl (fst (AddVoter ?lib ?i ?a prev r))" "?i \<notin> ID ` set servers"
    using assms(1,3) by (auto simp: fresh_join_def stable_leader_def waiting_member_def new_nonvoter_def)
  obtain idx where v: "validateJoiningMember ?lib ?nd ?i ?a = Inr (Some (joined_as Nonvoter config), idx)"
    using waiting_found(1) [OF assms(1,3)] by blast
  obtain k r where av: "AddVoter ?lib ?i ?a idx (raft ?nd) = (Inr k, r)"
    using f(3) [of idx "raft ?nd"] by (cases "AddVoter ?lib ?i ?a idx (raft ?nd)"; cases "fst (AddVoter ?lib ?i ?a idx (raft ?nd))") auto
  have conf: "config_of ?lib r = Some (servers @ [joined_as Voter config])"
    using contract_AddVoter [OF f(1,2) _ av] promote_append [OF f(4)] by auto
  have t: "targetIndex (fst ?rec) = target" by (rule waiting_found(2) [OF assms(1,3)])
  let ?nd' = "clearJoinProgress ?i ((snd ?rec)\<lparr>raft := r\<rparr>)"
  have j: "join_member ?lib (admin_addr cv) (clocks cv n) ?i ?a (reported cv n) ?nd =
      buildClusterInfoForNode ?lib (admin_addr cv) (\<lambda>k. clocks cv n (Suc k)) ?nd'"
    using v av t assms(4) recordJoinProgress_raft [of ?lib ?i 0 "reported cv n" "clocks cv n 0" ?nd]
    by (cases ?rec) (auto simp: join_member_def)
  have c: "config_of ?lib (raft ?nd') = Some (servers @ [joined_as Voter config])" using conf by simp
  note out = request_outcome [where dial = dial, OF assms(1,2) j c]
  show "sendRequest dial (leader_rpc cv config n) (reported cv n) config = None"
    and "config_of ?lib (raft (leader_at cv config (Suc n))) = Some (servers @ [joined_as Voter config])"
    using out(1,3) by simp_all
qed


section \<open>The whole loop\<close>

abbreviation join_attempt :: "'r conversation \<Rightarrow> Config \<Rightarrow> (bytes \<Rightarrow> bool) \<Rightarrow> nat \<Rightarrow> Config \<Rightarrow> send_error option" where
  "join_attempt cv config dial n \<equiv> sendRequest dial (leader_rpc cv config n) (reported cv n)"

text \<open>Until the report reaches the target, every attempt is answered with "pending" and repeated unchanged.\<close>

lemma onRetry_pending: "onRetry errJoinPromotionPending config = config"
  by (simp add: onRetry_def)

lemma waiting_until:
  assumes "fresh_join cv config servers" "dial (JoinAddr config)" "waiting_member cv config servers target 1"
    and "\<And>k. 1 \<le> k \<Longrightarrow> k < n \<Longrightarrow> reported cv k < target" "1 \<le> n"
  shows "waiting_member cv config servers target n \<and>
    retried (join_attempt cv config dial) onRetry n config = Some config \<and>
    (\<forall>m < n. \<forall>c e. retried (join_attempt cv config dial) onRetry m config = Some c \<longrightarrow> join_attempt cv config dial m c = Some e \<longrightarrow>
       \<not> unrecoverable e)"
  using assms(4,5)
proof (induction n)
  case (Suc n)
  show ?case
  proof (cases "n = 0")
    case True
    then show ?thesis using first_request(1) [where dial = dial, OF assms(1,2)] assms(3)
      by (auto simp: onRetry_pending)
  next
    case False
    then have ih: "waiting_member cv config servers target n" "retried (join_attempt cv config dial) onRetry n config = Some config"
      "\<forall>m < n. \<forall>c e. retried (join_attempt cv config dial) onRetry m config = Some c \<longrightarrow> join_attempt cv config dial m c = Some e \<longrightarrow>
         \<not> unrecoverable e"
      using Suc.IH Suc.prems(1) by auto
    have "reported cv n < target" using Suc.prems(1) False by simp
    note now = waiting_request [where dial = dial, OF assms(1,2) ih(1) this]
    show ?thesis using now ih by (auto simp: onRetry_pending less_Suc_eq)
  qed
qed simp

section \<open>Properties\<close>

text \<open>
  C12. A join completes: when a node with a new identity and a new address asks a leader that stays leader and whose
  configuration changes commit, and at some attempt within the retry limit (after the first) the node reports an
  applied index that reaches the target frozen at its first request, then \<^verbatim>\<open>joinCluster\<close> succeeds, and one of
  the requests up to that one has left the node in the leader's configuration as a voter beside all the earlier members.
\<close>

theorem join_completes:
  assumes "retry_complete retry" "fresh_join cv config servers" "dial (JoinAddr config)"
    and "1 \<le> m" "m < join_attempts" "targetIndex (the (progress_of (leader_at cv config 1) (GetRaftId config))) \<le> reported cv m"
  shows "joinCluster retry dial (leader_rpc cv config) (reported cv) config = (None, config)
    \<and> (\<exists>n \<le> m. config_of (raft_calls cv) (raft (leader_at cv config (Suc n))) =
         Some (servers @ [\<lparr>Suffrage = Voter, ID = GetRaftId config, Address = GetRaftAdvertiseAddr config\<rparr>]))"
proof -
  obtain target where w: "waiting_member cv config servers target 1"
    using first_request(2) [where dial = dial, OF assms(2,3)] by blast
  have t: "target \<le> reported cv m" using assms(6) w by (auto simp: waiting_member_def simp del: leader_at.simps)
  define n where "n = (LEAST n. 1 \<le> n \<and> target \<le> reported cv n)"
  have n: "1 \<le> n" "target \<le> reported cv n" "n \<le> m"
    using LeastI [of "\<lambda>n. 1 \<le> n \<and> target \<le> reported cv n" m] Least_le [of "\<lambda>n. 1 \<le> n \<and> target \<le> reported cv n" m] assms(4) t
    by (auto simp: n_def)
  have "reported cv k < target" if "1 \<le> k" "k < n" for k
    using not_less_Least [of k "\<lambda>n. 1 \<le> n \<and> target \<le> reported cv n"] that by (auto simp: n_def)
  note before = waiting_until [where dial = dial, OF assms(2,3) w this n(1)]
  note last = promoting_request [where dial = dial, OF assms(2,3) before [THEN conjunct1] n(2)]
  have "n < join_attempts" using n(3) assms(5) by simp
  then have "joinCluster retry dial (leader_rpc cv config) (reported cv) config = (None, config)"
    using assms(1) before last(1) unfolding retry_complete_def joinCluster_def by blast
  then show ?thesis using last(2) n(3) by blast
qed


text \<open>
  A retry library that does what is documented, and a conversation in which the leader has one member, the new one
  needs three requests to catch up, and every membership change commits at once.
\<close>

primrec retry_from :: "nat \<Rightarrow> nat \<Rightarrow> (nat \<Rightarrow> Config \<Rightarrow> send_error option) \<Rightarrow> (send_error \<Rightarrow> Config \<Rightarrow> Config) \<Rightarrow> Config \<Rightarrow> send_error option \<times> Config" where
  "retry_from n 0 attempt cb config = (Some ErrJoinInternal, config)"
| "retry_from n (Suc k) attempt cb config =
     (case attempt n config of
        None \<Rightarrow> (None, config)
      | Some e \<Rightarrow> if unrecoverable e then (Some e, config) else retry_from (Suc n) k attempt cb (cb e config))"

definition retry_Do :: retry_lib where
  "retry_Do limit attempt cb config = retry_from 0 limit attempt cb config"

lemma retry_from_step:
  assumes "n + k = limit" "retried attempt cb n config0 = Some config" "n \<le> m" "m < limit"
    and "retried attempt cb m config0 = Some c" "attempt m c = None"
    and "\<forall>j < m. \<forall>cj e. retried attempt cb j config0 = Some cj \<longrightarrow> attempt j cj = Some e \<longrightarrow> \<not> unrecoverable e"
  shows "retry_from n k attempt cb config = (None, c)"
  using assms
proof (induction k arbitrary: n config)
  case (Suc k)
  show ?case
  proof (cases "n = m")
    case True
    then show ?thesis using Suc.prems by simp
  next
    case False
    then have "n < m" using Suc.prems by simp
    have "attempt n config \<noteq> None"
    proof
      assume "attempt n config = None"
      then have "retried attempt cb (Suc n) config0 = None" using Suc.prems(2) by simp
      then have "retried attempt cb (Suc n + j) config0 = None" for j by (induction j) simp_all
      from this [of "m - Suc n"] show False using \<open>n < m\<close> Suc.prems(5) by simp
    qed
    then obtain e where e: "attempt n config = Some e" by blast
    then have "\<not> unrecoverable e" "retried attempt cb (Suc n) config0 = Some (cb e config)"
      using Suc.prems(2,7) \<open>n < m\<close> by auto
    with e show ?thesis using Suc.IH [of "Suc n" "cb e config"] Suc.prems \<open>n < m\<close> by simp
  qed
qed simp

lemma retry_Do_complete: "retry_complete retry_Do"
  unfolding retry_complete_def retry_Do_def 
proof (intro allI impI)
  fix limit attempt cb config n c
  assume "n < limit" "retried attempt cb n config = Some c" "attempt n c = None"
    "\<forall>m < n. \<forall>cm e. retried attempt cb m config = Some cm \<longrightarrow> attempt m cm = Some e \<longrightarrow> \<not> unrecoverable e"
  then show "retry_from 0 limit attempt cb config = (None, c)"
    using retry_from_step [of 0 limit limit attempt cb config config n c] by simp
qed

definition example_join :: "leader_raft conversation" where
  "example_join =
     \<lparr>raft_calls = leader_lib, admin_addr = ''h:1'', clocks = (\<lambda>n k. int n), reported = of_nat, evolve = (\<lambda>_ r. r),
      leader0 = \<lparr>raft = \<lparr>cfg = [\<lparr>Suffrage = Voter, ID = ''n1'', Address = ''a1''\<rparr>], cfg_index = 1, applied_to = 2\<rparr>, joinProgress = Mapping.empty\<rparr>\<rparr>"

definition joining_config :: Config where
  "joining_config = InitDBConfig (flag_defaults\<lparr>f_raft_id := ''n2'', f_raft_advertise_addr := ''a2'', f_join := ''h:1''\<rparr>)"

lemma joining_config_values [simp]:
  "GetRaftId joining_config = ''n2''" "GetRaftAdvertiseAddr joining_config = ''a2''" "JoinAddr joining_config = ''h:1''"
  by (simp_all add: joining_config_def InitDBConfig_def flag_defaults_def GetRaftId_def GetRaftAdvertiseAddr_def TrimSpace_printable printable_def)

lemma example_join_fresh: "fresh_join example_join joining_config [\<lparr>Suffrage = Voter, ID = ''n1'', Address = ''a1''\<rparr>]"
  using leader_lib_contract
  by (simp add: fresh_join_def stable_leader_def example_join_def unique_members_def config_of_def) (simp add: leader_lib_def)

lemma example_join_target: "targetIndex (the (progress_of (leader_at example_join joining_config 1) ''n2'')) = 2"
  by (simp add: example_join_def leader_lib_def join_request_def JoinClusterRPC_def JoinClusterWithProgress_def join_member_def
      validateJoiningMember_def recordJoinProgress_def buildClusterInfoForNode_def clusterMemberProgress_def new_nonvoter_def progress_of_def
      Let_def max_def)

theorem join_completes_witness:
  "joinCluster retry_Do (\<lambda>_. True) (leader_rpc example_join joining_config) (reported example_join) joining_config = (None, joining_config)
    \<and> (\<exists>n \<le> 3. config_of leader_lib (raft (leader_at example_join joining_config (Suc n))) =
         Some [\<lparr>Suffrage = Voter, ID = ''n1'', Address = ''a1''\<rparr>, \<lparr>Suffrage = Voter, ID = ''n2'', Address = ''a2''\<rparr>])"
proof -
  have "raft_calls example_join = leader_lib" "reported example_join 3 = 3" by (simp_all add: example_join_def)
  then show ?thesis
    using join_completes [OF retry_Do_complete example_join_fresh, of "\<lambda>_. True" 3] example_join_target
    by (simp add: join_attempts_value del: leader_at.simps)
qed

end
