(* ===== verification/Flags.thy ===== *)
theory Flags
  imports Config
begin

text \<open>
  The command line of the server (\<^verbatim>\<open>InitDBConfig\<close> in \<^verbatim>\<open>src/core/config.go\<close>): the eleven flags it declares and Go's
  \<^verbatim>\<open>flag.Parse\<close> on them. An error ends the process (the package's command line exits on errors), so the
  result is an error or the configuration. Lemmas: every setting of the flags can be written as a command line that is read back
  exactly, for arbitrary bytes in the values; a later flag wins; parsing stops at the first argument that is not a flag.
\<close>

section \<open>Declared flags\<close>

datatype flag_kind =
    BoolFlag "bool \<Rightarrow> flag_values \<Rightarrow> flag_values"
  | StringFlag "bytes \<Rightarrow> flag_values \<Rightarrow> flag_values"

definition declared_flags :: "(bytes \<times> flag_kind) list" where
  "declared_flags =
     [(''enable-raft'', BoolFlag (\<lambda>b f. f\<lparr>f_enable_raft := b\<rparr>)),
      (''bootstrap'', BoolFlag (\<lambda>b f. f\<lparr>f_bootstrap := b\<rparr>)),
      (''raft-id'', StringFlag (\<lambda>s f. f\<lparr>f_raft_id := s\<rparr>)),
      (''raft-addr'', StringFlag (\<lambda>s f. f\<lparr>f_raft_addr := s\<rparr>)),
      (''raft-advertise-addr'', StringFlag (\<lambda>s f. f\<lparr>f_raft_advertise_addr := s\<rparr>)),
      (''join'', StringFlag (\<lambda>s f. f\<lparr>f_join := s\<rparr>)),
      (''admin-addr'', StringFlag (\<lambda>s f. f\<lparr>f_admin_addr := s\<rparr>)),
      (''addr'', StringFlag (\<lambda>s f. f\<lparr>f_addr := s\<rparr>)),
      (''data-dir'', StringFlag (\<lambda>s f. f\<lparr>f_data_dir := s\<rparr>)),
      (''maxmemory'', StringFlag (\<lambda>s f. f\<lparr>f_maxmemory := s\<rparr>)),
      (''log-requests'', BoolFlag (\<lambda>b f. f\<lparr>f_log_requests := b\<rparr>))]"

section \<open>Parsing\<close>

datatype flag_error =
    BadFlagSyntax bytes | FlagNotDefined bytes | HelpRequested
  | InvalidBool bytes bytes | FlagNeedsArgument bytes

text \<open>\<^verbatim>\<open>strconv.ParseBool\<close>.\<close>

definition ParseBool :: "bytes \<Rightarrow> bool option" where
  "ParseBool s =
     (if List.member [''1'', ''t'', ''T'', ''TRUE'', ''true'', ''True''] s then Some True
      else if List.member [''0'', ''f'', ''F'', ''FALSE'', ''false'', ''False''] s then Some False
      else None)"

text \<open>The name of a flag and the value after the first equals sign, if there is one.\<close>

definition split_flag :: "bytes \<Rightarrow> bytes \<times> bytes option" where
  "split_flag name =
     (let eq = (\<lambda>c. c \<noteq> CHR ''='')
      in (takeWhile eq name, case dropWhile eq name of [] \<Rightarrow> None | _ # v \<Rightarrow> Some v))"

fun flag_Parse :: "bytes list \<Rightarrow> flag_values \<Rightarrow> flag_error + bytes list \<times> flag_values" where
  "flag_Parse [] f = Inr ([], f)"
| "flag_Parse (s # args) f =
     (if length s < 2 \<or> hd s \<noteq> CHR ''-'' then Inr (s # args, f)
      else if s = ''--'' then Inr (args, f)
      else
        (let name = (if s ! 1 = CHR ''-'' then drop 2 s else drop 1 s) in
         if name = [] \<or> hd name = CHR ''-'' \<or> hd name = CHR ''='' then Inl (BadFlagSyntax s)
         else
           (case map_of declared_flags (fst (split_flag name)) of
              None \<Rightarrow>
                if List.member [''help'', ''h''] (fst (split_flag name)) then Inl HelpRequested
                else Inl (FlagNotDefined (fst (split_flag name)))
            | Some (BoolFlag st) \<Rightarrow>
                (case snd (split_flag name) of
                   None \<Rightarrow> flag_Parse args (st True f)
                 | Some v \<Rightarrow>
                     (case ParseBool v of
                        None \<Rightarrow> Inl (InvalidBool v (fst (split_flag name)))
                      | Some b \<Rightarrow> flag_Parse args (st b f)))
            | Some (StringFlag st) \<Rightarrow>
                (case snd (split_flag name) of
                   Some v \<Rightarrow> flag_Parse args (st v f)
                 | None \<Rightarrow>
                     (case args of
                        [] \<Rightarrow> Inl (FlagNeedsArgument (fst (split_flag name)))
                      | v # args' \<Rightarrow> flag_Parse args' (st v f))))))"

text \<open>\<^verbatim>\<open>InitDBConfig\<close> on the arguments of the process; arguments after the flags are ignored.\<close>

definition InitDBConfig_args :: "bytes list \<Rightarrow> flag_error + Config" where
  "InitDBConfig_args args =
     (case flag_Parse args flag_defaults of
        Inl err \<Rightarrow> Inl err
      | Inr (_, f) \<Rightarrow> Inr (InitDBConfig f))"

section \<open>Flags with values\<close>

definition string_flag :: "bytes \<Rightarrow> bytes \<Rightarrow> bytes" where
  "string_flag name v = ''--'' @ name @ CHR ''='' # v"

definition show_bool :: "bool \<Rightarrow> bytes" where
  "show_bool b = (if b then ''true'' else ''false'')"

text \<open>A name a flag can have.\<close>

definition flag_name :: "bytes \<Rightarrow> bool" where
  "flag_name name \<longleftrightarrow> name \<noteq> [] \<and> hd name \<noteq> CHR ''-'' \<and> CHR ''='' \<notin> set name"

lemma split_flag_value: "flag_name name \<Longrightarrow> split_flag (name @ CHR ''='' # v) = (name, Some v)"
proof -
  assume "flag_name name"
  then have n: "\<And>c. c \<in> set name \<Longrightarrow> c \<noteq> CHR ''=''" by (auto simp: flag_name_def)
  have "takeWhile (\<lambda>c. c \<noteq> CHR ''='') (name @ CHR ''='' # v) = name" "dropWhile (\<lambda>c. c \<noteq> CHR ''='') (name @ CHR ''='' # v) = CHR ''='' # v"
    by (rule takeWhile_append_stop dropWhile_append_stop; use n in auto)+
  then show ?thesis by (simp add: split_flag_def Let_def)
qed

lemma split_flag_plain: "flag_name name \<Longrightarrow> split_flag name = (name, None)"
proof -
  assume "flag_name name"
  then have n: "\<forall>c \<in> set name. c \<noteq> CHR ''=''" by (auto simp: flag_name_def)
  have "takeWhile (\<lambda>c. c \<noteq> CHR ''='') name = name" using n by (simp add: takeWhile_eq_all_conv)
  moreover have "dropWhile (\<lambda>c. c \<noteq> CHR ''='') name = []" using n by (simp add: dropWhile_eq_Nil_conv)
  ultimately show ?thesis unfolding split_flag_def Let_def by (simp only: list.case)
qed

lemma parse_string_flag:
  assumes "flag_name name" "map_of declared_flags name = Some (StringFlag st)"
  shows "flag_Parse (string_flag name v # args) f = flag_Parse args (st v f)"
proof -
  have "hd (name @ CHR ''='' # v) \<noteq> CHR ''-''" "hd (name @ CHR ''='' # v) \<noteq> CHR ''=''" "name \<noteq> []"
    using assms(1) by (cases name; auto simp: flag_name_def)+
  then show ?thesis using assms by (simp add: string_flag_def split_flag_value)
qed

lemma parse_bool_flag:
  assumes "flag_name name" "map_of declared_flags name = Some (BoolFlag st)"
  shows "flag_Parse (string_flag name (show_bool b) # args) f = flag_Parse args (st b f)"
    and "flag_Parse ((''--'' @ name) # args) f = flag_Parse args (st True f)"
proof -
  have n: "hd (name @ CHR ''='' # show_bool b) \<noteq> CHR ''-''" "hd (name @ CHR ''='' # show_bool b) \<noteq> CHR ''=''" "name \<noteq> []"
      "hd name \<noteq> CHR ''-''" "hd name \<noteq> CHR ''=''"
    using assms(1) by (cases name; auto simp: flag_name_def)+
  have "ParseBool (show_bool b) = Some b" by (simp add: ParseBool_def show_bool_def)
  with n assms show "flag_Parse (string_flag name (show_bool b) # args) f = flag_Parse args (st b f)"
    by (simp add: string_flag_def split_flag_value)
  show "flag_Parse ((''--'' @ name) # args) f = flag_Parse args (st True f)"
    using n assms by (simp add: split_flag_plain)
qed

section \<open>Every setting can be given on the command line\<close>

definition print_flags :: "flag_values \<Rightarrow> bytes list" where
  "print_flags f =
     [string_flag ''enable-raft'' (show_bool (f_enable_raft f)), string_flag ''bootstrap'' (show_bool (f_bootstrap f)),
      string_flag ''raft-id'' (f_raft_id f), string_flag ''raft-addr'' (f_raft_addr f),
      string_flag ''raft-advertise-addr'' (f_raft_advertise_addr f), string_flag ''join'' (f_join f),
      string_flag ''admin-addr'' (f_admin_addr f), string_flag ''addr'' (f_addr f), string_flag ''data-dir'' (f_data_dir f),
      string_flag ''maxmemory'' (f_maxmemory f), string_flag ''log-requests'' (show_bool (f_log_requests f))]"

text \<open>One equation per declared flag, for its proper form and, for switches, the form without a value.\<close>

lemma parse_declared:
  "flag_Parse (string_flag ''enable-raft'' (show_bool b) # args) f = flag_Parse args (f\<lparr>f_enable_raft := b\<rparr>)"
  "flag_Parse (string_flag ''bootstrap'' (show_bool b) # args) f = flag_Parse args (f\<lparr>f_bootstrap := b\<rparr>)"
  "flag_Parse (string_flag ''log-requests'' (show_bool b) # args) f = flag_Parse args (f\<lparr>f_log_requests := b\<rparr>)"
  "flag_Parse (string_flag ''raft-id'' v # args) f = flag_Parse args (f\<lparr>f_raft_id := v\<rparr>)"
  "flag_Parse (string_flag ''raft-addr'' v # args) f = flag_Parse args (f\<lparr>f_raft_addr := v\<rparr>)"
  "flag_Parse (string_flag ''raft-advertise-addr'' v # args) f = flag_Parse args (f\<lparr>f_raft_advertise_addr := v\<rparr>)"
  "flag_Parse (string_flag ''join'' v # args) f = flag_Parse args (f\<lparr>f_join := v\<rparr>)"
  "flag_Parse (string_flag ''admin-addr'' v # args) f = flag_Parse args (f\<lparr>f_admin_addr := v\<rparr>)"
  "flag_Parse (string_flag ''addr'' v # args) f = flag_Parse args (f\<lparr>f_addr := v\<rparr>)"
  "flag_Parse (string_flag ''data-dir'' v # args) f = flag_Parse args (f\<lparr>f_data_dir := v\<rparr>)"
  "flag_Parse (string_flag ''maxmemory'' v # args) f = flag_Parse args (f\<lparr>f_maxmemory := v\<rparr>)"
  by (subst parse_bool_flag parse_string_flag; simp add: flag_name_def declared_flags_def)+

lemma parse_switches:
  "flag_Parse (''--enable-raft'' # args) f = flag_Parse args (f\<lparr>f_enable_raft := True\<rparr>)"
  "flag_Parse (''--bootstrap'' # args) f = flag_Parse args (f\<lparr>f_bootstrap := True\<rparr>)"
  using parse_bool_flag(2) [of "''enable-raft''" _ args f] parse_bool_flag(2) [of "''bootstrap''" _ args f]
  by (simp_all add: flag_name_def declared_flags_def)

lemma parse_print_flags: "flag_Parse (print_flags f @ args) g = flag_Parse args f"
proof -
  have "flag_Parse (print_flags f @ args) g =
      flag_Parse args (g\<lparr>f_enable_raft := f_enable_raft f, f_bootstrap := f_bootstrap f, f_raft_id := f_raft_id f, f_raft_addr := f_raft_addr f,
        f_raft_advertise_addr := f_raft_advertise_addr f, f_join := f_join f, f_admin_addr := f_admin_addr f, f_addr := f_addr f,
        f_data_dir := f_data_dir f, f_maxmemory := f_maxmemory f, f_log_requests := f_log_requests f\<rparr>)"
    by (simp only: print_flags_def append_Cons append_Nil parse_declared)
  then show ?thesis by (cases f; cases g) simp
qed

text \<open>
  The command line is complete: whatever the configuration record holds can be given on the command line, for
  arbitrary values (spaces, dashes, equals signs, no valid UTF-8), and earlier flags do not matter.
\<close>

lemma command_line_complete:
  "InitDBConfig_args (print_flags g @ print_flags f) = Inr (InitDBConfig f)"
  using parse_print_flags [of g "print_flags f @ []"] parse_print_flags [of f "[]"] by (simp add: InitDBConfig_args_def)

text \<open>
  Parsing stops at the first argument that is not a flag: a switch followed by a separate value silently drops
  everything after it.
\<close>

lemma stray_value_hides_flags: "flag_Parse [''--enable-raft'', ''true'', ''--bootstrap''] f =
    Inr ([''true'', ''--bootstrap''], f\<lparr>f_enable_raft := True\<rparr>)"
  using parse_switches(1) [of "[''true'', ''--bootstrap'']" f] by simp

text \<open>The option that the README names for a configuration file does not exist.\<close>

lemma config_file_refused: "InitDBConfig_args [''--config=./skiffdb.toml''] = Inl (FlagNotDefined ''config'')"
  by (simp add: InitDBConfig_args_def split_flag_def declared_flags_def Let_def)

end
