(* ===== verification/NodeCycle.thy ===== *)
theory NodeCycle
  imports RaftStart
begin

text \<open>
  The life of a node over several processes (\<^verbatim>\<open>src/core/raft.go\<close>, \<^verbatim>\<open>src/core/raft_identity.go\<close>): the first start
  installs the identity file, later starts find it. The theorem composes the identity file, the stores and
  the checks of \<^verbatim>\<open>StartRaft\<close> over two starts with different environments.
\<close>

section \<open>What a first start leaves behind\<close>

lemma finish_start_persists:
  assumes "errs (finish_start env nd False c evs) = []"
  shows "\<exists>b. running (finish_start env nd False c evs) = Some (nd\<lparr>initialized := b\<rparr>) \<and> config_after (finish_start env nd False c evs) = Some c
    \<and> fst (persistRaftIdentity (se_persist env) (se_tmp env) (se_partial env) c (localAddr nd) (se_files env)) = None"
proof -
  let ?w = "if initialized nd then Inr True else waitForLocalRaftConfiguration (se_configuration env) 1 (se_wait env) c"
  obtain b where b: "?w = Inr b" using assms by (cases ?w) (simp_all add: finish_start_def)
  let ?p = "fst (persistRaftIdentity (se_persist env) (se_tmp env) (se_partial env) c (localAddr nd) (se_files env))"
  have "?p = None" using assms b by (cases ?p) (auto simp: finish_start_def Let_def)
  with b show ?thesis by (intro exI [of _ b]) (simp add: finish_start_def Let_def)
qed

text \<open>Joining may change the join address of the configuration and nothing else of it.\<close>

lemma onRetry_config: "\<exists>j. onRetry err c = c\<lparr>JoinAddr := j\<rparr>"
proof -
  have "c = c\<lparr>JoinAddr := JoinAddr c\<rparr>" by simp
  then show ?thesis by (cases err) (auto simp: onRetry_def intro: exI [of _ "JoinAddr c"])
qed

lemma retried_config: "retried attempt onRetry n c = Some c' \<Longrightarrow> \<exists>j. c' = c\<lparr>JoinAddr := j\<rparr>"
proof (induction n arbitrary: c')
  case 0
  then show ?case by (intro exI [of _ "JoinAddr c"]) simp
next
  case (Suc n)
  then obtain c1 err where c1: "retried attempt onRetry n c = Some c1" "c' = onRetry err c1" by (auto split: option.splits)
  obtain j where "c1 = c\<lparr>JoinAddr := j\<rparr>" using Suc.IH [OF c1(1)] by blast
  with onRetry_config [of err c1] c1(2) show ?case by auto
qed

lemma joinCluster_config:
  "retry_contract retry \<Longrightarrow> joinCluster retry dial rpc aidx c = (None, c') \<Longrightarrow> \<exists>j. c' = c\<lparr>JoinAddr := j\<rparr>"
  unfolding retry_contract_def joinCluster_def join_attempts_value by (metis retried_config zero_less_numeral)

lemma resolve_fresh:
  assumes "open_file dk (raftIdentityPath config) = NotExist" "resolveRaftIdentity dk (Some config) = (Inr (identity, had), Some c1)"
  shows "\<not> had" "GetDataDir c1 = GetDataDir config"
  using assms by (auto simp: resolveRaftIdentity_def Let_def split: sum.splits if_splits list.splits)

lemma run_node_persists:
  assumes "errs (run_node env nd identity False c evs) = []" "retry_contract (se_retry env)"
  shows "\<exists>b c' j. running (run_node env nd identity False c evs) = Some (nd\<lparr>initialized := b\<rparr>)
    \<and> config_after (run_node env nd identity False c evs) = Some c' \<and> c' = c\<lparr>JoinAddr := j\<rparr>
    \<and> fst (persistRaftIdentity (se_persist env) (se_tmp env) (se_partial env) c' (localAddr nd) (se_files env)) = None"
proof -
  obtain init where v: "validatePersistedRaftConfiguration (se_configuration env 0) c = Inr init"
    using assms(1) by (auto simp: run_node_def split: if_splits sum.splits)
  obtain jres c' where j: "joinCluster (se_retry env) (se_dial env) (se_rpc env) (se_applied env) c = (jres, c')" by fastforce
  let ?c = "if init \<or> Bootstrap c then c else c'"
  have r: "run_node env nd identity False c evs = finish_start env (nd\<lparr>initialized := init\<rparr>) False ?c evs" "init \<or> Bootstrap c \<or> jres = None"
    using assms(1) v j by (simp_all add: run_node_def Let_def split: if_splits option.splits)
  have "c = c\<lparr>JoinAddr := JoinAddr c\<rparr>" by simp
  then have "\<exists>ja. ?c = c\<lparr>JoinAddr := ja\<rparr>" using r(2) j joinCluster_config [OF assms(2), of _ _ _ c c'] by metis
  moreover obtain b where "running (run_node env nd identity False c evs) = Some (nd\<lparr>initialized := b\<rparr>)"
      "config_after (run_node env nd identity False c evs) = Some ?c"
      "fst (persistRaftIdentity (se_persist env) (se_tmp env) (se_partial env) ?c (localAddr nd) (se_files env)) = None"
    using finish_start_persists [of env "nd\<lparr>initialized := init\<rparr>" ?c evs] assms(1) unfolding r(1) by auto
  ultimately show ?thesis by blast
qed

section \<open>Starting again\<close>

text \<open>
  The world lets the node \<open>i\<close> at the address \<open>a\<close> start again: addresses resolve to routable ones, the transport listens
  at \<open>a\<close>, the stores open, Raft comes up, and the configuration it has on disk lists the node.
\<close>

definition reopening :: "start_env \<Rightarrow> bytes \<Rightarrow> bytes \<Rightarrow> bool" where
  "reopening env i a \<longleftrightarrow>
     (\<forall>x. \<exists>r. se_resolve env x = Inr r \<and> has_ip r \<and> \<not> unspecified r) \<and>
     (\<forall>x y. se_transport env x y = Inr a) \<and>
     (\<forall>c. GetRaftId c = i \<longrightarrow> (\<exists>st evs. newPersistentRaftStores (se_storage env) (Some c) = (Inr st, evs))) \<and>
     (\<exists>b. se_existing env = Inr b) \<and> se_new_raft env = None \<and>
     (\<exists>servers s. se_configuration env 0 = Inr servers \<and> List.find (\<lambda>s. ID s = i) servers = Some s \<and> Address s = a)"

lemma start_reopens:
  assumes "EnableRaft config" "\<not> Bootstrap config" "TrimSpace (JoinAddr config) = []"
    and id: "resolveRaftIdentity (se_disk env) (Some config) = (Inr (Some identity, True), Some c1)"
    and "GetRaftId c1 = i" "JoinAddr c1 = JoinAddr config" "Bootstrap c1 = Bootstrap config" "GetRaftAdvertiseAddr c1 \<noteq> []"
    and "IdAdvertiseAddr identity = a" "reopening env i a" "TrimSpace a = a" "a \<noteq> []"
  shows "\<exists>nd. errs (StartRaft env (Some config) None) = [] \<and> running (StartRaft env (Some config) None) = Some nd
    \<and> initialized nd \<and> localID nd = i \<and> localAddr nd = a \<and> trace (StartRaft env (Some config) None) = all_opened"
proof -
  obtain r where "se_resolve env (GetRaftAdvertiseAddr c1) = Inr r" "has_ip r" "\<not> unspecified r"
    using assms(10) unfolding reopening_def by blast
  then obtain adr where n: "normalizeRaftAdvertiseAddr (se_resolve env) (GetRaftAdvertiseAddr c1) = Inr adr"
    using assms(8) by (simp add: normalizeRaftAdvertiseAddr_def)
  let ?c2 = "c1\<lparr>RaftAdvertiseAddr := adr\<rparr>" and ?c3 = "c1\<lparr>RaftAdvertiseAddr := a\<rparr>"
  have g: "GetRaftId ?c2 = i" "GetRaftId ?c3 = i" "GetRaftAdvertiseAddr ?c3 = a" using assms(5,11,12) by (simp_all add: GetRaftId_def GetRaftAdvertiseAddr_def Let_def)
  obtain st where st: "newPersistentRaftStores (se_storage env) (Some ?c2) = (Inr st, [StoreOpened])" "logStore st" "stableStore st" "snapshotStore st"
    using assms(10) g(1) new_stores_success unfolding reopening_def by (metis raftStores.select_convs)
  obtain r2 b where r2: "se_resolve env (GetRaftAdvertiseAddr ?c2) = Inr r2" "se_existing env = Inr b" "\<And>x y. se_transport env x y = Inr a" "se_new_raft env = None"
    using assms(10) unfolding reopening_def by blast
  then obtain nd where nd: "initRaftNode env ?c2 (Some st) = (Inr nd, [TransportOpened, RaftStarted])" "localID nd = i" "localAddr nd = a"
    using st(2-4) g(1) by (simp add: initRaftNode_def initRaftNodeWithDB_def)
  have v: "validatePersistedRaftConfiguration (se_configuration env 0) ?c3 = Inr True"
    using assms(10) g by (auto simp: reopening_def validatePersistedRaftConfiguration_def)
  have "StartRaft env (Some config) None = run_node env nd (Some identity) True ?c3 all_opened"
    using assms(1) id n st(1) nd by (simp add: StartRaft_def all_opened_def)
  then show ?thesis
    using v g assms(2,3,6,7,9) nd by (simp add: run_node_def validateRaftStartupIntent_def finish_start_def Let_def)
qed

section \<open>Properties\<close>

text \<open>
  C23. A node comes back under its identity: if the first start of a node succeeded, whether it bootstrapped a cluster or
  joined one, and the operator starts it again without \<^verbatim>\<open>--bootstrap\<close> and \<^verbatim>\<open>--join\<close>, with the same
  identity or none, on the disk the first start left behind and in a world that lets it, then the start succeeds:
  the node that runs is initialized and has the identity and the address of the first one.
\<close>

theorem restarted_node_reopens:
  assumes "EnableRaft config" "open_file (se_disk env) (raftIdentityPath config) = NotExist" "retry_contract (se_retry env)"
    and "errs (StartRaft env (Some config) None) = []" "running (StartRaft env (Some config) None) = Some nd"
    and "config_after (StartRaft env (Some config) None) = Some c"
    and "last (snd (persistRaftIdentity (se_persist env) (se_tmp env) (se_partial env) c (localAddr nd) (se_files env))) (raftIdentityPath c) = Some s"
    and "EnableRaft config'" "\<not> Bootstrap config'" "TrimSpace (JoinAddr config') = []" "GetRaftId config' = [] \<or> GetRaftId config' = GetRaftId c"
    and "GetRaftAdvertiseAddr config' \<noteq> []" "open_file (se_disk env') (raftIdentityPath config') = Opened s EOF"
    and "reopening env' (localID nd) (localAddr nd)"
    and "TrimSpace (localAddr nd) = localAddr nd" "localAddr nd \<noteq> []" "valid_utf8 (localID nd)" "valid_utf8 (localAddr nd)" "localID nd \<noteq> []"
  shows "\<exists>nd'. errs (StartRaft env' (Some config') None) = [] \<and> running (StartRaft env' (Some config') None) = Some nd'
    \<and> initialized nd' \<and> localID nd' = localID nd \<and> localAddr nd' = localAddr nd
    \<and> trace (StartRaft env' (Some config') None) = [StoreOpened, TransportOpened, RaftStarted]"
proof -
  obtain n0 identity had c1 c2 where run: "resolveRaftIdentity (se_disk env) (Some config) = (Inr (identity, had), Some c1)"
      "c2 = c1\<lparr>RaftAdvertiseAddr := localAddr n0\<rparr>" "localID n0 = GetRaftId c2"
      "StartRaft env (Some config) None = run_node env n0 identity had c2 all_opened"
    using StartRaft_steps [OF assms(1), of env] assms(4) by metis
  then have "\<not> had" using resolve_fresh [OF assms(2)] by blast
  then obtain b j where p: "nd = n0\<lparr>initialized := b\<rparr>" "c = c2\<lparr>JoinAddr := j\<rparr>"
      "fst (persistRaftIdentity (se_persist env) (se_tmp env) (se_partial env) c (localAddr nd) (se_files env)) = None"
    using run_node_persists [of env n0 identity c2 all_opened] assms(3-6) run(4) by auto
  have id: "GetRaftId c = localID nd" using run(3) p(1,2) by (simp add: GetRaftId_def)
  let ?p = "persistRaftIdentity (se_persist env) (se_tmp env) (se_partial env) c (localAddr nd) (se_files env)"
  have "?p = (None, snd ?p)" using p(3) by (metis prod.collapse)
  from persist_last [OF this] have s: "s = identity_text (identity_of c (localAddr nd))" using assms(7) by simp
  have "load_identity s EOF config' = Inr (identity_of c (localAddr nd))"
    unfolding s using assms(11,15-19) id TrimSpace_GetRaftId [of c]
    by (intro load_identity_text) (auto simp: identity_of_def identity_valid_def raftIdentityFormat_def valid_ascii)
  then have "resolveRaftIdentity (se_disk env') (Some config') =
      (Inr (Some (identity_of c (localAddr nd)), True), Some (setRaftID (localID nd) config'))"
    using assms(13) id by (simp add: resolveRaftIdentity_def identity_of_def)
  from start_reopens [OF assms(8-10) this _ _ _ _ _ assms(14)] show ?thesis
    using assms(9,12,15,16) id TrimSpace_GetRaftId [of c] by (simp add: identity_of_def all_opened_def)
qed


definition second_config :: Config where
  "second_config = first_config\<lparr>Bootstrap := False\<rparr>"

definition second_start :: start_env where
  "second_start = first_start
     \<lparr>se_disk := \<lparr>open_file = (\<lambda>_. Opened (identity_text (identity_of (first_config\<lparr>RaftAdvertiseAddr := ''h:7000''\<rparr>) ''h:7000'')) EOF),
        read_dir = (\<lambda>_. DirNotExist), stat_file = (\<lambda>_. StatNotExist)\<rparr>,
      se_configuration := (\<lambda>_. Inr [\<lparr>Suffrage = Voter, ID = ''n1'', Address = ''h:7000''\<rparr>])\<rparr>"

lemma second_start_reopening: "reopening second_start ''n1'' ''h:7000''"
proof -
  have "\<exists>st evs. newPersistentRaftStores (se_storage first_start) (Some c) = (Inr st, evs)" if "GetRaftId c = ''n1''" for c
  proof -
    have "raftNodeDataDir (Some c) = Inr (Join [GetDataDir c, ''raft'', ''n1''])"
      using that by (simp add: raftNodeDataDir_def Base_plain slash_def Contains_byte)
    then show ?thesis by (simp add: newPersistentRaftStores_def first_start_def rejectUnreadableFinalizedSnapshots_def)
  qed
  then show ?thesis by (simp add: reopening_def second_start_def) (simp add: first_start_def, blast)
qed

theorem restarted_node_reopens_witness:
  "\<exists>nd'. running (StartRaft second_start (Some second_config) None) = Some nd' \<and> initialized nd' \<and> localID nd' = ''n1''"
proof -
  let ?c = "first_config\<lparr>RaftAdvertiseAddr := ''h:7000''\<rparr>"
  obtain nd where nd: "running (StartRaft first_start (Some first_config) None) = Some nd" "localID nd = ''n1''" "localAddr nd = ''h:7000''"
    using first_start_result by blast
  let ?p = "persistRaftIdentity (se_persist first_start) (se_tmp first_start) (se_partial first_start) ?c (localAddr nd) (se_files first_start)"
  have "?p = (None, snd ?p)" by (simp add: first_start_def persistRaftIdentity_def Let_def)
  from persist_last [OF this] have l: "last (snd ?p) (raftIdentityPath ?c) = Some (identity_text (identity_of ?c ''h:7000''))" by (simp add: nd)
  have e: "EnableRaft second_config" "\<not> Bootstrap second_config" "TrimSpace (JoinAddr second_config) = []"
      "GetRaftId second_config = [] \<or> GetRaftId second_config = GetRaftId ?c" "GetRaftAdvertiseAddr second_config \<noteq> []"
    using first_config_advertise by (simp_all add: second_config_def first_config_facts GetRaftId_def GetRaftAdvertiseAddr_def)
  have d: "open_file (se_disk second_start) (raftIdentityPath second_config) = Opened (identity_text (identity_of ?c ''h:7000'')) EOF"
    by (simp add: second_start_def)
  have "open_file (se_disk first_start) (raftIdentityPath first_config) = NotExist" "retry_contract (se_retry first_start)"
    by (simp_all add: first_start_def try_once_contract)
  moreover have "reopening second_start (localID nd) (localAddr nd)" by (simp add: nd second_start_reopening)
  ultimately show ?thesis
    using restarted_node_reopens [OF first_config_facts(1) _ _ _ nd(1) _ l e d] first_start_result
    by (simp add: nd TrimSpace_printable printable_def valid_ascii) blast
qed

end
