(* ===== verification/Deploy.thy ===== *)
theory Deploy
  imports Flags NodeCycle
begin

text \<open>
  Nodes started from their command lines: the flags of \<^verbatim>\<open>src/core/config.go\<close> together with the identity file and
  \<^verbatim>\<open>StartRaft\<close>. The theorem is about two nodes on one data directory, with the command lines that the
  README gives for a cluster of three as its instance.
\<close>

section \<open>A second node in the same directory\<close>

lemma same_identity_path: "GetDataDir config' = GetDataDir config \<Longrightarrow> raftIdentityPath config' = raftIdentityPath config"
  by (simp add: raftIdentityPath_def)

lemma other_identity_conflicts:
  assumes "GetRaftId config \<noteq> []" "valid_utf8 (GetRaftId config)" "TrimSpace adr \<noteq> []" "valid_utf8 (TrimSpace adr)"
    and "GetRaftId config' \<noteq> []" "GetRaftId config' \<noteq> GetRaftId config"
  shows "load_identity (identity_text (identity_of config adr)) EOF config' = Inl (IdConflict (GetRaftId config') (GetRaftId config))"
proof -
  have "identity_valid (identity_of config adr)" using assms(2,4) by (simp add: identity_valid_def identity_of_def raftIdentityFormat_def valid_ascii)
  from load_identity_result [OF this, of config'] show ?thesis using assms by (simp add: identity_of_def)
qed

section \<open>The README's cluster\<close>

definition readme_node :: "bytes \<Rightarrow> bytes \<Rightarrow> bytes list \<Rightarrow> bytes list" where
  "readme_node adr admin raft_flags =
     [string_flag ''addr'' adr, string_flag ''data-dir'' ''./data'', string_flag ''maxmemory'' ''1GB'', string_flag ''admin-addr'' admin,
      ''--enable-raft''] @ raft_flags"

definition terminal_A :: "bytes list" where
  "terminal_A = readme_node '':6380'' '':7002''
     [''--bootstrap'', string_flag ''raft-id'' ''node-8001'', string_flag ''raft-addr'' ''127.0.0.1:8001'']"

definition terminal_B :: "bytes list" where
  "terminal_B = readme_node '':6381'' '':7003''
     [string_flag ''raft-id'' ''node-8002'', string_flag ''raft-addr'' ''127.0.0.1:8002'', string_flag ''join'' ''127.0.0.1:7002'']"

definition config_A :: Config where
  "config_A = InitDBConfig (flag_defaults
     \<lparr>f_addr := '':6380'', f_data_dir := ''./data'', f_maxmemory := ''1GB'', f_admin_addr := '':7002'', f_enable_raft := True,
      f_bootstrap := True, f_raft_id := ''node-8001'', f_raft_addr := ''127.0.0.1:8001''\<rparr>)"

definition config_B :: Config where
  "config_B = InitDBConfig (flag_defaults
     \<lparr>f_addr := '':6381'', f_data_dir := ''./data'', f_maxmemory := ''1GB'', f_admin_addr := '':7003'', f_enable_raft := True,
      f_raft_id := ''node-8002'', f_raft_addr := ''127.0.0.1:8002'', f_join := ''127.0.0.1:7002''\<rparr>)"

lemma terminals_parsed: "InitDBConfig_args terminal_A = Inr config_A" "InitDBConfig_args terminal_B = Inr config_B"
  by (simp_all only: InitDBConfig_args_def terminal_A_def terminal_B_def readme_node_def append_Cons append_Nil parse_declared parse_switches
      flag_Parse.simps(1) sum.case prod.case config_A_def config_B_def)

lemma readme_facts [simp]:
  "GetRaftId config_A = ''node-8001''" "GetRaftId config_B = ''node-8002''" "GetDataDir config_B = GetDataDir config_A" "EnableRaft config_B"
  by (simp_all add: config_A_def config_B_def InitDBConfig_def flag_defaults_def GetRaftId_def GetDataDir_def TrimSpace_printable printable_def)

section \<open>Properties\<close>

text \<open>
  C35. One data directory serves one node: once a node has installed its identity, every start on the same data
  directory with another \<^verbatim>\<open>--raft-id\<close> fails with the conflict of identities, before an address is resolved or a store is
  opened, whatever the other flags say. In particular the second command of the README's three-node cluster, which
  names the data directory of the first, is refused while the first node's identity is in place.
\<close>

theorem shared_directory_refused:
  assumes "persistRaftIdentity fails tmp n config adr fs = (None, states)" "last states (raftIdentityPath config) = Some s"
    and "GetRaftId config \<noteq> []" "valid_utf8 (GetRaftId config)" "TrimSpace adr \<noteq> []" "valid_utf8 (TrimSpace adr)"
    and "EnableRaft config'" "GetDataDir config' = GetDataDir config" "GetRaftId config' \<noteq> []" "GetRaftId config' \<noteq> GetRaftId config"
    and "open_file (se_disk env) (raftIdentityPath config) = Opened s EOF"
  shows "StartRaft env (Some config') None =
    \<lparr>errs = [IdentityError (IdConflict (GetRaftId config') (GetRaftId config))], running = None, config_after = Some config', trace = []\<rparr>"
proof -
  have "s = identity_text (identity_of config adr)" using persist_last [OF assms(1)] assms(2) by simp
  then have "load_identity s EOF config' = Inl (IdConflict (GetRaftId config') (GetRaftId config))"
    using other_identity_conflicts [OF assms(3-6,9,10)] by simp
  then show ?thesis
    using assms(7,11) same_identity_path [OF assms(8)] by (simp add: StartRaft_def resolveRaftIdentity_def)
qed

definition after_terminal_A :: start_env where
  "after_terminal_A = first_start
     \<lparr>se_disk := \<lparr>open_file = (\<lambda>_. Opened (identity_text (identity_of config_A ''127.0.0.1:8001'')) EOF),
        read_dir = (\<lambda>_. DirNotExist), stat_file = (\<lambda>_. StatNotExist)\<rparr>\<rparr>"

theorem shared_directory_refused_witness:
  "\<exists>a b. InitDBConfig_args terminal_A = Inr a \<and> InitDBConfig_args terminal_B = Inr b \<and>
    errs (StartRaft after_terminal_A (Some b) None) = [IdentityError (IdConflict ''node-8002'' ''node-8001'')]"
proof -
  let ?p = "persistRaftIdentity (\<lambda>_. None) ''t'' 0 config_A ''127.0.0.1:8001'' (\<lambda>_. None)"
  have p: "?p = (None, snd ?p)" by (simp add: persistRaftIdentity_def Let_def)
  have d: "open_file (se_disk after_terminal_A) (raftIdentityPath config_A) = Opened (identity_text (identity_of config_A ''127.0.0.1:8001'')) EOF"
    by (simp add: after_terminal_A_def)
  have "StartRaft after_terminal_A (Some config_B) None =
      \<lparr>errs = [IdentityError (IdConflict (GetRaftId config_B) (GetRaftId config_A))], running = None, config_after = Some config_B, trace = []\<rparr>"
    by (rule shared_directory_refused [OF p persist_last [OF p] _ _ _ _ _ _ _ _ d])
      (simp_all add: valid_ascii TrimSpace_printable printable_def)
  then show ?thesis by (simp add: terminals_parsed)
qed

end
