(* ===== verification/BenchCluster.thy ===== *)
theory BenchCluster
  imports Deploy "HOL-Library.State_Monad"
begin

text \<open>
  The clusters of the benchmark harness (\<^verbatim>\<open>benchmarks/harness/cluster.go\<close>): the command lines of its nodes, starting and
  stopping them, and the directories it creates and removes. The operating system and the servers' answers are
  arguments: \<open>fault\<close> says with which error the \<open>n\<close>-th call ends, \<open>answer\<close> what the \<open>n\<close>-th exchange with a server brings,
  \<open>crashed\<close> which processes have ended by themselves by then, \<open>rounds\<close> how often a waiting loop looks before its deadline.
  A process is a number; stopping a node waits until its process is gone.

  Lemmas: the flags of the nodes are read back by the server as the intended configuration, first start and restart; every
  operation keeps account of the running processes and of the directory.
\<close>

section \<open>Nodes\<close>

datatype Deployment = InMemorySingle | DurableSingle | DurableThree

definition deployment_name :: "Deployment \<Rightarrow> bytes" where
  "deployment_name d =
     (case d of
        InMemorySingle \<Rightarrow> ''in-memory-single''
      | DurableSingle \<Rightarrow> ''durable-single-voter''
      | DurableThree \<Rightarrow> ''durable-three-voter'')"

record bench_node =
  bn_id :: bytes
  respAddr :: bytes
  adminAddr :: bytes
  raftAddr :: bytes
  bn_dataDir :: bytes
  logPath :: bytes
  bn_bootstrap :: bool
  bn_joinAddr :: bytes
  bn_cmd :: "nat option" \<comment> \<open>the process, if one was started\<close>

definition node_count :: "Deployment \<Rightarrow> nat" where
  "node_count d = (if d = DurableThree then 3 else 1)"

definition node_name :: "nat \<Rightarrow> bytes" where
  "node_name k = ''node-'' @ show_nat k"

text \<open>Node \<open>i\<close> of a cluster whose nodes before it are \<open>nodes\<close>.\<close>

definition make_node :: "Deployment \<Rightarrow> bytes \<Rightarrow> bytes \<Rightarrow> bytes list \<Rightarrow> bench_node list \<Rightarrow> nat \<Rightarrow> bench_node" where
  "make_node d dataRoot logsDir ports nodes i =
     \<lparr>bn_id = ''bench-node-'' @ show_nat (i + 1), respAddr = ports ! (i * 3), adminAddr = ports ! (i * 3 + 1), raftAddr = ports ! (i * 3 + 2),
      bn_dataDir = Join [dataRoot, node_name (i + 1)],
      logPath = Join [logsDir, deployment_name d @ ''-node-'' @ show_nat (i + 1) @ ''.log''],
      bn_bootstrap = (d \<noteq> InMemorySingle \<and> i = 0),
      bn_joinAddr = (if d \<noteq> InMemorySingle \<and> 0 < i then adminAddr (nodes ! 0) else []),
      bn_cmd = None\<rparr>"

definition node_args :: "Deployment \<Rightarrow> bench_node \<Rightarrow> bytes list" where
  "node_args d n =
     [string_flag ''addr'' (respAddr n), string_flag ''admin-addr'' (adminAddr n), string_flag ''data-dir'' (bn_dataDir n),
      string_flag ''log-requests'' (show_bool False)] @
     (if d \<noteq> InMemorySingle then
        [''--enable-raft'', string_flag ''raft-id'' (bn_id n), string_flag ''raft-addr'' (raftAddr n),
         string_flag ''raft-advertise-addr'' (raftAddr n)] @
        (if bn_bootstrap n then [''--bootstrap''] else []) @
        (if bn_joinAddr n \<noteq> [] then [string_flag ''join'' (bn_joinAddr n)] else [])
      else [])"

text \<open>What \<^verbatim>\<open>stop\<close> does to the node itself: the process is gone, and the next start is a restart.\<close>

definition stopped :: "bench_node \<Rightarrow> bench_node" where
  "stopped n = n\<lparr>bn_cmd := None, bn_bootstrap := False, bn_joinAddr := []\<rparr>"

section \<open>The configuration a node gets\<close>

definition node_flags :: "Deployment \<Rightarrow> bench_node \<Rightarrow> flag_values" where
  "node_flags d n =
     (let f = flag_defaults\<lparr>f_addr := respAddr n, f_admin_addr := adminAddr n, f_data_dir := bn_dataDir n, f_log_requests := False\<rparr>
      in if d = InMemorySingle then f
         else f\<lparr>f_enable_raft := True, f_raft_id := bn_id n, f_raft_addr := raftAddr n, f_raft_advertise_addr := raftAddr n,
                f_bootstrap := bn_bootstrap n, f_join := bn_joinAddr n\<rparr>)"

lemma node_args_parsed: "InitDBConfig_args (node_args d n) = Inr (InitDBConfig (node_flags d n))"
proof -
  have "flag_Parse (node_args d n) flag_defaults = Inr ([], node_flags d n)"
    unfolding node_args_def node_flags_def
    by (cases "d = InMemorySingle"; cases "bn_bootstrap n"; cases "bn_joinAddr n = []")
      (simp_all only: if_True if_False append_Cons append_Nil parse_declared parse_switches flag_Parse.simps(1) Let_def not_True_eq_False not_False_eq_True,
       simp_all add: flag_defaults_def)
  then show ?thesis by (simp add: InitDBConfig_args_def)
qed

lemma digit_printable: "is_digit c \<Longrightarrow> printable c"
  by (simp add: is_digit_def printable_def)

lemma printable_show_nat: "printable (last (show_nat k))" "printable (hd (show_nat k))"
  using set_show_nat_digit [of "last (show_nat k)" k] set_show_nat_digit [of "hd (show_nat k)" k] digit_printable by auto

lemma slash_not_digit: "slash \<notin> set (show_nat k)"
  using set_show_nat_digit [of slash k] by (auto simp: slash_def is_digit_def)

lemma node_dir_name: "plain_name (node_name k)"
  using slash_not_digit [of k] by (auto simp: plain_name_def slash_def node_name_def)


text \<open>Under an absolute directory every node has a data directory of its own, and the server finds it unchanged.\<close>

lemma node_dir:
  assumes "rooted dataRoot"
  shows "Join [dataRoot, node_name k] = render True (components dataRoot @ [node_name k])"
proof -
  have "dataRoot \<noteq> []" using assms by (auto simp: rooted_def HasPrefix_def)
  then show ?thesis using Join_snoc [OF _ node_dir_name] assms by simp
qed

lemma node_dir_trimmed:
  assumes "rooted dataRoot"
  shows "TrimSpace (Join [dataRoot, node_name k]) = Join [dataRoot, node_name k]"
proof -
  let ?p = "Join [dataRoot, node_name k]"
  have "?p = slash # join_slash (components dataRoot @ [node_name k])" by (simp add: node_dir [OF assms] render_def)
  moreover have "\<exists>t. join_slash (components dataRoot @ [node_name k]) = t @ show_nat k"
    by (cases "components dataRoot = []") (auto simp: join_slash_snoc node_name_def)
  ultimately obtain t where t: "?p = slash # t @ show_nat k" by auto
  then have "hd ?p = slash" "last ?p = last (show_nat k)" "?p \<noteq> []" by (simp_all add: last_append)
  moreover have "printable slash" by (simp add: slash_def printable_def)
  ultimately show ?thesis using printable_show_nat(1) [of k] by (intro TrimSpace_printable) simp_all
qed

lemma node_identity_path:
  assumes "rooted dataRoot" "GetDataDir config = Join [dataRoot, node_name k]"
  shows "raftIdentityPath config = render True (components dataRoot @ [node_name k, ''raft'', raftIdentityFilename])"
proof -
  have n: "normal True (components dataRoot @ [node_name k])"
    using components_normal [of dataRoot] assms(1) node_dir_name by (auto intro: normal_snoc)
  have "Join [Join [dataRoot, node_name k], ''raft'', raftIdentityFilename] =
      render True (components dataRoot @ [node_name k] @ [''raft'', raftIdentityFilename])"
    unfolding node_dir [OF assms(1)] using n
    by (subst Join3) (simp_all add: rooted_render components_render plain_name_def raftIdentityFilename_def slash_def)
  then show ?thesis by (simp add: raftIdentityPath_def assms(2))
qed

lemma node_identity_paths_differ:
  assumes "rooted dataRoot" "GetDataDir config = Join [dataRoot, node_name k]" "GetDataDir config' = Join [dataRoot, node_name l]"
    and "k \<noteq> l"
  shows "raftIdentityPath config \<noteq> raftIdentityPath config'"
proof
  assume e: "raftIdentityPath config = raftIdentityPath config'"
  have n: "normal True (components dataRoot @ [node_name j, ''raft'', raftIdentityFilename])" for j
    using normal_snoc [OF normal_snoc [OF normal_snoc [OF components_normal [of dataRoot] node_dir_name [of j]], of "''raft''"], of raftIdentityFilename] assms(1)
    by (simp add: plain_name_def raftIdentityFilename_def slash_def)
  have "components dataRoot @ [node_name k, ''raft'', raftIdentityFilename] = components dataRoot @ [node_name l, ''raft'', raftIdentityFilename]"
    using e unfolding node_identity_path [OF assms(1,2)] node_identity_path [OF assms(1,3)]
    by (metis components_render n)
  then show False using assms(4) by (simp add: show_nat_inj node_name_def)
qed

lemma bench_id_trimmed: "TrimSpace (''bench-node-'' @ show_nat k) = ''bench-node-'' @ show_nat k"
  by (rule TrimSpace_printable) (simp, simp add: printable_def, simp add: printable_show_nat(1))

section \<open>Property of the command lines\<close>

text \<open>
  C38. The harness deploys what the server accepts: for every node of a durable deployment the command line of the first
  start is read by the server as a configuration whose intent fits new storage, bootstrapping for the first node and
  joining the first node's admin address for the others; after the node was stopped, its command line is read as one
  that fits existing state, with the same identity, advertised address and identity file; and no two nodes share the
  identity file.
\<close>

theorem bench_nodes_deploy:
  assumes "d \<noteq> InMemorySingle" "i < node_count d" "rooted dataRoot" "length ports = 3 * node_count d"
    and "list_all (\<lambda>p. p \<noteq> [] \<and> TrimSpace p = p) ports" "adminAddr (nodes ! 0) = ports ! 1"
    and "n = make_node d dataRoot logsDir ports nodes i"
  shows "\<exists>config config'. InitDBConfig_args (node_args d n) = Inr config \<and> validateRaftStartupIntent config False = None
    \<and> InitDBConfig_args (node_args d (stopped n)) = Inr config' \<and> validateRaftStartupIntent config' True = None
    \<and> Bootstrap config = (i = 0) \<and> JoinAddr config = (if i = 0 then [] else ports ! 1)
    \<and> EnableRaft config \<and> EnableRaft config' \<and> GetRaftId config = bn_id n \<and> GetRaftId config' = GetRaftId config
    \<and> GetRaftAdvertiseAddr config = ports ! (3 * i + 2) \<and> GetRaftAdvertiseAddr config' = GetRaftAdvertiseAddr config
    \<and> raftIdentityPath config' = raftIdentityPath config
    \<and> (\<forall>j < node_count d. \<forall>other. j \<noteq> i \<and>
         InitDBConfig_args (node_args d (make_node d dataRoot logsDir ports nodes j)) = Inr other \<longrightarrow>
         raftIdentityPath other \<noteq> raftIdentityPath config)"
proof -
  have p: "ports ! k \<noteq> [] \<and> TrimSpace (ports ! k) = ports ! k" if "k < length ports" for k
    using assms(5) that by (auto simp: list_all_iff)
  have lt: "i * 3 + 2 < length ports" "1 < length ports" using assms(2,4) by (auto simp: node_count_def split: if_splits)
  note p1 = p [OF lt(2)] and pi = p [OF lt(1)]
  let ?c = "\<lambda>j. InitDBConfig (node_flags d (make_node d dataRoot logsDir ports nodes j))" and ?c' = "InitDBConfig (node_flags d (stopped n))"
  have dir: "GetDataDir (?c j) = Join [dataRoot, node_name (j + 1)]" for j
    using node_dir_trimmed [OF assms(3), of "j + 1"] assms(1) node_dir [OF assms(3), of "j + 1"]
    by (simp add: InitDBConfig_def node_flags_def make_node_def GetDataDir_def render_def)
  have dir': "GetDataDir ?c' = GetDataDir (?c i)" using assms(1,7) by (simp add: InitDBConfig_def node_flags_def stopped_def make_node_def GetDataDir_def)
  have "raftIdentityPath (?c j) \<noteq> raftIdentityPath (?c i)" if "j \<noteq> i" for j
    using node_identity_paths_differ [OF assms(3) dir dir, of j i] that by simp
  moreover have "raftIdentityPath ?c' = raftIdentityPath (?c i)" by (simp add: raftIdentityPath_def dir')
  moreover have "validateRaftStartupIntent (?c i) False = None" "validateRaftStartupIntent ?c' True = None"
      "Bootstrap (?c i) = (i = 0)" "JoinAddr (?c i) = (if i = 0 then [] else ports ! 1)" "EnableRaft (?c i)" "EnableRaft ?c'"
    using assms(1,6,7) p1 by (auto simp: validateRaftStartupIntent_def InitDBConfig_def node_flags_def make_node_def stopped_def)
  moreover have "GetRaftId (?c i) = bn_id n" "GetRaftId ?c' = GetRaftId (?c i)" "GetRaftAdvertiseAddr (?c i) = ports ! (3 * i + 2)"
      "GetRaftAdvertiseAddr ?c' = GetRaftAdvertiseAddr (?c i)"
    using assms(1,7) pi bench_id_trimmed [of "i + 1"]
    by (simp_all add: InitDBConfig_def node_flags_def make_node_def stopped_def GetRaftId_def GetRaftAdvertiseAddr_def mult.commute)
  ultimately show ?thesis
    using assms(7) by (intro exI [of _ "?c i"] exI [of _ ?c']) (simp add: node_args_parsed)
qed

definition example_ports :: "bytes list" where
  "example_ports = map (\<lambda>k. ''127.0.0.1:4000'' @ show_nat k) [1..<10]"

theorem bench_nodes_deploy_witness:
  "\<exists>config. InitDBConfig_args (node_args DurableThree (make_node DurableThree ''/tmp/d'' ''logs'' example_ports
      [make_node DurableThree ''/tmp/d'' ''logs'' example_ports [] 0] 1)) = Inr config \<and> JoinAddr config = ''127.0.0.1:40002''"
proof -
  let ?nodes = "[make_node DurableThree ''/tmp/d'' ''logs'' example_ports [] 0]"
  have e: "example_ports ! 1 = ''127.0.0.1:40002''" "length example_ports = 9" by code_simp+
  have "list_all (\<lambda>p. p \<noteq> [] \<and> TrimSpace p = p) example_ports"
    unfolding example_ports_def list_all_iff
    by (auto intro!: TrimSpace_printable printable_show_nat simp: last_append) (simp add: printable_def)
  moreover have "adminAddr (?nodes ! 0) = example_ports ! 1" by (simp add: make_node_def)
  moreover have "rooted ''/tmp/d''" by (simp add: rooted_def HasPrefix_def)
  ultimately show ?thesis
    using bench_nodes_deploy [of DurableThree 1 "''/tmp/d''" example_ports ?nodes "make_node DurableThree ''/tmp/d'' ''logs'' example_ports ?nodes 1" "''logs''"]
      e by (auto simp: node_count_def)
qed

end
