(* ===== verification/BenchRun.thy ===== *)
theory BenchRun
  imports BenchCluster
begin

text \<open>
  A run of the benchmark harness (\<^verbatim>\<open>benchmarks/harness/run.go\<close>, \<^verbatim>\<open>cluster.go\<close>, \<^verbatim>\<open>profile.go\<close>): clusters are started, measured,
  taken through snapshot and recovery scenarios and torn down, and the results are published after each step. The code threads
  its effects through many calls, so it is written in the state monad; the state is what the run leaves in the world: the
  live processes, the data directories, the published metrics. What the operating system and the servers do is an argument.

  Lemmas: every operation keeps the account of a cluster, the processes it has started and its data directory; stopping and
  cleaning up settle it. The measurements themselves (\<^verbatim>\<open>executeWorkload\<close>) are an argument as well: they only
  talk to servers.
\<close>

section \<open>Profiles\<close>

record Workload =
  wl_name :: bytes
  GetPercent :: int
  SetPercent :: int
  ValueSize :: int

record Profile =
  pr_name :: bytes
  Deployments :: "Deployment list"
  Workloads :: "Workload list"
  Scenarios :: bool

definition full_profile :: Profile where
  "full_profile =
     \<lparr>pr_name = ''full'', Deployments = [InMemorySingle, DurableSingle, DurableThree],
      Workloads = concat (map (\<lambda>(name, get). map (\<lambda>size. \<lparr>wl_name = name, GetPercent = get, SetPercent = 100 - get, ValueSize = size\<rparr>)
          [64, 1024, 16 * 1024]) [(''get100'', 100), (''set100'', 0), (''get95-set5'', 95), (''get50-set50'', 50)]),
      Scenarios = True\<rparr>"

definition ResolveProfile :: "bytes \<Rightarrow> bytes + Profile" where
  "ResolveProfile name =
     (if name = ''full'' then Inr full_profile
      else if name = ''smoke'' then
        Inr \<lparr>pr_name = ''smoke'', Deployments = Deployments full_profile,
             Workloads = [\<lparr>wl_name = ''get95-set5'', GetPercent = 95, SetPercent = 5, ValueSize = 64\<rparr>], Scenarios = True\<rparr>
      else Inl name)"

record Options =
  op_profile :: bytes
  ResultsRoot :: bytes
  ServerBinary :: bytes
  BuildCommand :: bytes
  Duration :: int
  Warmup :: int
  Concurrency :: int
  PipelineDepth :: int
  op_seed :: int
  KeepData :: bool

definition setDefaults :: "Options \<Rightarrow> Options" where
  "setDefaults opts = opts
     \<lparr>op_profile := (if op_profile opts = [] then ''smoke'' else op_profile opts),
      ResultsRoot := (if ResultsRoot opts = [] then ''benchmarks/results'' else ResultsRoot opts),
      ServerBinary := (if ServerBinary opts = [] then ''./skiffdb-server'' else ServerBinary opts),
      BuildCommand := (if BuildCommand opts = [] then ''go build -o ./skiffdb-server .'' else BuildCommand opts),
      Duration := (if Duration opts \<le> 0 then 2 * 1000000000 else Duration opts),
      Warmup := max 0 (Warmup opts),
      Concurrency := (if Concurrency opts \<le> 0 then 4 else Concurrency opts),
      PipelineDepth := (if PipelineDepth opts \<le> 0 then 1 else PipelineDepth opts),
      op_seed := (if op_seed opts = 0 then 1 else op_seed opts)\<rparr>"

section \<open>The world\<close>

record ProcessMetrics =
  pm_node :: bytes
  pm_process :: "nat option" \<comment> \<open>\<open>None\<close>: the process was not running\<close>

record Metrics =
  Completed :: bool
  run_error :: bytes
  run_workloads :: "(Deployment \<times> Workload) list"
  run_scenarios :: "bytes list" \<comment> \<open>the scenarios that have a result\<close>
  run_processes :: "ProcessMetrics list"

record bench_env =
  fault :: "nat \<Rightarrow> bytes option" \<comment> \<open>the error with which call \<open>n\<close> of the operating system ends\<close>
  answer :: "nat \<Rightarrow> bytes option" \<comment> \<open>the reply that exchange \<open>n\<close> with a server brings, if it succeeds\<close>
  crashed :: "nat \<Rightarrow> nat set" \<comment> \<open>processes that have ended by themselves by call \<open>n\<close>\<close>
  rounds :: "nat \<Rightarrow> nat" \<comment> \<open>how often a loop that starts at call \<open>n\<close> looks before its deadline\<close>
  measured :: "nat \<Rightarrow> bytes option \<times> bytes option" \<comment> \<open>the errors of the hook and of the workload measured at call \<open>n\<close>\<close>
  tempDir :: bytes
  suffix :: "nat \<Rightarrow> bytes" \<comment> \<open>digits from the random generator or the clock, as of call \<open>n\<close>\<close>
  free_ports :: "nat \<Rightarrow> bytes list"
  result_name :: bytes \<comment> \<open>the name of the result directory, from the time and the commit\<close>

record bench_world =
  calls :: nat
  live :: "nat set"
  dirs :: "bytes set" \<comment> \<open>data directories created\<close>
  swept :: "bytes set" \<comment> \<open>directories given to \<^verbatim>\<open>os.RemoveAll\<close>\<close>
  published :: "Metrics option" \<comment> \<open>\<^verbatim>\<open>metrics.json\<close>\<close>

type_synonym 'a bench = "(bench_world, 'a) state"

definition tick :: "bench_env \<Rightarrow> nat bench" where
  "tick env = State (\<lambda>w. (calls w, w\<lparr>calls := Suc (calls w), live := live w - crashed env (calls w)\<rparr>))"

definition os_call :: "bench_env \<Rightarrow> bytes option bench" where
  "os_call env = do { n \<leftarrow> tick env; State_Monad.return (fault env n) }"

definition exchange :: "bench_env \<Rightarrow> bytes option bench" where
  "exchange env = do { n \<leftarrow> tick env; State_Monad.return (answer env n) }"

text \<open>\<^verbatim>\<open>if err := m; err != nil { return fail(err) }\<close>\<close>

definition proceed :: "bytes option bench \<Rightarrow> (bytes \<Rightarrow> 'a bench) \<Rightarrow> 'a bench \<Rightarrow> 'a bench" where
  "proceed m fail k = do { r \<leftarrow> m; case r of Some err \<Rightarrow> fail err | None \<Rightarrow> k }"

abbreviation stopping :: "'a \<Rightarrow> bytes \<Rightarrow> (bytes option \<times> 'a) bench" where
  "stopping x \<equiv> \<lambda>err. State_Monad.return (Some err, x)"

section \<open>Nodes and clusters\<close>

record bench_cluster =
  deployment :: Deployment
  dataRoot :: bytes
  nodes :: "bench_node list"
  metrics :: "ProcessMetrics list"
  keepData :: bool

definition spawn :: "bench_env \<Rightarrow> (bytes + nat) bench" where
  "spawn env = State (\<lambda>w. case fault env (calls w) of
       Some err \<Rightarrow> run_state (do { n \<leftarrow> tick env; State_Monad.return (Inl err) }) w
     | None \<Rightarrow> (case run_state (tick env) w of (n, w') \<Rightarrow> (Inr n, w'\<lparr>live := insert n (live w')\<rparr>)))"

definition node_start :: "bench_env \<Rightarrow> bench_node \<Rightarrow> (bytes option \<times> bench_node) bench" where
  "node_start env n =
     (if bn_cmd n \<noteq> None then State_Monad.return (Some ''node is already running'', n)
      else
        proceed (os_call env) (stopping n) (\<comment> \<open>the data directory\<close>
        proceed (os_call env) (stopping n) (\<comment> \<open>the directory of the log\<close>
        proceed (os_call env) (stopping n) (\<comment> \<open>the log\<close>
        do {
          r \<leftarrow> spawn env;
          State_Monad.return (case r of Inl err \<Rightarrow> (Some err, n) | Inr pid \<Rightarrow> (None, n\<lparr>bn_cmd := Some pid\<rparr>))
        }))))"

definition node_stop :: "bench_env \<Rightarrow> bench_node \<Rightarrow> (ProcessMetrics \<times> bench_node) bench" where
  "node_stop env n =
     (case bn_cmd n of
        None \<Rightarrow> State_Monad.return (\<lparr>pm_node = bn_id n, pm_process = None\<rparr>, n)
      | Some pid \<Rightarrow> do {
          _ \<leftarrow> tick env;
          State (\<lambda>w. ((), w\<lparr>live := live w - {pid}\<rparr>)); \<comment> \<open>interrupted or killed, and waited for\<close>
          State_Monad.return (\<lparr>pm_node = bn_id n, pm_process = Some pid\<rparr>, stopped n)
        })"

fun stop_running :: "bench_env \<Rightarrow> bench_node list \<Rightarrow> (ProcessMetrics list \<times> bench_node list) bench" where
  "stop_running env [] = State_Monad.return ([], [])"
| "stop_running env (n # ns) =
     (if bn_cmd n = None then do {
        (ms, ns') \<leftarrow> stop_running env ns;
        State_Monad.return (ms, n # ns')
      }
      else do {
        (m, n') \<leftarrow> node_stop env n;
        (ms, ns') \<leftarrow> stop_running env ns;
        State_Monad.return (m # ms, n' # ns')
      })"

definition stopAll :: "bench_env \<Rightarrow> bench_cluster \<Rightarrow> bench_cluster bench" where
  "stopAll env c = do {
     (ms, ns) \<leftarrow> stop_running env (nodes c);
     State_Monad.return (c\<lparr>nodes := ns, metrics := metrics c @ ms\<rparr>)
   }"

definition stopNode :: "bench_env \<Rightarrow> nat \<Rightarrow> bench_cluster \<Rightarrow> (bytes option \<times> bench_cluster) bench" where
  "stopNode env i c =
     (if length (nodes c) \<le> i then State_Monad.return (Some ''node index out of range'', c)
      else do {
        (m, n) \<leftarrow> node_stop env (nodes c ! i);
        State_Monad.return (None, c\<lparr>nodes := (nodes c)[i := n], metrics := metrics c @ [m]\<rparr>)
      })"

definition cleanupData :: "bench_env \<Rightarrow> bench_cluster \<Rightarrow> unit bench" where
  "cleanupData env c =
     (if keepData c then State_Monad.return ()
      else
        (let clean = Clean (dataRoot c); temp = Clean (tempDir env) in
         if Dir clean = temp \<and> HasPrefix (Base clean) ''skiffdb-bench-data-'' then
           State (\<lambda>w. ((), w\<lparr>swept := insert clean (swept w)\<rparr>))
         else State_Monad.return ()))"

section \<open>Waiting and probing\<close>

fun wait_pong :: "bench_env \<Rightarrow> nat \<Rightarrow> bytes option bench" where
  "wait_pong env 0 = State_Monad.return (Some ''RESP endpoint not ready'')"
| "wait_pong env (Suc k) = do {
     r \<leftarrow> exchange env;
     case r of
       Some response \<Rightarrow> if HasPrefix response ''+PONG'' then State_Monad.return None else wait_pong env k
     | None \<Rightarrow> wait_pong env k
   }"

definition waitForRESP :: "bench_env \<Rightarrow> bytes option bench" where
  "waitForRESP env = do { n \<leftarrow> tick env; wait_pong env (rounds env n) }"

text \<open>One round over the nodes with a process: the position of the first that accepts a write.\<close>

fun probe_from :: "bench_env \<Rightarrow> nat \<Rightarrow> bench_node list \<Rightarrow> nat option bench" where
  "probe_from env i [] = State_Monad.return None"
| "probe_from env i (n # ns) =
     (if bn_cmd n = None then probe_from env (Suc i) ns
      else do {
        r \<leftarrow> exchange env;
        case r of
          Some response \<Rightarrow> if HasPrefix response ''+OK'' then State_Monad.return (Some i) else probe_from env (Suc i) ns
        | None \<Rightarrow> probe_from env (Suc i) ns
      })"

definition findLeader :: "bench_env \<Rightarrow> bench_node list \<Rightarrow> (bytes + nat) bench" where
  "findLeader env ns = do {
     r \<leftarrow> probe_from env 0 ns;
     State_Monad.return (case r of None \<Rightarrow> Inl ''no writable leader found'' | Some i \<Rightarrow> Inr i)
   }"

fun wait_writable :: "bench_env \<Rightarrow> bench_node list \<Rightarrow> nat \<Rightarrow> bytes option bench" where
  "wait_writable env ns 0 = State_Monad.return (Some ''timed out waiting for a writable Raft leader'')"
| "wait_writable env ns (Suc k) = do {
     r \<leftarrow> probe_from env 0 ns;
     case r of None \<Rightarrow> wait_writable env ns k | Some i \<Rightarrow> State_Monad.return None
   }"

definition waitForWritable :: "bench_env \<Rightarrow> bench_node list \<Rightarrow> bytes option bench" where
  "waitForWritable env ns = do { n \<leftarrow> tick env; wait_writable env ns (rounds env n) }"

fun wait_value :: "bench_env \<Rightarrow> bytes \<Rightarrow> nat \<Rightarrow> bytes option bench" where
  "wait_value env want 0 = State_Monad.return (Some ''timed out waiting for key'')"
| "wait_value env want (Suc k) = do {
     r \<leftarrow> exchange env;
     case r of
       Some response \<Rightarrow>
         if Contains response (Separator @ want @ Separator) then State_Monad.return None else wait_value env want k
     | None \<Rightarrow> wait_value env want k
   }"

definition waitForValue :: "bench_env \<Rightarrow> bytes \<Rightarrow> bytes option bench" where
  "waitForValue env want = do { n \<leftarrow> tick env; wait_value env want (rounds env n) }"

text \<open>A command whose reply has to be \<^verbatim>\<open>+OK\<close>.\<close>

definition command_ok :: "bench_env \<Rightarrow> bytes option bench" where
  "command_ok env = do {
     r \<leftarrow> exchange env;
     State_Monad.return (case r of
         Some response \<Rightarrow> if HasPrefix response ''+OK'' then None else Some response
       | None \<Rightarrow> Some ''exchange failed'')
   }"

definition restartNode :: "bench_env \<Rightarrow> nat \<Rightarrow> bench_cluster \<Rightarrow> (bytes option \<times> bench_cluster) bench" where
  "restartNode env i c =
     (if length (nodes c) \<le> i then State_Monad.return (Some ''node index out of range'', c)
      else do {
        (r, n) \<leftarrow> node_start env (nodes c ! i);
        case r of
          Some err \<Rightarrow> State_Monad.return (Some err, c)
        | None \<Rightarrow> do {
            r' \<leftarrow> waitForRESP env;
            State_Monad.return (r', c\<lparr>nodes := (nodes c)[i := n]\<rparr>)
          }
      })"


definition temp_path :: "bench_env \<Rightarrow> nat \<Rightarrow> bytes" where
  \<comment> \<open>the name \<^verbatim>\<open>os.MkdirTemp\<close> makes\<close>
  "temp_path env n =
     (if last (tempDir env) = slash then tempDir env else tempDir env @ [slash]) @ ''skiffdb-bench-data-'' @ suffix env n"

definition make_temp :: "bench_env \<Rightarrow> (bytes + bytes) bench" where
  "make_temp env = do {
     n \<leftarrow> tick env;
     case fault env n of
       Some err \<Rightarrow> State_Monad.return (Inl err)
     | None \<Rightarrow> do {
         State (\<lambda>w. ((), w\<lparr>dirs := insert (Clean (temp_path env n)) (dirs w)\<rparr>));
         State_Monad.return (Inr (temp_path env n))
       }
   }"

fun start_nodes :: "bench_env \<Rightarrow> bytes \<Rightarrow> bytes list \<Rightarrow> nat list \<Rightarrow> bench_cluster \<Rightarrow> (bytes option \<times> bench_cluster) bench" where
  "start_nodes env logsDir ports [] c = State_Monad.return (None, c)"
| "start_nodes env logsDir ports (i # is') c = do {
     (r, n) \<leftarrow> node_start env (make_node (deployment c) (dataRoot c) logsDir ports (nodes c) i);
     let c' = c\<lparr>nodes := nodes c @ [n]\<rparr>;
     case r of
       Some err \<Rightarrow> State_Monad.return (Some err, c')
     | None \<Rightarrow>
         proceed (waitForRESP env) (stopping c') (
         proceed (if i = 0 \<and> deployment c \<noteq> InMemorySingle then waitForWritable env [n] else State_Monad.return None) (stopping c') (
         start_nodes env logsDir ports is' c'))
   }"

text \<open>Stopping a cluster and removing its data, as on every early exit.\<close>

definition tear_down :: "bench_env \<Rightarrow> bench_cluster \<Rightarrow> unit bench" where
  "tear_down env c = do { c' \<leftarrow> stopAll env c; cleanupData env c' }"

definition startCluster :: "bench_env \<Rightarrow> Deployment \<Rightarrow> bytes \<Rightarrow> bool \<Rightarrow> (bytes + bench_cluster) bench" where
  "startCluster env d logsDir keep = do {
     r \<leftarrow> make_temp env;
     case r of
       Inl err \<Rightarrow> State_Monad.return (Inl err)
     | Inr root \<Rightarrow> do {
         let c = \<lparr>deployment = d, dataRoot = root, nodes = [], metrics = [], keepData = keep\<rparr>;
         n \<leftarrow> tick env;
         case fault env n of
           Some err \<Rightarrow> do { tear_down env c; State_Monad.return (Inl err) }
         | None \<Rightarrow> do {
             (r, c1) \<leftarrow> start_nodes env logsDir (free_ports env n) [0..<node_count d] c;
             case r of
               Some err \<Rightarrow> do { tear_down env c1; State_Monad.return (Inl err) }
             | None \<Rightarrow> do {
                 r \<leftarrow> waitForWritable env (nodes c1);
                 case r of
                   Some err \<Rightarrow> do { tear_down env c1; State_Monad.return (Inl err) }
                 | None \<Rightarrow> State_Monad.return (Inr c1)
               }
           }
       }
   }"

section \<open>Results\<close>

text \<open>\<^verbatim>\<open>metadata.json\<close> and \<^verbatim>\<open>metrics.json\<close> are written to a temporary file and renamed, then the summary is written.\<close>

definition publish :: "bench_env \<Rightarrow> Metrics \<Rightarrow> bytes option bench" where
  "publish env m = do {
     r \<leftarrow> os_call env;
     case r of
       Some err \<Rightarrow> State_Monad.return (Some err)
     | None \<Rightarrow> do { State (\<lambda>w. ((), w\<lparr>published := Some m\<rparr>)); State_Monad.return None }
   }"

definition persistBundle :: "bench_env \<Rightarrow> Metrics \<Rightarrow> bytes option bench" where
  "persistBundle env m =
     (let fail = (\<lambda>err. State_Monad.return (Some err)) in
      proceed (os_call env) fail (proceed (os_call env) fail (
      proceed (os_call env) fail (proceed (publish env m) fail (os_call env)))))"

definition failBundle :: "bench_env \<Rightarrow> Metrics \<Rightarrow> bytes \<Rightarrow> (bytes option \<times> Metrics) bench" where
  "failBundle env m err = do {
     _ \<leftarrow> persistBundle env (m\<lparr>run_error := err\<rparr>);
     State_Monad.return (Some err, m\<lparr>run_error := err\<rparr>)
   }"

section \<open>The measurements of one deployment\<close>

datatype run_stop = PersistFailed bytes | RunFailed bytes

fun measure_all :: "bench_env \<Rightarrow> Deployment \<Rightarrow> Workload list \<Rightarrow> Metrics \<Rightarrow> (run_stop option \<times> Metrics) bench" where
  "measure_all env d [] m = State_Monad.return (None, m)"
| "measure_all env d (wl # wls) m = do {
     n \<leftarrow> tick env;
     let m' = m\<lparr>run_workloads := run_workloads m @ [(d, wl)]\<rparr>;
     r \<leftarrow> persistBundle env m';
     case r of
       Some err \<Rightarrow> State_Monad.return (Some (PersistFailed err), m')
     | None \<Rightarrow>
         (case snd (measured env n) of
            Some err \<Rightarrow> State_Monad.return (Some (RunFailed err), m')
          | None \<Rightarrow> measure_all env d wls m')
   }"

definition run_deployment :: "bench_env \<Rightarrow> bytes \<Rightarrow> bool \<Rightarrow> Workload list \<Rightarrow> Deployment \<Rightarrow> Metrics \<Rightarrow> (run_stop option \<times> Metrics) bench" where
  "run_deployment env logsDir keep wls d m = do {
     r \<leftarrow> startCluster env d logsDir keep;
     case r of
       Inl err \<Rightarrow> State_Monad.return (Some (RunFailed err), m)
     | Inr c \<Rightarrow> do {
         r \<leftarrow> persistBundle env m;
         case r of
           Some err \<Rightarrow> do { tear_down env c; State_Monad.return (Some (PersistFailed err), m) }
         | None \<Rightarrow> do {
             l \<leftarrow> findLeader env (nodes c);
             case (if d = InMemorySingle then Inr 0 else l) of
               Inl err \<Rightarrow> do { tear_down env c; State_Monad.return (Some (RunFailed err), m) }
             | Inr leader \<Rightarrow> do {
                 (r, m1) \<leftarrow> measure_all env d wls m;
                 case r of
                   Some e \<Rightarrow> do { tear_down env c; State_Monad.return (Some e, m1) }
                 | None \<Rightarrow> do {
                     c' \<leftarrow> stopAll env c;
                     let m2 = m1\<lparr>run_processes := run_processes m1 @ metrics c'\<rparr>;
                     cleanupData env c';
                     r \<leftarrow> persistBundle env m2;
                     State_Monad.return (map_option PersistFailed r, m2)
                   }
               }
           }
       }
   }"

fun run_deployments :: "bench_env \<Rightarrow> bytes \<Rightarrow> bool \<Rightarrow> Workload list \<Rightarrow> Deployment list \<Rightarrow> Metrics \<Rightarrow> (run_stop option \<times> Metrics) bench" where
  "run_deployments env logsDir keep wls [] m = State_Monad.return (None, m)"
| "run_deployments env logsDir keep wls (d # ds) m = do {
     (r, m') \<leftarrow> run_deployment env logsDir keep wls d m;
     case r of Some e \<Rightarrow> State_Monad.return (Some e, m') | None \<Rightarrow> run_deployments env logsDir keep wls ds m'
   }"


section \<open>Scenarios\<close>

type_synonym stage = "bench_cluster \<Rightarrow> Metrics \<Rightarrow> (bytes option \<times> bench_cluster \<times> Metrics) bench"

definition and_then :: "stage \<Rightarrow> stage \<Rightarrow> stage" where
  "and_then f g c m = do {
     (r, c', m') \<leftarrow> f c m;
     case r of Some err \<Rightarrow> State_Monad.return (Some err, c', m') | None \<Rightarrow> g c' m'
   }"

text \<open>A recorded scenario: the result is added and published, then its error is looked at.\<close>

definition record_scenario :: "bench_env \<Rightarrow> bytes list \<Rightarrow> bytes option \<Rightarrow> stage" where
  "record_scenario env names e c m = do {
     let m' = m\<lparr>run_scenarios := run_scenarios m @ names\<rparr>;
     r \<leftarrow> persistBundle env m';
     State_Monad.return (case r of Some err \<Rightarrow> Some err | None \<Rightarrow> e, c, m')
   }"

definition with_leader :: "bench_env \<Rightarrow> (nat \<Rightarrow> stage) \<Rightarrow> stage" where
  "with_leader env f c m = do {
     l \<leftarrow> findLeader env (nodes c);
     case l of Inl err \<Rightarrow> State_Monad.return (Some err, c, m) | Inr leader \<Rightarrow> f leader c m
   }"

definition on_cluster :: "(bench_cluster \<Rightarrow> (bytes option \<times> bench_cluster) bench) \<Rightarrow> stage" where
  "on_cluster f c m = do { (r, c') \<leftarrow> f c; State_Monad.return (r, c', m) }"

definition ensure :: "bytes option bench \<Rightarrow> stage" where
  "ensure f c m = do { r \<leftarrow> f; State_Monad.return (r, c, m) }"

definition describe_stage :: "bench_env \<Rightarrow> stage" where
  "describe_stage env c m = do { r \<leftarrow> persistBundle env m; State_Monad.return (r, c, m) }"

definition snapshot_workload :: Workload where
  "snapshot_workload = \<lparr>wl_name = ''snapshot-under-load-get95-set5'', GetPercent = 95, SetPercent = 5, ValueSize = 1024\<rparr>"

definition snapshot_stage :: "bench_env \<Rightarrow> stage" where
  "snapshot_stage env = with_leader env (\<lambda>leader c m. do {
     n \<leftarrow> tick env; \<comment> \<open>the workload, with \<^verbatim>\<open>SAVE\<close> as its hook\<close>
     record_scenario env [''snapshot_under_load'']
       (case snd (measured env n) of Some err \<Rightarrow> Some err | None \<Rightarrow> fst (measured env n))
       c (m\<lparr>run_workloads := run_workloads m @ [(DurableThree, snapshot_workload)]\<rparr>)
   })"

definition catchup_stage :: "bench_env \<Rightarrow> stage" where
  "catchup_stage env = with_leader env (\<lambda>leader.
     let follower = (if leader = 0 then 1 else 0) in
     and_then (on_cluster (stopNode env follower)) (\<lambda>c m. do {
       n \<leftarrow> tick env; \<comment> \<open>the marker is the time\<close>
       and_then (ensure (command_ok env)) (
       and_then (on_cluster (restartNode env follower)) (\<lambda>c m. do {
         e \<leftarrow> waitForValue env (suffix env n);
         record_scenario env [''follower_catchup''] e c m
       })) c m
     }))"

definition failover_stage :: "bench_env \<Rightarrow> stage" where
  "failover_stage env = with_leader env (\<lambda>leader.
     and_then (on_cluster (stopNode env leader)) (
     and_then (\<lambda>c m. do {
       e \<leftarrow> waitForWritable env (nodes c);
       record_scenario env [''leader_failover''] e c m
     }) (
     and_then (on_cluster (restartNode env leader)) (\<lambda>c. ensure (waitForWritable env (nodes c)) c))))"

fun restart_all :: "bench_env \<Rightarrow> nat list \<Rightarrow> bench_cluster \<Rightarrow> (bytes option \<times> bench_cluster) bench" where
  "restart_all env [] c = State_Monad.return (None, c)"
| "restart_all env (i # is') c = do {
     (r, c') \<leftarrow> restartNode env i c;
     case r of Some err \<Rightarrow> State_Monad.return (Some err, c') | None \<Rightarrow> restart_all env is' c'
   }"

fun wait_values :: "bench_env \<Rightarrow> bench_node list \<Rightarrow> bytes option bench" where
  "wait_values env [] = State_Monad.return None"
| "wait_values env (n # ns) =
     (let fail = (\<lambda>err. State_Monad.return (Some err)) in
      proceed (waitForValue env ''captured'') fail (
      proceed (waitForValue env ''replayed'') fail (wait_values env ns)))"

definition restart_stage :: "bench_env \<Rightarrow> stage" where
  "restart_stage env = with_leader env (\<lambda>leader.
     and_then (ensure (command_ok env)) (
     and_then (ensure (command_ok env)) (
     and_then (ensure (command_ok env)) (
     and_then (\<lambda>c m. do { c' \<leftarrow> stopAll env c; State_Monad.return (None, c', m) }) (
     and_then (\<lambda>c. on_cluster (restart_all env [0..<length (nodes c)]) c) (\<lambda>c m. do {
       e \<leftarrow> proceed (waitForWritable env (nodes c)) (\<lambda>err. State_Monad.return (Some err)) (wait_values env (nodes c));
       c' \<leftarrow> stopAll env c;
       cleanupData env c';
       record_scenario env [''snapshot_plus_log_replay'', ''full_cluster_restart''] e c'
         (m\<lparr>run_processes := run_processes m @ metrics c'\<rparr>)
     }))))))"

definition runScenarios :: "bench_env \<Rightarrow> bytes \<Rightarrow> bool \<Rightarrow> Metrics \<Rightarrow> (bytes option \<times> Metrics) bench" where
  "runScenarios env logsDir keep m = do {
     r \<leftarrow> startCluster env DurableThree logsDir keep;
     case r of
       Inl err \<Rightarrow> State_Monad.return (Some err, m)
     | Inr c \<Rightarrow> do {
         (r, c', m') \<leftarrow> and_then (describe_stage env) (and_then (snapshot_stage env) (and_then (catchup_stage env)
            (and_then (failover_stage env) (restart_stage env)))) c m;
         tear_down env c';
         State_Monad.return (r, m')
       }
   }"

section \<open>A run\<close>

definition empty_metrics :: Metrics where
  "empty_metrics = \<lparr>Completed = False, run_error = [], run_workloads = [], run_scenarios = [], run_processes = []\<rparr>"

text \<open>The result is the bundle's metrics, unless the run ends before there is a bundle, and the error.\<close>

definition run_profile :: "bench_env \<Rightarrow> bytes \<Rightarrow> bool \<Rightarrow> Profile \<Rightarrow> (bytes option \<times> Metrics) bench" where
  "run_profile env logsDir keep profile = do {
     (r, m) \<leftarrow> run_deployments env logsDir keep (Workloads profile) (Deployments profile) empty_metrics;
     case r of
       Some (PersistFailed err) \<Rightarrow> State_Monad.return (Some err, m)
     | Some (RunFailed err) \<Rightarrow> failBundle env m err
     | None \<Rightarrow> do {
         (r, m') \<leftarrow> if Scenarios profile then runScenarios env logsDir keep m else State_Monad.return (None, m);
         case r of
           Some err \<Rightarrow> failBundle env m' err
         | None \<Rightarrow> do {
             let m'' = m'\<lparr>Completed := True, run_error := []\<rparr>;
             r \<leftarrow> persistBundle env m'';
             State_Monad.return (r, m'')
           }
       }
   }"

definition Run :: "bench_env \<Rightarrow> Options \<Rightarrow> (bytes option \<times> Metrics option) bench" where
  "Run env options =
     (let opts = setDefaults options; none = (\<lambda>err. State_Monad.return (Some err, None)); m = empty_metrics;
          failed = (\<lambda>err. do { (e, m') \<leftarrow> failBundle env m err; State_Monad.return (e, Some m') })
      in case ResolveProfile (op_profile opts) of
           Inl err \<Rightarrow> none err
         | Inr profile \<Rightarrow>
             proceed (os_call env) none ( \<comment> \<open>the two git commands, the result directory\<close>
             proceed (os_call env) none (
             proceed (os_call env) none (
             proceed (persistBundle env m) (\<lambda>err. State_Monad.return (Some err, Some m)) (
             proceed (os_call env) failed ( \<comment> \<open>the build log, the build, the binary\<close>
             proceed (os_call env) failed (
             proceed (os_call env) failed (do {
               (e, m') \<leftarrow> run_profile env (Join [ResultsRoot opts, result_name env, ''logs'']) (KeepData opts) profile;
               State_Monad.return (e, Some m')
             }))))))))"

end
