(* ===== verification/BenchLogic.thy ===== *)
theory BenchLogic
  imports BenchRun
begin

text \<open>
  Reasoning about the state monad of \<open>BenchRun\<close>: weakest preconditions, and computations that keep a relation between the world
  before and after. The locale \<open>world_frame\<close> is the contract of such a relation, a preorder that allows calls of
  the operating system to be counted and processes to end; its lemmas say that everything that only waits, probes and talks to
  servers keeps it. They are collected in \<open>frame_rules\<close>.
\<close>

named_theorems frame_rules

section \<open>Weakest preconditions\<close>

definition wp :: "'a bench \<Rightarrow> ('a \<Rightarrow> bench_world \<Rightarrow> bool) \<Rightarrow> bench_world \<Rightarrow> bool" where
  "wp m Q w \<longleftrightarrow> (case run_state m w of (x, w') \<Rightarrow> Q x w')"

lemma wp_simps [simp]:
  "wp (State_Monad.return x) Q = Q x"
  "wp (State_Monad.bind m f) Q = wp m (\<lambda>x. wp (f x) Q)"
  "wp (State g) Q = (\<lambda>w. case g w of (x, w') \<Rightarrow> Q x w')"
  by (simp_all add: wp_def fun_eq_iff split: prod.split)

lemma wp_mono: "wp m P w \<Longrightarrow> (\<And>x w'. P x w' \<Longrightarrow> Q x w') \<Longrightarrow> wp m Q w"
  by (auto simp: wp_def split: prod.splits)

section \<open>Frames\<close>

definition keeps :: "(bench_world \<Rightarrow> bench_world \<Rightarrow> bool) \<Rightarrow> 'a bench \<Rightarrow> bool" where
  "keeps R m \<longleftrightarrow> (\<forall>w. wp m (\<lambda>_. R w) w)"

lemma keepsD: "keeps R m \<Longrightarrow> wp m (\<lambda>_. R w) w"
  by (simp add: keeps_def)

lemma keeps_cases [frame_rules]:
  "(\<And>a b. keeps R (f a b)) \<Longrightarrow> keeps R (case p of (a, b) \<Rightarrow> f a b)"
  "keeps R g \<Longrightarrow> (\<And>x. keeps R (h x)) \<Longrightarrow> keeps R (case opt of None \<Rightarrow> g | Some x \<Rightarrow> h x)"
  "(\<And>x. keeps R (k x)) \<Longrightarrow> (\<And>x. keeps R (h x)) \<Longrightarrow> keeps R (case s of Inl x \<Rightarrow> k x | Inr x \<Rightarrow> h x)"
  "keeps R m \<Longrightarrow> keeps R m' \<Longrightarrow> keeps R (if b then m else m')"
  by (simp_all split: prod.split option.split sum.split)

locale world_frame =
  fixes R :: "bench_world \<Rightarrow> bench_world \<Rightarrow> bool"
  assumes same: "R w w"
    and steps: "R u v \<Longrightarrow> R v w \<Longrightarrow> R u w"
    and call: "R w (w\<lparr>calls := Suc (calls w), live := live w - K\<rparr>)"
begin

lemma keeps_return [frame_rules]: "keeps R (State_Monad.return x)"
  by (simp add: keeps_def same)

lemma keeps_bind [frame_rules]:
  assumes "keeps R m" "\<And>x. keeps R (f x)"
  shows "keeps R (State_Monad.bind m f)"
  unfolding keeps_def wp_simps
proof
  fix w
  show "wp m (\<lambda>x. wp (f x) (\<lambda>_. R w)) w"
  proof (rule wp_mono [OF keepsD [OF assms(1)]])
    fix x w1 assume "R w w1"
    with steps show "wp (f x) (\<lambda>_. R w) w1" by (auto intro: wp_mono [OF keepsD [OF assms(2)]])
  qed
qed

lemma keeps_tick [frame_rules]: "keeps R (tick env)"
  by (simp add: keeps_def tick_def call)

lemma keeps_calls [frame_rules]: "keeps R (os_call env)" "keeps R (exchange env)"
  unfolding os_call_def exchange_def by (intro frame_rules)+

lemma keeps_proceed [frame_rules]: "keeps R m \<Longrightarrow> (\<And>e. keeps R (f e)) \<Longrightarrow> keeps R k \<Longrightarrow> keeps R (proceed m f k)"
  unfolding proceed_def by (intro frame_rules)

lemma keeps_probe [frame_rules]: "keeps R (probe_from env i ns)"
  by (induction env i ns rule: probe_from.induct) (auto intro!: frame_rules)

lemma keeps_waits [frame_rules]: "keeps R (wait_pong env k)" "keeps R (wait_value env want k)" "keeps R (wait_writable env ns k)"
  by (induction k) (auto intro!: frame_rules)

lemma keeps_probes [frame_rules]:
  "keeps R (waitForRESP env)" "keeps R (waitForValue env want)" "keeps R (waitForWritable env ns)" "keeps R (findLeader env ns)" "keeps R (command_ok env)"
  unfolding waitForRESP_def waitForValue_def waitForWritable_def findLeader_def command_ok_def by (intro frame_rules)+

lemma keeps_values [frame_rules]: "keeps R (wait_values env ns)"
  by (induction ns) (auto intro!: frame_rules simp: Let_def)

end

end
