(* ===== verification/BenchSafety.thy ===== *)
theory BenchSafety
  imports BenchLogic
begin

text \<open>
  What a run of the benchmark harness leaves behind (\<^verbatim>\<open>benchmarks/harness/run.go\<close>, \<^verbatim>\<open>cluster.go\<close>): no process and no
  data directory. The proofs use weakest preconditions, one rule per operation, over the account of a cluster; operations that
  only talk to servers or write results keep the relation \<open>undisturbed\<close> by the interpretation of \<open>world_frame\<close>.
\<close>

named_theorems stage_rules

section \<open>Operations that leave processes and directories alone\<close>

definition undisturbed :: "bench_world \<Rightarrow> bench_world \<Rightarrow> bool" where
  "undisturbed w w' \<longleftrightarrow> live w' \<subseteq> live w \<and> dirs w' = dirs w \<and> swept w' = swept w"

abbreviation quiet :: "'a bench \<Rightarrow> bool" where
  "quiet \<equiv> keeps undisturbed"

interpretation quiet: world_frame undisturbed
  by unfold_locales (auto simp: undisturbed_def)

lemma quiet_publish [frame_rules]: "quiet (publish env m)"
proof -
  have "quiet (State (\<lambda>w. ((), w\<lparr>published := Some m\<rparr>)))" by (simp add: keeps_def undisturbed_def)
  then show ?thesis unfolding publish_def by (intro frame_rules)
qed

lemma quiet_results [frame_rules]: "quiet (persistBundle env m)" "quiet (failBundle env m e)"
  unfolding failBundle_def persistBundle_def Let_def by (intro frame_rules)+

lemma quiet_measure [frame_rules]: "quiet (measure_all env d wls m)"
  by (induction wls arbitrary: m) (auto intro!: frame_rules simp: Let_def)

section \<open>The account of a cluster\<close>

definition pids :: "bench_node list \<Rightarrow> nat set" where
  "pids ns = {pid. \<exists>n \<in> set ns. bn_cmd n = Some pid}"

definition temp_ok :: "bench_env \<Rightarrow> bool" where
  "temp_ok env \<longleftrightarrow> tempDir env \<noteq> [] \<and> (\<forall>n. slash \<notin> set (suffix env n))"

text \<open>Between clusters: nothing is left.\<close>

definition settled :: "bool \<Rightarrow> bench_world \<Rightarrow> bool" where
  "settled keep w \<longleftrightarrow> live w = {} \<and> (keep \<or> dirs w \<subseteq> swept w) \<and> swept w \<subseteq> dirs w"

text \<open>With a cluster: only its processes are alive, only its directory may be left.\<close>

definition account :: "bench_env \<Rightarrow> bench_cluster \<Rightarrow> bench_world \<Rightarrow> bool" where
  "account env c w \<longleftrightarrow> live w \<subseteq> pids (nodes c) \<and> (\<exists>n. dataRoot c = temp_path env n) \<and> Clean (dataRoot c) \<in> dirs w
    \<and> (keepData c \<or> dirs w \<subseteq> insert (Clean (dataRoot c)) (swept w)) \<and> swept w \<subseteq> dirs w"

lemma quietD: "quiet m \<Longrightarrow> wp m (\<lambda>_ w'. live w' \<subseteq> live w \<and> dirs w' = dirs w \<and> swept w' = swept w) w"
  by (drule keepsD) (simp add: undisturbed_def [abs_def])

lemma wp_quiet_settled:
  assumes "quiet m" "settled keep w" "\<And>x w'. settled keep w' \<Longrightarrow> Q x w'"
  shows "wp m Q w"
  by (rule wp_mono [OF quietD [OF assms(1)] assms(3)]) (use assms(2) in \<open>auto simp: settled_def\<close>)

lemma wp_quiet:
  assumes "quiet m" "account env c w" "\<And>x w'. account env c w' \<Longrightarrow> Q x w'"
  shows "wp m Q w"
  by (rule wp_mono [OF quietD [OF assms(1)] assms(3)]) (use assms(2) in \<open>auto simp: account_def\<close>)


section \<open>One rule per operation on a cluster\<close>

lemma pids_simps [simp]:
  "pids [] = {}" "pids (n # ns) = (case bn_cmd n of None \<Rightarrow> {} | Some pid \<Rightarrow> {pid}) \<union> pids ns" "pids (ns @ ns') = pids ns \<union> pids ns'"
  by (auto simp: pids_def split: option.split)

lemma wp_spawn:
  assumes "\<And>e w'. live w' \<subseteq> live w \<and> dirs w' = dirs w \<and> swept w' = swept w \<Longrightarrow> Q (Inl e) w'"
    and "\<And>pid w'. live w' \<subseteq> insert pid (live w) \<and> dirs w' = dirs w \<and> swept w' = swept w \<Longrightarrow> Q (Inr pid) w'"
  shows "wp (spawn env) Q w"
proof -
  have "Q (Inr (calls w)) (w\<lparr>calls := Suc (calls w), live := insert (calls w) (live w - crashed env (calls w))\<rparr>)"
    by (rule assms(2)) auto
  then show ?thesis unfolding spawn_def using assms(1) by (auto simp: tick_def split: option.split)
qed

text \<open>A start that fails leaves no process, one that succeeds leaves the process the node names.\<close>

lemma wp_node_start:
  assumes "live w \<subseteq> L"
    and "\<And>e w'. live w' \<subseteq> L \<and> dirs w' = dirs w \<and> swept w' = swept w \<Longrightarrow> Q (Some e, n) w'"
    and "\<And>pid w'. bn_cmd n = None \<Longrightarrow> live w' \<subseteq> insert pid L \<and> dirs w' = dirs w \<and> swept w' = swept w \<Longrightarrow>
      Q (None, n\<lparr>bn_cmd := Some pid\<rparr>) w'"
  shows "wp (node_start env n) Q w"
proof (cases "bn_cmd n")
  case (Some pid)
  then show ?thesis using assms(1,2) by (simp add: node_start_def)
next
  case none: None
  have call: "wp (proceed (os_call env) (stopping n) k) Q w1"
    if "live w1 \<subseteq> L \<and> dirs w1 = dirs w \<and> swept w1 = swept w"
      and k: "\<And>w'. live w' \<subseteq> L \<and> dirs w' = dirs w \<and> swept w' = swept w \<Longrightarrow> wp k Q w'" for k w1
    unfolding proceed_def wp_simps
    by (rule wp_mono [OF quietD [OF quiet.keeps_calls(1)]]) (use that assms(2) in \<open>auto split: option.split\<close>)
  have run: "wp (spawn env) (\<lambda>r. Q (case r of Inl err \<Rightarrow> (Some err, n) | Inr pid \<Rightarrow> (None, n\<lparr>bn_cmd := Some pid\<rparr>))) w1"
    if l: "live w1 \<subseteq> L \<and> dirs w1 = dirs w \<and> swept w1 = swept w" for w1
  proof (rule wp_spawn)
    fix pid and w' :: bench_world
    assume "live w' \<subseteq> insert pid (live w1) \<and> dirs w' = dirs w1 \<and> swept w' = swept w1"
    then have "Q (None, n\<lparr>bn_cmd := Some pid\<rparr>) w'" using l by (intro assms(3) [OF none]) auto
    then show "Q (case Inr pid of Inl err \<Rightarrow> (Some err, n) | Inr pid \<Rightarrow> (None, n\<lparr>bn_cmd := Some pid\<rparr>)) w'" by simp
  qed (use l assms(2) in auto)
  show ?thesis unfolding node_start_def using assms(1) none run by (auto intro!: call)
qed

lemma wp_stop_running:
  assumes "live w \<subseteq> pids ns"
    and "\<And>ms ns' w'. live w' = {} \<and> dirs w' = dirs w \<and> swept w' = swept w \<and> pids ns' = {} \<Longrightarrow> Q (ms, ns') w'"
  shows "wp (stop_running env ns) Q w"
  using assms
proof (induction ns arbitrary: w Q)
  case (Cons n ns)
  show ?case
  proof (cases "bn_cmd n")
    case None
    then show ?thesis using Cons.prems by (auto intro!: Cons.IH split: prod.split)
  next
    case (Some pid)
    then show ?thesis using Cons.prems by (auto simp: node_stop_def tick_def stopped_def intro!: Cons.IH)
  qed
qed simp

lemma wp_stopAll:
  assumes "account env c w"
    and "\<And>c' w'. account env c' w' \<and> live w' = {} \<and> dataRoot c' = dataRoot c \<and> keepData c' = keepData c \<Longrightarrow> Q c' w'"
  shows "wp (stopAll env c) Q w"
  unfolding stopAll_def wp_simps
  by (rule wp_stop_running) (use assms in \<open>auto simp: account_def\<close>)

lemma wp_stopNode:
  assumes "account env c w"
    and "\<And>r c' w'. account env c' w' \<and> keepData c' = keepData c \<Longrightarrow> Q (r, c') w'"
  shows "wp (stopNode env i c) Q w"
proof (cases "i < length (nodes c)")
  case True
  let ?n = "nodes c ! i"
  have sub: "live w1 - {pid} \<subseteq> pids ((nodes c)[i := stopped ?n])" if cmd: "bn_cmd ?n = Some pid" and lv: "live w1 \<subseteq> pids (nodes c)" for pid w1
  proof
    fix x assume "x \<in> live w1 - {pid}"
    then have "x \<in> pids (nodes c)" "x \<noteq> pid" using lv by auto
    then obtain k where k: "k < length (nodes c)" "bn_cmd (nodes c ! k) = Some x" by (auto simp: pids_def in_set_conv_nth)
    then have "k \<noteq> i" using cmd \<open>x \<noteq> pid\<close> by auto
    then have "nodes c ! k \<in> set ((nodes c)[i := stopped ?n])" using k(1) by (metis length_list_update nth_list_update_neq nth_mem)
    then show "x \<in> pids ((nodes c)[i := stopped ?n])" using k(2) by (auto simp: pids_def)
  qed
  show ?thesis
  proof (cases "bn_cmd ?n")
    case None
    have "account env (c\<lparr>nodes := (nodes c)[i := ?n], metrics := metrics c @ [m]\<rparr>) w" for m using assms(1) by (simp add: account_def)
    then show ?thesis using assms(2) True None by (simp add: stopNode_def node_stop_def)
  next
    case (Some pid)
    let ?w = "w\<lparr>calls := Suc (calls w), live := live w - crashed env (calls w) - {pid}\<rparr>"
    have "live ?w \<subseteq> pids ((nodes c)[i := stopped ?n])" using sub [OF Some, of "w\<lparr>live := live w - crashed env (calls w)\<rparr>"] assms(1)
      by (auto simp: account_def)
    then have "account env (c\<lparr>nodes := (nodes c)[i := stopped ?n], metrics := metrics c @ [m]\<rparr>) ?w" for m
      using assms(1) by (simp add: account_def)
    then show ?thesis using assms(2) True Some by (simp add: stopNode_def node_stop_def tick_def)
  qed
qed (use assms in \<open>auto simp: stopNode_def\<close>)

lemma cleanup_hits: "temp_ok env \<Longrightarrow> Dir (Clean (temp_path env n)) = Clean (tempDir env) \<and> HasPrefix (Base (Clean (temp_path env n))) ''skiffdb-bench-data-''"
proof -
  assume ok: "temp_ok env"
  let ?t = "tempDir env" and ?s = "''skiffdb-bench-data-'' @ suffix env n"
  have pn: "plain_name ?s" using ok by (auto simp: plain_name_def temp_ok_def slash_def)
  obtain p where p: "Clean (temp_path env n) = Clean (p @ slash # ?s)" "Clean p = Clean ?t" "p \<noteq> []"
  proof (cases "last ?t = slash")
    case False
    then show thesis using that [of ?t] ok by (simp add: temp_path_def temp_ok_def)
  next
    case last: True
    then obtain q where q: "?t = q @ [slash]" using ok by (metis append_butlast_last_id temp_ok_def)
    show thesis
    proof (cases "q = []")
      case True
      have "components (slash # ?s) = components (slash # slash # ?s)" by (simp add: components_def clean_step_def)
      then show thesis using that [of "[slash]"] last q True by (simp add: temp_path_def Clean_def)
    next
      case False
      then have "Clean q = Clean ?t" unfolding q by (simp add: Clean_def components_trailing rooted_append)
      then show thesis using that [of q] False last q by (simp add: temp_path_def)
    qed
  qed
  show ?thesis using Clean_snoc_parts [OF p(3) pn] HasPrefix_append [of "''skiffdb-bench-data-''" "suffix env n"] p(1,2) by metis
qed


lemma wp_cleanupData:
  assumes "account env c w" "temp_ok env"
    and "\<And>w'. account env c w' \<and> live w' = live w \<and> (keepData c \<or> dirs w' \<subseteq> swept w') \<Longrightarrow> Q () w'"
  shows "wp (cleanupData env c) Q w"
proof (cases "keepData c")
  case True
  then show ?thesis using assms(1,3) by (simp add: cleanupData_def)
next
  case False
  let ?w = "w\<lparr>swept := insert (Clean (dataRoot c)) (swept w)\<rparr>"
  have "account env c ?w \<and> live ?w = live w \<and> dirs ?w \<subseteq> swept ?w" using assms(1) False by (auto simp: account_def)
  then have "Q () ?w" using assms(3) by blast
  moreover obtain n where "dataRoot c = temp_path env n" using assms(1) by (auto simp: account_def)
  ultimately show ?thesis using cleanup_hits [OF assms(2), of n] False by (simp add: cleanupData_def)
qed

lemma wp_tear_down:
  assumes "account env c w" "temp_ok env" "\<And>w'. settled (keepData c) w' \<Longrightarrow> Q () w'"
  shows "wp (tear_down env c) Q w"
  unfolding tear_down_def wp_simps
proof (rule wp_stopAll [OF assms(1)])
  fix c' w'
  assume a: "account env c' w' \<and> live w' = {} \<and> dataRoot c' = dataRoot c \<and> keepData c' = keepData c"
  show "wp (cleanupData env c') Q w'"
    by (rule wp_cleanupData [OF _ assms(2)]) (use a assms(3) in \<open>auto simp: account_def settled_def\<close>)
qed

lemma pids_update: "i < length ns \<Longrightarrow> bn_cmd (ns ! i) = None \<Longrightarrow> pids (ns[i := n]) = pids ns \<union> pids [n]"
  by (induction ns arbitrary: i) (auto split: nat.splits)

lemma wp_restartNode:
  assumes "account env c w" "\<And>r c' w'. account env c' w' \<and> keepData c' = keepData c \<Longrightarrow> Q (r, c') w'"
  shows "wp (restartNode env i c) Q w"
proof (cases "i < length (nodes c)")
  case True
  let ?n = "nodes c ! i"
  let ?Q = "\<lambda>(r, n). wp (case r of Some err \<Rightarrow> State_Monad.return (Some err, c)
      | None \<Rightarrow> do { r' \<leftarrow> waitForRESP env; State_Monad.return (r', c\<lparr>nodes := (nodes c)[i := n]\<rparr>) }) Q"
  have "wp (node_start env ?n) ?Q w"
  proof (rule wp_node_start [of w "pids (nodes c)"])
    fix pid and w' :: bench_world
    assume "bn_cmd ?n = None" "live w' \<subseteq> insert pid (pids (nodes c)) \<and> dirs w' = dirs w \<and> swept w' = swept w"
    then have "account env (c\<lparr>nodes := (nodes c)[i := ?n\<lparr>bn_cmd := Some pid\<rparr>]\<rparr>) w'"
      using assms(1) pids_update [OF True, of "?n\<lparr>bn_cmd := Some pid\<rparr>"] by (auto simp: account_def)
    then have "wp (waitForRESP env) (\<lambda>r'. Q (r', c\<lparr>nodes := (nodes c)[i := ?n\<lparr>bn_cmd := Some pid\<rparr>]\<rparr>)) w'"
      by (rule wp_quiet [OF quiet.keeps_probes(1)]) (simp add: assms(2))
    then show "?Q (None, ?n\<lparr>bn_cmd := Some pid\<rparr>) w'" by simp
  qed (use assms in \<open>auto simp: account_def\<close>)
  then show ?thesis using True by (simp add: restartNode_def case_prod_beta')
qed (use assms in \<open>auto simp: restartNode_def\<close>)


lemma wp_start_nodes:
  assumes "account env c w" "\<And>r c' w'. account env c' w' \<and> keepData c' = keepData c \<Longrightarrow> Q (r, c') w'"
  shows "wp (start_nodes env logsDir ports is' c) Q w"
  using assms
proof (induction is' arbitrary: c w)
  case (Cons i is')
  let ?n = "make_node (deployment c) (dataRoot c) logsDir ports (nodes c) i"
  let ?c = "\<lambda>n. c\<lparr>nodes := nodes c @ [n]\<rparr>"
  let ?rest = "\<lambda>n. proceed (waitForRESP env) (stopping (?c n)) (
      proceed (if i = 0 \<and> deployment c \<noteq> InMemorySingle then waitForWritable env [n] else State_Monad.return None) (stopping (?c n)) (
      start_nodes env logsDir ports is' (?c n)))"
  have rest: "wp (?rest n) Q w'" if a: "account env (c\<lparr>nodes := nodes c @ [n]\<rparr>) w'" for n w'
  proof -
    let ?c = "c\<lparr>nodes := nodes c @ [n]\<rparr>"
    have fin: "wp (start_nodes env logsDir ports is' ?c) Q v" "Q (r, ?c) v" if "account env ?c v" for v r
      using Cons.IH [OF that] Cons.prems(2) [of ?c v r] that Cons.prems(2) by auto
    have q: "quiet (if i = 0 \<and> deployment c \<noteq> InMemorySingle then waitForWritable env [n] else State_Monad.return None)"
      by (intro frame_rules)
    have "wp (proceed m (stopping ?c) k) Q v" if "quiet m" "account env ?c v" "\<And>v. account env ?c v \<Longrightarrow> wp k Q v" for m k v
      unfolding proceed_def wp_simps by (rule wp_quiet [OF that(1,2)]) (use fin that(3) in \<open>auto split: option.split\<close>)
    then show ?thesis using q a fin(1) by (blast intro: quiet.keeps_probes)
  qed
  let ?Q = "\<lambda>(r, n). wp (case r of Some err \<Rightarrow> State_Monad.return (Some err, c\<lparr>nodes := nodes c @ [n]\<rparr>) | None \<Rightarrow> ?rest n) Q"
  have "wp (node_start env ?n) ?Q w"
  proof (rule wp_node_start [of w "pids (nodes c)"])
    fix e and w' :: bench_world
    assume "live w' \<subseteq> pids (nodes c) \<and> dirs w' = dirs w \<and> swept w' = swept w"
    then have "account env (c\<lparr>nodes := nodes c @ [?n]\<rparr>) w'" using Cons.prems(1) by (auto simp: account_def make_node_def)
    then show "?Q (Some e, ?n) w'" using Cons.prems(2) by simp
  next
    fix pid and w' :: bench_world
    assume "bn_cmd ?n = None" "live w' \<subseteq> insert pid (pids (nodes c)) \<and> dirs w' = dirs w \<and> swept w' = swept w"
    then have "account env (c\<lparr>nodes := nodes c @ [?n\<lparr>bn_cmd := Some pid\<rparr>]\<rparr>) w'" using Cons.prems(1) by (auto simp: account_def)
    from rest [OF this] show "?Q (None, ?n\<lparr>bn_cmd := Some pid\<rparr>) w'" by simp
  qed (use Cons.prems(1) in \<open>auto simp: account_def\<close>)
  then show ?case by (simp add: case_prod_beta' Let_def)
qed simp

lemma wp_make_temp:
  assumes "settled keep w" "\<And>e w'. settled keep w' \<Longrightarrow> Q (Inl e) w'"
    and "\<And>n w'. account env \<lparr>deployment = d, dataRoot = temp_path env n, nodes = [], metrics = [], keepData = keep\<rparr> w' \<Longrightarrow> Q (Inr (temp_path env n)) w'"
  shows "wp (make_temp env) Q w"
  unfolding make_temp_def wp_simps(2)
proof (rule wp_quiet_settled [OF quiet.keeps_tick assms(1)])
  fix n w' assume st: "settled keep w'"
  let ?w = "w'\<lparr>dirs := insert (Clean (temp_path env n)) (dirs w')\<rparr>"
  have "account env \<lparr>deployment = d, dataRoot = temp_path env n, nodes = [], metrics = [], keepData = keep\<rparr> ?w"
    using st by (auto simp: account_def settled_def)
  from assms(3) [OF this] have "Q (Inr (temp_path env n)) ?w" .
  with assms(2) [OF st] show "wp (case fault env n of Some err \<Rightarrow> State_Monad.return (Inl err) | None \<Rightarrow> do {
         State (\<lambda>w. ((), w\<lparr>dirs := insert (Clean (temp_path env n)) (dirs w)\<rparr>));
         State_Monad.return (Inr (temp_path env n)) }) Q w'" by (simp split: option.split)
qed

text \<open>What happens to a cluster after its directory exists, in the order of the code.\<close>

lemma wp_startCluster:
  assumes "settled keep w" "temp_ok env" "\<And>e w'. settled keep w' \<Longrightarrow> Q (Inl e) w'"
    and "\<And>c w'. account env c w' \<and> keepData c = keep \<Longrightarrow> Q (Inr c) w'"
  shows "wp (startCluster env d logsDir keep) Q w"
proof -
  have down: "wp (do { tear_down env c; State_Monad.return (Inl e) }) Q v" if "account env c v" "keepData c = keep" for c e v
    unfolding wp_simps by (rule wp_tear_down [OF that(1) assms(2)]) (use assms(3) that(2) in auto)
  let ?fin = "\<lambda>c r. case r of Some err \<Rightarrow> do { tear_down env c; State_Monad.return (Inl err) } | None \<Rightarrow> State_Monad.return (Inr c)"
  let ?check = "\<lambda>r c. case r of Some err \<Rightarrow> do { tear_down env c; State_Monad.return (Inl err) }
      | None \<Rightarrow> do { r \<leftarrow> waitForWritable env (nodes c); ?fin c r }"
  have check: "wp (?check r c) Q v" if a: "account env c v" "keepData c = keep" for r c v
  proof -
    have "wp (waitForWritable env (nodes c)) (\<lambda>r. wp (?fin c r) Q) v"
      by (rule wp_quiet [OF quiet.keeps_probes(3) a(1)]) (use down a(2) assms(4) in \<open>auto split: option.split\<close>)
    then show ?thesis using down [OF a] by (cases r) simp_all
  qed
  let ?c = "\<lambda>root. \<lparr>deployment = d, dataRoot = root, nodes = [], metrics = [], keepData = keep\<rparr>"
  let ?boot = "\<lambda>root n. do { (r, c1) \<leftarrow> start_nodes env logsDir (free_ports env n) [0..<node_count d] (?c root); ?check r c1 }"
  have boot: "wp (?boot root n) Q v" if "account env (?c root) v" for root n v
    unfolding wp_simps(2)
  proof (rule wp_start_nodes [OF that])
    fix r c1 v1
    assume "account env c1 v1 \<and> keepData c1 = keepData (?c root)"
    then show "wp (case (r, c1) of (r, c1) \<Rightarrow> ?check r c1) Q v1" using check [of c1 v1 r] by simp
  qed
  let ?ports = "\<lambda>root. do { n \<leftarrow> tick env; case fault env n of Some err \<Rightarrow> do { tear_down env (?c root); State_Monad.return (Inl err) } | None \<Rightarrow> ?boot root n }"
  have ports: "wp (?ports root) Q v" if a: "account env (?c root) v" for root v
    unfolding wp_simps(2) [of "tick env"]
  proof (rule wp_quiet [OF quiet.keeps_tick a])
    fix n v' assume "account env (?c root) v'"
    then show "wp (case fault env n of Some err \<Rightarrow> do { tear_down env (?c root); State_Monad.return (Inl err) } | None \<Rightarrow> ?boot root n) Q v'"
      using down [of "?c root" v'] boot [of root v' n] by (cases "fault env n") (simp_all del: wp_simps)
  qed
  show ?thesis
    unfolding startCluster_def Let_def wp_simps(2) [of "make_temp env"]
  proof (rule wp_make_temp [OF assms(1)])
    fix e w' assume "settled keep w'"
    with assms(3) show "wp (case Inl e of Inl err \<Rightarrow> State_Monad.return (Inl err) | Inr root \<Rightarrow> ?ports root) Q w'" by simp
  next
    fix n w' assume "account env (?c (temp_path env n)) w'"
    from ports [OF this] show "wp (case Inr (temp_path env n) of Inl err \<Rightarrow> State_Monad.return (Inl err) | Inr root \<Rightarrow> ?ports root) Q w'"
      by (simp only: sum.case)
  qed
qed


section \<open>Stages and the whole run\<close>

definition stage_ok :: "bench_env \<Rightarrow> stage \<Rightarrow> bool" where
  "stage_ok env f \<longleftrightarrow> (\<forall>c m w. account env c w \<longrightarrow> wp (f c m) (\<lambda>(r, c', m') w'. account env c' w' \<and> keepData c' = keepData c) w)"

lemma stage_okD: "stage_ok env f \<Longrightarrow> account env c w \<Longrightarrow>
    (\<And>r c' m' w'. account env c' w' \<Longrightarrow> keepData c' = keepData c \<Longrightarrow> Q (r, c', m') w') \<Longrightarrow> wp (f c m) Q w"
  unfolding stage_ok_def by (rule wp_mono [of "f c m" "\<lambda>(r, c', m') w'. account env c' w' \<and> keepData c' = keepData c" w]) auto

lemma stage_and_then [stage_rules]:
  assumes "stage_ok env f" "stage_ok env g"
  shows "stage_ok env (and_then f g)"
  unfolding stage_ok_def and_then_def wp_simps
proof (intro allI impI)
  fix c m w assume "account env c w"
  then show "wp (f c m) (\<lambda>x. wp (case x of (r, c', m') \<Rightarrow> (case r of Some err \<Rightarrow> State_Monad.return (Some err, c', m') | None \<Rightarrow> g c' m'))
      (\<lambda>(r, c', m') w'. account env c' w' \<and> keepData c' = keepData c)) w"
  proof (rule stage_okD [OF assms(1)])
    fix r c' m' w'
    assume a: "account env c' w'" "keepData c' = keepData c"
    have "wp (g c' m') (\<lambda>(r, c', m') w'. account env c' w' \<and> keepData c' = keepData c) w'"
      by (rule stage_okD [OF assms(2) a(1)]) (use a(2) in simp)
    then show "wp (case (r, c', m') of (r, c', m') \<Rightarrow> (case r of Some err \<Rightarrow> State_Monad.return (Some err, c', m') | None \<Rightarrow> g c' m'))
      (\<lambda>(r, c', m') w'. account env c' w' \<and> keepData c' = keepData c) w'" using a by (simp split: option.split)
  qed
qed

lemma stage_quiet: "(\<And>c m. quiet (f c m)) \<Longrightarrow> stage_ok env (\<lambda>c m. do { x \<leftarrow> f c m; State_Monad.return (r c m x, c, h c m) })"
  unfolding stage_ok_def wp_simps by (auto intro!: wp_quiet)

lemma stage_with_leader [stage_rules]:
  assumes "\<And>leader. stage_ok env (f leader)"
  shows "stage_ok env (with_leader env f)"
  unfolding stage_ok_def with_leader_def wp_simps
proof (intro allI impI)
  fix c m w assume "account env c w"
  then show "wp (findLeader env (nodes c)) (\<lambda>l. wp (case l of Inl err \<Rightarrow> State_Monad.return (Some err, c, m) | Inr leader \<Rightarrow> f leader c m)
      (\<lambda>(r, c', m') w'. account env c' w' \<and> keepData c' = keepData c)) w"
    by (rule wp_quiet [OF quiet.keeps_probes(4)]) (use assms in \<open>auto simp: stage_ok_def split: sum.split\<close>)
qed

lemma stage_on_cluster:
  assumes "\<And>c w Q. account env c w \<Longrightarrow> (\<And>r c' w'. account env c' w' \<and> keepData c' = keepData c \<Longrightarrow> Q (r, c') w') \<Longrightarrow> wp (f c) Q w"
  shows "stage_ok env (on_cluster f)"
  unfolding stage_ok_def on_cluster_def wp_simps by (auto intro!: assms)

lemma wp_restart_all:
  assumes "account env c w" "\<And>r c' w'. account env c' w' \<and> keepData c' = keepData c \<Longrightarrow> Q (r, c') w'"
  shows "wp (restart_all env is' c) Q w"
  using assms
proof (induction is' arbitrary: c w)
  case (Cons i is')
  show ?case
    unfolding restart_all.simps wp_simps
  proof (rule wp_restartNode [OF Cons.prems(1)])
    fix r c' w'
    assume a: "account env c' w' \<and> keepData c' = keepData c"
    have "wp (restart_all env is' c') Q w'" by (rule Cons.IH) (use a Cons.prems(2) in auto)
    then show "wp (case (r, c') of (r, c') \<Rightarrow> (case r of Some err \<Rightarrow> State_Monad.return (Some err, c') | None \<Rightarrow> restart_all env is' c')) Q w'"
      using a Cons.prems(2) by (simp split: option.split)
  qed
qed simp

lemma stage_parts [stage_rules]:
  "stage_ok env (on_cluster (stopNode env i))" "stage_ok env (on_cluster (restartNode env i))"
  "stage_ok env (\<lambda>c. on_cluster (restart_all env (is' c)) c)"
proof -
  show "stage_ok env (on_cluster (stopNode env i))" "stage_ok env (on_cluster (restartNode env i))"
    by (rule stage_on_cluster, rule wp_stopNode wp_restartNode; blast)+
  show "stage_ok env (\<lambda>c. on_cluster (restart_all env (is' c)) c)"
    unfolding stage_ok_def on_cluster_def wp_simps by (auto intro!: wp_restart_all)
qed


lemma stage_checks [stage_rules]:
  "quiet f \<Longrightarrow> stage_ok env (ensure f)" "stage_ok env (describe_stage env)" "stage_ok env (record_scenario env names e)"
  "stage_ok env (\<lambda>c. ensure (waitForWritable env (nodes c)) c)"
proof -
  show "quiet f \<Longrightarrow> stage_ok env (ensure f)" unfolding ensure_def by (rule stage_quiet)
  show "stage_ok env (describe_stage env)" "stage_ok env (record_scenario env names e)"
    unfolding describe_stage_def record_scenario_def Let_def by (rule stage_quiet, intro frame_rules)+
  show "stage_ok env (\<lambda>c. ensure (waitForWritable env (nodes c)) c)"
    unfolding ensure_def by (rule stage_quiet, intro frame_rules)
qed

text \<open>A stage that first waits or looks, then records; a stage that changes the metrics first.\<close>

lemma stage_bind:
  assumes "\<And>c m. quiet (f c m)" "\<And>x. stage_ok env (g x)"
  shows "stage_ok env (\<lambda>c m. do { x \<leftarrow> f c m; g x c m })"
  unfolding stage_ok_def wp_simps
proof (intro allI impI)
  fix c m w assume "account env c w"
  then show "wp (f c m) (\<lambda>x. wp (g x c m) (\<lambda>(r, c', m') w'. account env c' w' \<and> keepData c' = keepData c)) w"
    by (rule wp_quiet [OF assms(1)]) (use assms(2) in \<open>auto simp: stage_ok_def\<close>)
qed

lemma stage_metrics: "stage_ok env g \<Longrightarrow> stage_ok env (\<lambda>c m. g c (h c m))"
  by (simp add: stage_ok_def)

lemma stage_stopAll [stage_rules]: "stage_ok env (\<lambda>c m. do { c' \<leftarrow> stopAll env c; State_Monad.return (None, c', m) })"
  unfolding stage_ok_def wp_simps by (auto intro!: wp_stopAll)

lemma stage_final:
  assumes "temp_ok env" "\<And>c m. stage_ok env (g m)"
  shows "stage_ok env (\<lambda>c m. do { c' \<leftarrow> stopAll env c; cleanupData env c'; g m c' (h c' m) })"
  unfolding stage_ok_def wp_simps
proof (intro allI impI)
  fix c m w assume "account env c w"
  then show "wp (stopAll env c) (\<lambda>c'. wp (cleanupData env c') (\<lambda>_. wp (g m c' (h c' m))
      (\<lambda>(r, c', m') w'. account env c' w' \<and> keepData c' = keepData c))) w"
  proof (rule wp_stopAll)
    fix c' w'
    assume a: "account env c' w' \<and> live w' = {} \<and> dataRoot c' = dataRoot c \<and> keepData c' = keepData c"
    show "wp (cleanupData env c') (\<lambda>_. wp (g m c' (h c' m)) (\<lambda>(r, c', m') w'. account env c' w' \<and> keepData c' = keepData c)) w'"
    proof (rule wp_cleanupData [OF conjunct1 [OF a] assms(1)])
      fix v assume "account env c' v \<and> live v = live w' \<and> (keepData c' \<or> dirs v \<subseteq> swept v)"
      then show "wp (g m c' (h c' m)) (\<lambda>(r, c', m') w'. account env c' w' \<and> keepData c' = keepData c) v"
        using a by (intro stage_okD [OF assms(2)]) auto
    qed
  qed
qed

lemma stages_ok [stage_rules]:
  assumes "temp_ok env"
  shows "stage_ok env (snapshot_stage env)" "stage_ok env (catchup_stage env)" "stage_ok env (failover_stage env)" "stage_ok env (restart_stage env)"
proof -
  show "stage_ok env (snapshot_stage env)"
    unfolding snapshot_stage_def by (intro stage_rules stage_bind frame_rules stage_metrics)
  show "stage_ok env (catchup_stage env)"
    unfolding catchup_stage_def Let_def by (intro stage_rules stage_bind frame_rules)
  show "stage_ok env (failover_stage env)"
    unfolding failover_stage_def by (intro stage_rules stage_bind frame_rules)
  show "stage_ok env (restart_stage env)"
    unfolding restart_stage_def by (intro stage_rules stage_bind frame_rules stage_final assms)
qed

lemma wp_runScenarios:
  assumes "settled keep w" "temp_ok env" "\<And>r m' w'. settled keep w' \<Longrightarrow> Q (r, m') w'"
  shows "wp (runScenarios env logsDir keep m) Q w"
  unfolding runScenarios_def wp_simps(2) [of "startCluster env DurableThree logsDir keep"]
proof (rule wp_startCluster [OF assms(1,2)])
  fix c w'
  let ?stages = "and_then (describe_stage env) (and_then (snapshot_stage env) (and_then (catchup_stage env)
            (and_then (failover_stage env) (restart_stage env))))"
  assume a: "account env c w' \<and> keepData c = keep"
  have "stage_ok env ?stages" by (intro stage_rules assms(2))
  then have "wp (?stages c m) (\<lambda>x. wp (case x of (r, c', m') \<Rightarrow> do { tear_down env c'; State_Monad.return (r, m') }) Q) w'"
  proof (rule stage_okD [OF _ conjunct1 [OF a]])
    fix r c' m' w1
    assume b: "account env c' w1" "keepData c' = keepData c"
    have "wp (tear_down env c') (\<lambda>_. Q (r, m')) w1" by (rule wp_tear_down [OF b(1) assms(2)]) (use a b(2) assms(3) in auto)
    then show "wp (case (r, c', m') of (r, c', m') \<Rightarrow> do { tear_down env c'; State_Monad.return (r, m') }) Q w1" by simp
  qed
  then show "wp (case Inr c of Inl err \<Rightarrow> State_Monad.return (Some err, m)
      | Inr c \<Rightarrow> do { (r, c', m') \<leftarrow> ?stages c m; tear_down env c'; State_Monad.return (r, m') }) Q w'" by simp
qed (simp add: assms(3))


lemma wp_run_deployment:
  assumes "settled keep w" "temp_ok env" "\<And>r m' w'. settled keep w' \<Longrightarrow> Q (r, m') w'"
  shows "wp (run_deployment env logsDir keep wls d m) Q w"
proof -
  have down: "wp (do { tear_down env c; State_Monad.return x }) Q v" if "account env c v \<and> keepData c = keep" for c x v
    unfolding wp_simps by (rule wp_tear_down [OF _ assms(2)]) (use that assms(3) in \<open>cases x; auto\<close>)+
  let ?close = "\<lambda>c m1. do {
      c' \<leftarrow> stopAll env c;
      let m2 = m1\<lparr>run_processes := run_processes m1 @ metrics c'\<rparr>;
      cleanupData env c';
      r \<leftarrow> persistBundle env m2;
      State_Monad.return (map_option PersistFailed r, m2)
    }"
  have close: "wp (?close c m1) Q v" if a: "account env c v \<and> keepData c = keep" for c m1 v
    unfolding wp_simps Let_def
  proof (rule wp_stopAll [OF conjunct1 [OF a]])
    fix c' v'
    assume b: "account env c' v' \<and> live v' = {} \<and> dataRoot c' = dataRoot c \<and> keepData c' = keepData c"
    show "wp (cleanupData env c') (\<lambda>_. wp (persistBundle env (m1\<lparr>run_processes := run_processes m1 @ metrics c'\<rparr>))
        (\<lambda>r. Q (map_option PersistFailed r, m1\<lparr>run_processes := run_processes m1 @ metrics c'\<rparr>))) v'"
    proof (rule wp_cleanupData [OF conjunct1 [OF b] assms(2)])
      fix v1 assume "account env c' v1 \<and> live v1 = live v' \<and> (keepData c' \<or> dirs v1 \<subseteq> swept v1)"
      then have "settled keep v1" using a b by (auto simp: settled_def account_def)
      then show "wp (persistBundle env (m1\<lparr>run_processes := run_processes m1 @ metrics c'\<rparr>))
        (\<lambda>r. Q (map_option PersistFailed r, m1\<lparr>run_processes := run_processes m1 @ metrics c'\<rparr>)) v1"
        by (rule wp_quiet_settled [OF quiet_results(1)]) (rule assms(3))
    qed
  qed
  let ?measure = "\<lambda>c. do {
      (r, m1) \<leftarrow> measure_all env d wls m;
      case r of Some e \<Rightarrow> do { tear_down env c; State_Monad.return (Some e, m1) } | None \<Rightarrow> ?close c m1
    }"
  have measure: "wp (?measure c) Q v" if a: "account env c v \<and> keepData c = keep" for c v
    unfolding wp_simps(2) [of "measure_all env d wls m"]
    by (rule wp_quiet [OF quiet_measure conjunct1 [OF a]]) (use a down close in \<open>auto simp del: wp_simps split: option.split prod.split\<close>)
  let ?lead = "\<lambda>c. do {
      l \<leftarrow> findLeader env (nodes c);
      case (if d = InMemorySingle then Inr 0 else l) of
        Inl err \<Rightarrow> do { tear_down env c; State_Monad.return (Some (RunFailed err), m) }
      | Inr leader \<Rightarrow> ?measure c
    }"
  have lead: "wp (?lead c) Q v" if a: "account env c v \<and> keepData c = keep" for c v
    unfolding wp_simps(2) [of "findLeader env (nodes c)"]
    by (rule wp_quiet [OF quiet.keeps_probes(4) conjunct1 [OF a]]) (use a down measure in \<open>auto simp del: wp_simps split: sum.split\<close>)
  let ?first = "\<lambda>c. do {
      r \<leftarrow> persistBundle env m;
      case r of Some err \<Rightarrow> do { tear_down env c; State_Monad.return (Some (PersistFailed err), m) } | None \<Rightarrow> ?lead c
    }"
  have first: "wp (?first c) Q v" if a: "account env c v \<and> keepData c = keep" for c v
    unfolding wp_simps(2) [of "persistBundle env m"]
    by (rule wp_quiet [OF quiet_results(1) conjunct1 [OF a]]) (use a down lead in \<open>auto simp del: wp_simps split: option.split\<close>)
  show ?thesis
    unfolding run_deployment_def wp_simps(2) [of "startCluster env d logsDir keep"]
  proof (rule wp_startCluster [OF assms(1,2)])
    fix c w' assume "account env c w' \<and> keepData c = keep"
    from first [OF this] show "wp (case Inr c of Inl err \<Rightarrow> State_Monad.return (Some (RunFailed err), m) | Inr c \<Rightarrow> ?first c) Q w'"
      by (simp only: sum.case)
  qed (simp add: assms(3))
qed

lemma wp_run_deployments:
  assumes "settled keep w" "temp_ok env" "\<And>r m' w'. settled keep w' \<Longrightarrow> Q (r, m') w'"
  shows "wp (run_deployments env logsDir keep wls ds m) Q w"
  using assms(1)
proof (induction ds arbitrary: m w)
  case Nil
  then show ?case by (simp add: assms(3))
next
  case (Cons d ds)
  have "wp (case r of Some e \<Rightarrow> State_Monad.return (Some e, m') | None \<Rightarrow> run_deployments env logsDir keep wls ds m') Q w'"
    if "settled keep w'" for r m' w'
    using Cons.IH [OF that, of m'] assms(3) [OF that] by (simp split: option.split)
  then show ?case
    unfolding run_deployments.simps wp_simps(2) by (intro wp_run_deployment [OF Cons.prems assms(2)]) simp
qed

lemma wp_run_profile:
  assumes "settled keep w" "temp_ok env" "\<And>r m' w'. settled keep w' \<Longrightarrow> Q (r, m') w'"
  shows "wp (run_profile env logsDir keep profile) Q w"
proof -
  have fail: "wp (failBundle env m e) Q v" if "settled keep v" for m e v
    by (rule wp_quiet_settled [OF quiet_results(2) that]) (metis assms(3) surj_pair)
  let ?fin = "\<lambda>m'. do { let m'' = m'\<lparr>Completed := True, run_error := []\<rparr>; r \<leftarrow> persistBundle env m''; State_Monad.return (r, m'') }"
  have fin: "wp (?fin m') Q v" if "settled keep v" for m' v
    unfolding Let_def wp_simps by (rule wp_quiet_settled [OF quiet_results(1) that]) (rule assms(3))
  let ?scen = "\<lambda>m. do {
      (r, m') \<leftarrow> if Scenarios profile then runScenarios env logsDir keep m else State_Monad.return (None, m);
      case r of Some err \<Rightarrow> failBundle env m' err | None \<Rightarrow> ?fin m'
    }"
  have scen: "wp (?scen m) Q v" if st: "settled keep v" for m v
  proof -
    have k: "wp (case (r, m') of (r, m') \<Rightarrow> (case r of Some err \<Rightarrow> failBundle env m' err | None \<Rightarrow> ?fin m')) Q v'" if "settled keep v'" for r m' v'
      using fail [OF that] fin [OF that] by (cases r) (simp_all del: wp_simps)
    let ?K = "\<lambda>x. wp (case x of (r, m') \<Rightarrow> (case r of Some err \<Rightarrow> failBundle env m' err | None \<Rightarrow> ?fin m')) Q"
    have s: "wp (runScenarios env logsDir keep m) ?K v"
      by (rule wp_runScenarios [OF st assms(2)]) (rule k)
    have "wp (if Scenarios profile then runScenarios env logsDir keep m else State_Monad.return (None, m)) ?K v"
      using s k [OF st, of None m] by (cases "Scenarios profile") (simp_all only: if_True if_False wp_simps(1))
    then show ?thesis by (simp only: wp_simps(2))
  qed
  show ?thesis
    unfolding run_profile_def wp_simps(2) [of "run_deployments env logsDir keep (Workloads profile) (Deployments profile) empty_metrics"]
  proof (rule wp_run_deployments [OF assms(1,2)])
    fix r m' w' assume st: "settled keep w'"
    show "wp (case (r, m') of (r, m) \<Rightarrow> (case r of Some (PersistFailed err) \<Rightarrow> State_Monad.return (Some err, m)
       | Some (RunFailed err) \<Rightarrow> failBundle env m err | None \<Rightarrow> ?scen m)) Q w'"
      using scen [OF st, of m'] fail [OF st] assms(3) [OF st]
      by (cases r) (simp_all del: wp_simps(2,3) split: run_stop.split)
  qed
qed

lemma wp_proceed_settled:
  assumes "quiet m" "settled keep w" "\<And>e w'. settled keep w' \<Longrightarrow> wp (fail e) Q w'" "\<And>w'. settled keep w' \<Longrightarrow> wp k Q w'"
  shows "wp (proceed m fail k) Q w"
  unfolding proceed_def wp_simps
  by (rule wp_quiet_settled [OF assms(1,2)]) (use assms(3,4) in \<open>auto simp del: wp_simps split: option.split\<close>)

lemma wp_Run:
  assumes "settled (KeepData options) w" "temp_ok env"
  shows "wp (Run env options) (\<lambda>_. settled (KeepData options)) w"
proof -
  let ?keep = "KeepData (setDefaults options)"
  let ?Q = "\<lambda>(_ :: bytes option \<times> Metrics option). settled ?keep"
  have keep: "?keep = KeepData options" by (simp add: setDefaults_def)
  have failed: "wp (do { (e, m') \<leftarrow> failBundle env empty_metrics err; State_Monad.return (e, Some m') }) ?Q v"
    if "settled ?keep v" for err v
    unfolding wp_simps(2) by (rule wp_quiet_settled [OF quiet_results(2) that]) (simp split: prod.split)
  have last: "wp (do { (e, m') \<leftarrow> run_profile env logsDir ?keep profile; State_Monad.return (e, Some m') }) ?Q v"
    if "settled ?keep v" for logsDir profile v
    unfolding wp_simps(2) by (rule wp_run_profile [OF that assms(2)]) simp
  have "wp (Run env options) ?Q w"
  proof (cases "ResolveProfile (op_profile (setDefaults options))")
    case (Inl err)
    then show ?thesis using assms(1) by (simp add: Run_def Let_def keep)
  next
    case (Inr profile)
    have st: "settled ?keep w" using assms(1) by (simp only: keep)
    show ?thesis unfolding Run_def Let_def Inr sum.case
      by (rule wp_proceed_settled [OF quiet.keeps_calls(1) st] | (erule wp_proceed_settled [OF quiet.keeps_calls(1)] wp_proceed_settled [OF quiet_results(1)])
          | (erule failed) | (erule last) | (simp only: wp_simps))+
  qed
  then show ?thesis by (simp only: keep)
qed

section \<open>A run leaves nothing behind\<close>

text \<open>
  C36. Whatever fails during a run of the benchmark harness (a command of the operating system, a server that crashes or never
  answers, a measurement, the writing of the results), when \<^verbatim>\<open>Run\<close> returns no server process it started is alive, every
  data directory it created has been removed unless the data is to be kept, and it has removed nothing but directories it created.
\<close>

theorem bench_run_leaves_nothing:
  assumes "temp_ok env" "live w = {}" "dirs w = {}" "swept w = {}" "run_state (Run env options) w = (res, w')"
  shows "live w' = {} \<and> (KeepData options \<or> dirs w' \<subseteq> swept w') \<and> swept w' \<subseteq> dirs w'"
proof -
  have "settled (KeepData options) w" using assms(2-4) by (simp add: settled_def)
  from wp_Run [OF this assms(1)] assms(5) show ?thesis by (simp add: wp_def settled_def)
qed

definition busy_machine :: bench_env where
  \<comment> \<open>a machine that can build the server and make one directory, and nothing after that\<close>
  "busy_machine =
     \<lparr>fault = (\<lambda>n. if n < 12 then None else Some ''too many open files''), answer = (\<lambda>_. None), crashed = (\<lambda>_. {}), rounds = (\<lambda>_. 3),
      measured = (\<lambda>_. (None, None)), tempDir = ''/tmp'', suffix = (\<lambda>_. ''42''), free_ports = (\<lambda>_. []), result_name = ''r''\<rparr>"

definition default_options :: Options where
  "default_options =
     \<lparr>op_profile = [], ResultsRoot = [], ServerBinary = [], BuildCommand = [], Duration = 0, Warmup = 0, Concurrency = 0,
      PipelineDepth = 0, op_seed = 0, KeepData = False\<rparr>"

definition clean_start :: bench_world where
  "clean_start = \<lparr>calls = 0, live = {}, dirs = {}, swept = {}, published = None\<rparr>"

lemma busy_machine_run: "dirs (snd (run_state (Run busy_machine default_options) clean_start)) = {''/tmp/skiffdb-bench-data-42''}"
  by code_simp

theorem bench_run_leaves_nothing_witness:
  "live (snd (run_state (Run busy_machine default_options) clean_start)) = {}
   \<and> swept (snd (run_state (Run busy_machine default_options) clean_start)) = {''/tmp/skiffdb-bench-data-42''}"
  using bench_run_leaves_nothing [of busy_machine clean_start default_options
      "fst (run_state (Run busy_machine default_options) clean_start)" "snd (run_state (Run busy_machine default_options) clean_start)"]
  unfolding busy_machine_run by (auto simp: temp_ok_def busy_machine_def clean_start_def default_options_def slash_def)

end
