(* ===== verification/BenchResults.thy ===== *)
theory BenchResults
  imports BenchSafety
begin

text \<open>
  The results a run of the benchmark harness publishes (\<^verbatim>\<open>benchmarks/harness/run.go\<close>): they are written after every step, and marked
  as completed only when every deployment has been measured under every workload and every scenario has a result. A computation
  \<open>yields\<close> a fact about its result if it has one whatever it meets and publishes drafts only.
\<close>

named_theorems yield_rules

section \<open>Drafts\<close>

definition draft :: "bench_world \<Rightarrow> bool" where
  "draft w \<longleftrightarrow> (\<forall>p. published w = Some p \<longrightarrow> \<not> Completed p)"

definition yields :: "'a bench \<Rightarrow> ('a \<Rightarrow> bool) \<Rightarrow> bool" where
  "yields m F \<longleftrightarrow> (\<forall>w. draft w \<longrightarrow> wp m (\<lambda>x w'. draft w' \<and> F x) w)"

abbreviation drafts :: "'a bench \<Rightarrow> bool" where
  "drafts m \<equiv> yields m (\<lambda>_. True)"

lemma yields_return: "F x \<Longrightarrow> yields (State_Monad.return x) F"
  by (simp add: yields_def)

lemma yields_bind:
  assumes "yields m G" "\<And>x. G x \<Longrightarrow> yields (f x) F"
  shows "yields (State_Monad.bind m f) F"
  unfolding yields_def wp_simps
proof (intro allI impI)
  fix w assume "draft w"
  then have "wp m (\<lambda>x w'. draft w' \<and> G x) w" using assms(1) by (simp add: yields_def)
  then show "wp m (\<lambda>x. wp (f x) (\<lambda>x w'. draft w' \<and> F x)) w"
    by (rule wp_mono) (use assms(2) in \<open>simp add: yields_def\<close>)
qed

lemma yields_mono: "yields m G \<Longrightarrow> (\<And>x. G x \<Longrightarrow> F x) \<Longrightarrow> yields m F"
  unfolding yields_def by (blast intro: wp_mono)

lemma yields_proceed:
  "drafts m \<Longrightarrow> (\<And>e. yields (fail e) F) \<Longrightarrow> yields k F \<Longrightarrow> yields (proceed m fail k) F"
  unfolding proceed_def by (rule yields_bind) (auto split: option.split)

lemmas drafts_proceed [yield_rules] = yields_proceed [where F = "\<lambda>_. True"]

lemma drafts_parts [yield_rules]:
  "drafts (State_Monad.return x)"
  "drafts m \<Longrightarrow> (\<And>x. drafts (f x)) \<Longrightarrow> drafts (State_Monad.bind m f)"
  "drafts g \<Longrightarrow> (\<And>x. drafts (h x)) \<Longrightarrow> drafts (case opt of None \<Rightarrow> g | Some x \<Rightarrow> h x)"
  by (simp add: yields_def, rule yields_bind) (simp_all split: option.split)

section \<open>Computations that publish nothing\<close>

definition same_results :: "bench_world \<Rightarrow> bench_world \<Rightarrow> bool" where
  "same_results w w' \<longleftrightarrow> published w' = published w"

interpretation silent: world_frame same_results
  by unfold_locales (auto simp: same_results_def)

lemma silent_drafts: "keeps same_results m \<Longrightarrow> drafts m"
  unfolding yields_def by (intro allI impI, erule wp_mono [OF keepsD]) (auto simp: same_results_def draft_def)

lemma silent_changes [frame_rules]:
  "keeps same_results (State (\<lambda>w. ((), w\<lparr>live := f w\<rparr>)))" "keeps same_results (State (\<lambda>w. ((), w\<lparr>dirs := g w\<rparr>)))"
  "keeps same_results (State (\<lambda>w. ((), w\<lparr>swept := h w\<rparr>)))"
  by (simp_all add: keeps_def same_results_def)

lemma silent_nodes [frame_rules]: "keeps same_results (spawn env)" "keeps same_results (node_start env n)" "keeps same_results (node_stop env n)"
proof -
  show s: "keeps same_results (spawn env)"
    by (auto simp: keeps_def same_results_def spawn_def tick_def split: option.split)
  show "keeps same_results (node_start env n)" "keeps same_results (node_stop env n)"
    unfolding node_start_def node_stop_def by (intro frame_rules s)+
qed

lemma silent_stop_running [frame_rules]: "keeps same_results (stop_running env ns)"
  by (induction ns) (auto intro!: frame_rules)

lemma silent_cluster [frame_rules]:
  "keeps same_results (stopAll env c)" "keeps same_results (stopNode env i c)" "keeps same_results (restartNode env i c)"
  "keeps same_results (cleanupData env c)"
  unfolding stopAll_def stopNode_def restartNode_def cleanupData_def Let_def by (intro frame_rules)+

lemma silent_tear_down [frame_rules]: "keeps same_results (tear_down env c)"
  unfolding tear_down_def by (intro frame_rules)

lemma silent_loops [frame_rules]: "keeps same_results (restart_all env is' c)" "keeps same_results (start_nodes env logsDir ports is' c)"
  by (induction is' arbitrary: c) (auto intro!: frame_rules simp: Let_def)

lemma silent_startCluster [frame_rules]: "keeps same_results (make_temp env)" "keeps same_results (startCluster env d logsDir keep)"
proof -
  show m: "keeps same_results (make_temp env)" unfolding make_temp_def by (intro frame_rules)
  show "keeps same_results (startCluster env d logsDir keep)" unfolding startCluster_def Let_def by (intro frame_rules m)
qed

lemmas drafts_silent [yield_rules] = silent.keeps_calls [THEN silent_drafts] silent.keeps_probes [THEN silent_drafts]
  silent_cluster [THEN silent_drafts]

section \<open>Publishing drafts\<close>

lemma drafts_publish [yield_rules]:
  assumes "\<not> Completed m"
  shows "drafts (publish env m)"
proof -
  have "drafts (State (\<lambda>w. ((), w\<lparr>published := Some m\<rparr>)))" using assms by (simp add: yields_def draft_def)
  then show ?thesis unfolding publish_def by (intro yield_rules)
qed

lemma drafts_persist [yield_rules]: "\<not> Completed m \<Longrightarrow> drafts (persistBundle env m)"
  unfolding persistBundle_def Let_def by (intro yield_rules)

lemma drafts_failBundle [yield_rules]: "\<not> Completed m \<Longrightarrow> drafts (failBundle env m e)"
  unfolding failBundle_def by (intro yield_rules) simp

section \<open>What the steps record\<close>

text \<open>
  \<open>m'\<close> is a draft that extends \<open>m\<close>; if the step did not fail, it adds exactly the given measurements and scenarios.
\<close>

definition recorded :: "Metrics \<Rightarrow> (Deployment \<times> Workload) list \<Rightarrow> bytes list \<Rightarrow> bool \<Rightarrow> Metrics \<Rightarrow> bool" where
  "recorded m wls names fine m' \<longleftrightarrow> \<not> Completed m' \<and>
     (fine \<longrightarrow> run_workloads m' = run_workloads m @ wls \<and> run_scenarios m' = run_scenarios m @ names)"

lemma recorded_trans:
  "recorded m wls names True m1 \<Longrightarrow> recorded m1 wls' names' b m' \<Longrightarrow> recorded m (wls @ wls') (names @ names') b m'"
  by (auto simp: recorded_def)

lemma recorded_draft: "recorded m wls names b m' \<Longrightarrow> \<not> Completed m'"
  by (simp add: recorded_def)

lemma yields_measure_all:
  assumes "\<not> Completed m"
  shows "yields (measure_all env d wls m) (\<lambda>(r, m'). recorded m (map (Pair d) wls) [] (r = None) m')"
  using assms
proof (induction wls arbitrary: m)
  case Nil
  then show ?case by (simp add: yields_return recorded_def)
next
  case (Cons wl wls)
  let ?m = "m\<lparr>run_workloads := run_workloads m @ [(d, wl)]\<rparr>"
  have step: "yields (measure_all env d wls ?m) (\<lambda>(r, m'). recorded m (map (Pair d) (wl # wls)) [] (r = None) m')"
    by (rule yields_mono [OF Cons.IH]) (use Cons.prems in \<open>auto simp: recorded_def\<close>)
  have p: "drafts (persistBundle env ?m)" using Cons.prems by (intro yield_rules) simp
  show ?case unfolding measure_all.simps Let_def
    by (rule yields_bind [OF silent_drafts [OF silent.keeps_tick]], rule yields_bind [OF p])
      (use step Cons.prems in \<open>auto simp: recorded_def intro: yields_return split: option.split\<close>)
qed

lemma yields_run_deployment:
  assumes "\<not> Completed m"
  shows "yields (run_deployment env logsDir keep wls d m) (\<lambda>(r, m'). recorded m (map (Pair d) wls) [] (r = None) m')"
    (is "yields _ ?F")
proof -
  have stop: "yields (do { tear_down env c; State_Monad.return (Some e, m') }) ?F" if "\<not> Completed m'" for c e m'
    by (rule yields_bind [OF silent_drafts [OF silent_tear_down]], rule yields_return) (use that in \<open>simp add: recorded_def\<close>)
  have close: "yields (do {
      c' \<leftarrow> stopAll env c;
      let m2 = m1\<lparr>run_processes := run_processes m1 @ metrics c'\<rparr>;
      cleanupData env c';
      r \<leftarrow> persistBundle env m2;
      State_Monad.return (map_option PersistFailed r, m2)
    }) ?F" if "recorded m (map (Pair d) wls) [] True m1" for c m1
    unfolding Let_def
    by (rule yields_bind [OF silent_drafts [OF silent_cluster(1)]], rule yields_bind [OF silent_drafts [OF silent_cluster(4)]],
        rule yields_bind [OF drafts_persist], use that in \<open>simp add: recorded_def\<close>, rule yields_return)
      (use that in \<open>simp add: recorded_def\<close>)
  have measure: "yields (do {
      (r, m1) \<leftarrow> measure_all env d wls m;
      case r of Some e \<Rightarrow> do { tear_down env c; State_Monad.return (Some e, m1) } | None \<Rightarrow> do {
        c' \<leftarrow> stopAll env c;
        let m2 = m1\<lparr>run_processes := run_processes m1 @ metrics c'\<rparr>;
        cleanupData env c';
        r \<leftarrow> persistBundle env m2;
        State_Monad.return (map_option PersistFailed r, m2)
      }
    }) ?F" for c
    by (rule yields_bind [OF yields_measure_all [OF assms]])
      (use stop close in \<open>auto simp: recorded_def split: option.split\<close>)
  show ?thesis
    unfolding run_deployment_def
    by (rule yields_bind [OF silent_drafts [OF silent_startCluster(2)]])
      (use stop measure assms in \<open>auto simp: recorded_def split: sum.split option.split
        intro!: yields_return yields_bind [OF drafts_persist] yields_bind [OF silent_drafts [OF silent.keeps_probes(4)]]\<close>)
qed

lemma yields_run_deployments:
  assumes "\<not> Completed m"
  shows "yields (run_deployments env logsDir keep wls ds m) (\<lambda>(r, m'). recorded m (List.product ds wls) [] (r = None) m')"
  using assms
proof (induction ds arbitrary: m)
  case Nil
  then show ?case by (simp add: yields_return recorded_def)
next
  case (Cons d ds)
  have "yields (run_deployments env logsDir keep wls ds m1) (\<lambda>(r, m'). recorded m (List.product (d # ds) wls) [] (r = None) m')"
    if "recorded m (map (Pair d) wls) [] True m1" for m1
    by (rule yields_mono [OF Cons.IH]) (use that in \<open>auto simp: recorded_def\<close>)
  then show ?case unfolding run_deployments.simps
    by (intro yields_bind [OF yields_run_deployment [OF Cons.prems]])
      (auto simp: recorded_def intro!: yields_return split: option.split)
qed

section \<open>What the scenarios record\<close>

definition records :: "stage \<Rightarrow> (Deployment \<times> Workload) list \<Rightarrow> bytes list \<Rightarrow> bool" where
  "records S wls names \<longleftrightarrow>
     (\<forall>c m. \<not> Completed m \<longrightarrow> yields (S c m) (\<lambda>(r, c', m'). recorded m wls names (r = None) m'))"

lemma records_and_then:
  assumes "records S wls names" "records T wls' names'"
  shows "records (and_then S T) (wls @ wls') (names @ names')"
  unfolding records_def
proof (intro allI impI)
  fix c and m :: Metrics
  assume m: "\<not> Completed m"
  have next': "yields (T c' m1) (\<lambda>(r, c', m'). recorded m (wls @ wls') (names @ names') (r = None) m')"
    if "recorded m wls names True m1" for c' m1
  proof (rule yields_mono)
    show "yields (T c' m1) (\<lambda>(r, c', m'). recorded m1 wls' names' (r = None) m')"
      using assms(2) recorded_draft [OF that] by (simp add: records_def)
  qed (auto intro: recorded_trans [OF that])
  show "yields (and_then S T c m) (\<lambda>(r, c', m'). recorded m (wls @ wls') (names @ names') (r = None) m')"
    unfolding and_then_def
  proof (rule yields_bind)
    show "yields (S c m) (\<lambda>(r, c', m'). recorded m wls names (r = None) m')" using assms(1) m by (simp add: records_def)
    fix x :: "bytes option \<times> bench_cluster \<times> Metrics"
    assume a: "case x of (r, c', m') \<Rightarrow> recorded m wls names (r = None) m'"
    show "yields (case x of (r, c', m') \<Rightarrow> (case r of Some err \<Rightarrow> State_Monad.return (Some err, c', m') | None \<Rightarrow> T c' m'))
        (\<lambda>(r, c', m'). recorded m (wls @ wls') (names @ names') (r = None) m')"
      using a next' by (auto intro!: yields_return simp: recorded_def [of m _ _ False] split: option.split)
  qed
qed

lemma records_with_leader:
  assumes "\<And>leader. records (f leader) wls names"
  shows "records (with_leader env f) wls names"
  unfolding records_def with_leader_def
proof (intro allI impI, rule yields_bind [OF silent_drafts [OF silent.keeps_probes(4)]])
  fix c and m :: Metrics and l assume m: "\<not> Completed m"
  then have "yields (f leader c m) (\<lambda>(r, c', m'). recorded m wls names (r = None) m')" for leader
    using assms by (simp add: records_def)
  then show "yields (case l of Inl err \<Rightarrow> State_Monad.return (Some err, c, m) | Inr leader \<Rightarrow> f leader c m)
      (\<lambda>(r, c', m'). recorded m wls names (r = None) m')"
    using m by (cases l) (simp_all add: yields_return recorded_def)
qed

lemma records_nothing:
  "(\<And>c. drafts (f c)) \<Longrightarrow> records (on_cluster f) [] []"
  "drafts g \<Longrightarrow> records (ensure g) [] []"
  unfolding records_def on_cluster_def ensure_def
  by (intro allI impI, rule yields_bind [of _ "\<lambda>_. True"]; force simp: recorded_def intro!: yields_return)+

lemma records_describe: "records (describe_stage env) [] []"
  unfolding records_def describe_stage_def
  by (intro allI impI, rule yields_bind [OF drafts_persist]) (auto simp: recorded_def intro!: yields_return)

lemma yields_record_scenario:
  assumes "\<not> Completed m"
  shows "yields (record_scenario env names e c m) (\<lambda>(r, c', m'). recorded m [] names (r = None) m')"
  unfolding record_scenario_def Let_def
  by (rule yields_bind [OF drafts_persist]) (use assms in \<open>auto simp: recorded_def intro!: yields_return\<close>)

lemma records_snapshot: "records (snapshot_stage env) [(DurableThree, snapshot_workload)] [''snapshot_under_load'']"
  unfolding snapshot_stage_def
proof (rule records_with_leader, unfold records_def, intro allI impI, rule yields_bind [OF silent_drafts [OF silent.keeps_tick]])
  fix c and m :: Metrics and n
  assume "\<not> Completed m"
  then show "yields (record_scenario env [''snapshot_under_load'']
       (case snd (measured env n) of Some err \<Rightarrow> Some err | None \<Rightarrow> fst (measured env n))
       c (m\<lparr>run_workloads := run_workloads m @ [(DurableThree, snapshot_workload)]\<rparr>))
      (\<lambda>(r, c', m'). recorded m [(DurableThree, snapshot_workload)] [''snapshot_under_load''] (r = None) m')"
    by (intro yields_mono [OF yields_record_scenario]) (auto simp: recorded_def)
qed

text \<open>A step that waits and records one or more scenarios under the error of the wait.\<close>

lemma records_wait:
  assumes "\<And>c. drafts (g c)"
  shows "records (\<lambda>c m. do { e \<leftarrow> g c; record_scenario env names e c m }) [] names"
  unfolding records_def by (intro allI impI, rule yields_bind [OF assms], erule yields_record_scenario)

lemmas records_seq = records_and_then [where wls = "[]" and names = "[]", unfolded append_Nil]

lemma records_catchup: "records (catchup_stage env) [] [''follower_catchup'']"
proof -
  have wait: "records (\<lambda>c m. do { e \<leftarrow> waitForValue env want; record_scenario env [''follower_catchup''] e c m }) [] [''follower_catchup'']" for want
    by (rule records_wait [OF silent_drafts [OF silent.keeps_probes(2)]])
  have marked: "records (\<lambda>c m. State_Monad.bind (tick env) (\<lambda>n. S n c m)) wls names" if "\<And>n. records (S n) wls names" for S wls names
    unfolding records_def by (intro allI impI, rule yields_bind [OF silent_drafts [OF silent.keeps_tick]]) (use that in \<open>simp add: records_def\<close>)
  show ?thesis unfolding catchup_stage_def Let_def
    by (intro records_with_leader records_seq records_nothing marked wait yield_rules)
qed

lemma records_failover: "records (failover_stage env) [] [''leader_failover'']"
proof -
  have after: "records (\<lambda>c. ensure (waitForWritable env (nodes c)) c) [] []"
    unfolding records_def ensure_def
    by (intro allI impI, rule yields_bind [OF silent_drafts [OF silent.keeps_probes(3)]]) (auto simp: recorded_def intro!: yields_return)
  show ?thesis unfolding failover_stage_def
    by (intro records_with_leader records_seq records_nothing yield_rules
        records_and_then [OF records_wait, where wls' = "[]" and names' = "[]", simplified] after)
qed

lemma records_restart: "records (restart_stage env) [] [''snapshot_plus_log_replay'', ''full_cluster_restart'']"
proof -
  let ?names = "[''snapshot_plus_log_replay'', ''full_cluster_restart'']"
  have stop: "records (\<lambda>c m. do { c' \<leftarrow> stopAll env c; State_Monad.return (None, c', m) }) [] []"
    unfolding records_def by (intro allI impI, rule yields_bind [OF silent_drafts [OF silent_cluster(1)]]) (auto simp: recorded_def intro!: yields_return)
  have restart: "records (\<lambda>c. on_cluster (restart_all env [0..<length (nodes c)]) c) [] []"
    unfolding records_def on_cluster_def
    by (intro allI impI, rule yields_bind [OF silent_drafts [OF silent_loops(1)]]) (auto simp: recorded_def intro!: yields_return split: prod.split)
  have fin: "records (\<lambda>c m. do {
       e \<leftarrow> proceed (waitForWritable env (nodes c)) (\<lambda>err. State_Monad.return (Some err)) (wait_values env (nodes c));
       c' \<leftarrow> stopAll env c;
       cleanupData env c';
       record_scenario env ?names e c' (m\<lparr>run_processes := run_processes m @ metrics c'\<rparr>)
     }) [] ?names"
    unfolding records_def
    by (intro allI impI, rule yields_bind, rule drafts_proceed [OF silent_drafts [OF silent.keeps_probes(3)] drafts_parts(1) silent_drafts [OF silent.keeps_values]],
        rule yields_bind [OF silent_drafts [OF silent_cluster(1)]], rule yields_bind [OF silent_drafts [OF silent_cluster(4)]],
        rule yields_mono [OF yields_record_scenario]) (auto simp: recorded_def)
  show ?thesis unfolding restart_stage_def
    by (intro records_with_leader records_seq records_nothing stop restart fin yield_rules)
qed

definition scenario_names :: "bytes list" where
  "scenario_names = [''snapshot_under_load'', ''follower_catchup'', ''leader_failover'', ''snapshot_plus_log_replay'', ''full_cluster_restart'']"

lemma yields_runScenarios:
  assumes "\<not> Completed m"
  shows "yields (runScenarios env logsDir keep m) (\<lambda>(r, m'). recorded m [(DurableThree, snapshot_workload)] scenario_names (r = None) m')"
    (is "yields _ ?F")
proof -
  let ?stages = "and_then (describe_stage env) (and_then (snapshot_stage env) (and_then (catchup_stage env)
            (and_then (failover_stage env) (restart_stage env))))"
  have all: "records ?stages [(DurableThree, snapshot_workload)] scenario_names"
    using records_seq [OF records_describe records_and_then [OF records_snapshot
        records_and_then [OF records_catchup records_and_then [OF records_failover records_restart]]]]
    by (simp add: scenario_names_def)
  have run: "yields (do { (r, c', m') \<leftarrow> ?stages c m; tear_down env c'; State_Monad.return (r, m') }) ?F" for c
  proof (rule yields_bind)
    show "yields (?stages c m) (\<lambda>(r, c', m'). recorded m [(DurableThree, snapshot_workload)] scenario_names (r = None) m')"
      using all assms by (simp add: records_def)
  qed (auto intro!: yields_bind [OF silent_drafts [OF silent_tear_down]] yields_return)
  have "yields (case x of Inl err \<Rightarrow> State_Monad.return (Some err, m)
      | Inr c \<Rightarrow> do { (r, c', m') \<leftarrow> ?stages c m; tear_down env c'; State_Monad.return (r, m') }) ?F" for x
    using run assms by (cases x) (simp_all add: yields_return recorded_def [of m _ _ False])
  then show ?thesis unfolding runScenarios_def by (rule yields_bind [OF silent_drafts [OF silent_startCluster(2)]])
qed

section \<open>Completed means complete\<close>

definition complete :: "Profile \<Rightarrow> Metrics \<Rightarrow> bool" where
  "complete profile p \<longleftrightarrow>
     run_workloads p = List.product (Deployments profile) (Workloads profile)
         @ (if Scenarios profile then [(DurableThree, snapshot_workload)] else [])
     \<and> run_scenarios p = (if Scenarios profile then scenario_names else [])"

definition honest :: "Profile \<Rightarrow> bytes option \<Rightarrow> Metrics option \<Rightarrow> bench_world \<Rightarrow> bool" where
  "honest profile r res w \<longleftrightarrow> (\<forall>p. published w = Some p \<and> Completed p \<longrightarrow> complete profile p)
     \<and> (r = None \<longrightarrow> (\<exists>m. res = Some m \<and> published w = res \<and> Completed m))"

lemma draft_honest: "draft w \<Longrightarrow> honest profile (Some e) res w"
  by (auto simp: draft_def honest_def)

lemma yieldsD: "yields m F \<Longrightarrow> draft w \<Longrightarrow> (\<And>x w'. draft w' \<Longrightarrow> F x \<Longrightarrow> Q x w') \<Longrightarrow> wp m Q w"
  unfolding yields_def by (blast intro: wp_mono)

lemma wp_publishing:
  assumes "\<And>r w'. published w' = (case r of None \<Rightarrow> Some m | Some _ \<Rightarrow> published w') \<Longrightarrow>
      published w' = published w \<or> published w' = Some m \<Longrightarrow> Q r w'"
  shows "wp (persistBundle env m) Q w"
  unfolding persistBundle_def publish_def os_call_def proceed_def Let_def tick_def wp_simps
  by (auto intro!: assms split: option.split)

lemma wp_finish:
  assumes "draft w" "recorded empty_metrics wls names True m" "complete profile (m\<lparr>Completed := True, run_error := []\<rparr>)"
  shows "wp (do { let m'' = m\<lparr>Completed := True, run_error := []\<rparr>; r \<leftarrow> persistBundle env m''; State_Monad.return (r, m'') })
      (\<lambda>(r, m'). honest profile r (Some m')) w"
  unfolding Let_def wp_simps
  by (rule wp_publishing) (use assms in \<open>auto simp: draft_def honest_def split: option.splits\<close>)

lemma wp_run_profile_honest:
  assumes "draft w"
  shows "wp (run_profile env logsDir keep profile) (\<lambda>(r, m). honest profile r (Some m)) w" (is "wp _ ?Q w")
proof -
  let ?wls = "List.product (Deployments profile) (Workloads profile)"
  let ?wls' = "?wls @ (if Scenarios profile then [(DurableThree, snapshot_workload)] else [])"
  let ?names = "if Scenarios profile then scenario_names else []"
  have fail: "wp (failBundle env m e) ?Q v" if "draft v" "\<not> Completed m" for m e v
    unfolding failBundle_def wp_simps
    by (rule yieldsD [OF drafts_persist that(1)]) (use that(2) draft_honest in auto)
  let ?fin = "\<lambda>m'. do { let m'' = m'\<lparr>Completed := True, run_error := []\<rparr>; r \<leftarrow> persistBundle env m''; State_Monad.return (r, m'') }"
  let ?last = "\<lambda>(r, m'). case r of Some err \<Rightarrow> failBundle env m' err | None \<Rightarrow> ?fin m'"
  have last: "wp (?last (r, m')) ?Q v" if v: "draft v" and m': "recorded empty_metrics ?wls' ?names (r = None) m'" for r m' v
  proof (cases r)
    case None
    with m' have m': "recorded empty_metrics ?wls' ?names True m'" by simp
    then have "complete profile (m'\<lparr>Completed := True, run_error := []\<rparr>)"
      by (simp add: recorded_def complete_def empty_metrics_def)
    from wp_finish [OF v m' this] None show ?thesis by (simp only: prod.case option.case)
  next
    case (Some e)
    with fail [OF v recorded_draft [OF m']] show ?thesis by (simp only: prod.case option.case)
  qed
  let ?scen = "\<lambda>m. if Scenarios profile then runScenarios env logsDir keep m else State_Monad.return (None, m)"
  have scen: "yields (?scen m) (\<lambda>(r, m'). recorded empty_metrics ?wls' ?names (r = None) m')"
    if m: "recorded empty_metrics ?wls [] True m" for m
    using yields_mono [OF yields_runScenarios [OF recorded_draft [OF m]]] recorded_trans [OF m] m
    by (auto intro!: yields_return)
  have start: "yields (run_deployments env logsDir keep (Workloads profile) (Deployments profile) empty_metrics)
      (\<lambda>(r, m). recorded empty_metrics ?wls [] (r = None) m)"
    by (rule yields_run_deployments) (simp add: empty_metrics_def)
  show ?thesis
    unfolding run_profile_def wp_simps(2) [of "run_deployments env logsDir keep (Workloads profile) (Deployments profile) empty_metrics"]
  proof (rule yieldsD [OF start assms], clarify)
    fix r :: "run_stop option" and m and v :: bench_world
    assume v: "draft v" and m: "recorded empty_metrics ?wls [] (r = None) m"
    show "wp (case r of Some (PersistFailed err) \<Rightarrow> State_Monad.return (Some err, m) | Some (RunFailed err) \<Rightarrow> failBundle env m err
        | None \<Rightarrow> State_Monad.bind (?scen m) ?last) ?Q v"
    proof (cases r)
      case None
      with m have "recorded empty_metrics ?wls [] True m" by simp
      then have "wp (State_Monad.bind (?scen m) ?last) ?Q v"
        unfolding wp_simps(2) by (rule yieldsD [OF scen v]) (use last in \<open>auto simp del: wp_simps\<close>)
      with None show ?thesis by (simp only: option.case)
    next
      case (Some e)
      then show ?thesis using fail [OF v recorded_draft [OF m]] draft_honest [OF v] by (cases e) (simp_all del: wp_simps(2,3))
    qed
  qed
qed

lemma wp_proceed_draft:
  assumes "drafts m" "draft w" "\<And>e w'. draft w' \<Longrightarrow> wp (fail e) Q w'" "\<And>w'. draft w' \<Longrightarrow> wp k Q w'"
  shows "wp (proceed m fail k) Q w"
  unfolding proceed_def wp_simps
  by (rule yieldsD [OF assms(1,2)]) (use assms(3,4) in \<open>auto simp del: wp_simps split: option.split\<close>)

lemma wp_Run_honest:
  assumes "draft w" "ResolveProfile (op_profile (setDefaults options)) = Inr profile"
  shows "wp (Run env options) (\<lambda>(e, res). honest profile e res) w"
proof -
  let ?Q = "\<lambda>(e, res). honest profile e res"
  have empty: "drafts (persistBundle env empty_metrics)" "drafts (failBundle env empty_metrics err)" for err
    by (intro yield_rules, simp add: empty_metrics_def)+
  have failed: "wp (do { (e, m') \<leftarrow> failBundle env empty_metrics err; State_Monad.return (e, Some m') }) ?Q v" if "draft v" for err v
    unfolding failBundle_def wp_simps by (rule yieldsD [OF drafts_persist that]) (auto simp: empty_metrics_def draft_honest)
  have last: "wp (do { (e, m') \<leftarrow> run_profile env logsDir keep profile; State_Monad.return (e, Some m') }) ?Q v"
    if "draft v" for logsDir keep v
    unfolding wp_simps(2) by (rule wp_mono [OF wp_run_profile_honest [OF that]]) auto
  have stop: "wp (State_Monad.return (Some err, res)) ?Q v" if "draft v" for err res v
    using draft_honest [OF that] by simp
  show ?thesis unfolding Run_def Let_def assms(2) sum.case
    by (rule wp_proceed_draft [OF silent_drafts [OF silent.keeps_calls(1)] assms(1)]
        | (erule wp_proceed_draft [OF silent_drafts [OF silent.keeps_calls(1)]] wp_proceed_draft [OF empty(1)]) | (erule failed last stop))+
qed

text \<open>
  C37. If the results on disk say that the run was completed, they hold a measurement for every deployment of the profile under
  every workload, in order, and, for a profile with scenarios, the measurement under a snapshot and a result for each of
  the five scenarios, whatever failed on the way; and if \<^verbatim>\<open>Run\<close> returns without an error, the results on disk
  are those it returns and they say that the run was completed.
\<close>

theorem completed_run_is_complete:
  assumes "published w = None" "run_state (Run env options) w = ((e, res), w')"
  shows "(\<forall>p. published w' = Some p \<and> Completed p \<longrightarrow>
            (\<exists>profile. ResolveProfile (op_profile (setDefaults options)) = Inr profile \<and> complete profile p))
    \<and> (e = None \<longrightarrow> (\<exists>m. res = Some m \<and> published w' = Some m \<and> Completed m))"
proof (cases "ResolveProfile (op_profile (setDefaults options))")
  case (Inl err)
  with assms show ?thesis by (auto simp: Run_def Let_def)
next
  case (Inr profile)
  have "draft w" using assms(1) by (simp add: draft_def)
  from wp_Run_honest [OF this Inr, of env] have "honest profile e res w'" using assms(2) by (simp add: wp_def)
  with Inr show ?thesis by (auto simp: honest_def)
qed

definition ok_reply :: bytes where
  "ok_reply = ''+OK'' @ Separator @ ''captured'' @ Separator @ ''replayed'' @ Separator @ ''42'' @ Separator"

definition healthy_machine :: bench_env where
  \<comment> \<open>every call succeeds, and every server answers at once: one that has just been started with \<^verbatim>\<open>+PONG\<close>\<close>
  "healthy_machine =
     busy_machine\<lparr>fault := (\<lambda>_. None), rounds := (\<lambda>_. 1),
       answer := (\<lambda>n. Some (if n \<in> set [18, 46, 76, 84, 90, 120, 128, 134, 158, 180, 195, 201, 207] then ''+PONG'' else ok_reply))\<rparr>"

named_theorems healthy_rules

lemma ok_reply_fits [healthy_rules]:
  "HasPrefix ok_reply ''+OK''" "HasPrefix ''+PONG'' ''+PONG''"
  by code_simp+

lemma ok_reply_values:
  "Contains ok_reply (Separator @ ''captured'' @ Separator)"
  "Contains ok_reply (Separator @ ''replayed'' @ Separator)" "Contains ok_reply (Separator @ ''42'' @ Separator)"
  by code_simp+

lemmas ok_reply_contains [healthy_rules] = ok_reply_values [unfolded append_Cons append_Nil]

lemma healthy_fields [healthy_rules]:
  "fault healthy_machine n = None" "rounds healthy_machine n = 1" "crashed healthy_machine n = {}"
  "measured healthy_machine n = (None, None)" "suffix healthy_machine n = ''42''"
  by (simp_all add: healthy_machine_def busy_machine_def)

lemma healthy_answer [healthy_rules]:
  "answer healthy_machine n =
     Some (if n \<in> set [18, 46, 76, 84, 90, 120, 128, 134, 158, 180, 195, 201, 207] then ''+PONG'' else ok_reply)"
  by (simp add: healthy_machine_def)

lemma healthy_tick [healthy_rules]: "run_state (tick healthy_machine) w = (calls w, w\<lparr>calls := calls w + 1\<rparr>)"
  by (simp add: tick_def healthy_fields)

lemma healthy_calls [healthy_rules]:
  "run_state (os_call healthy_machine) w = (None, w\<lparr>calls := calls w + 1\<rparr>)"
  "run_state (exchange healthy_machine) w = (answer healthy_machine (calls w), w\<lparr>calls := calls w + 1\<rparr>)"
  by (simp_all add: os_call_def exchange_def healthy_tick healthy_fields)

lemma healthy_persist [healthy_rules]:
  "run_state (persistBundle healthy_machine m) w = (None, w\<lparr>calls := calls w + 5, published := Some m\<rparr>)"
  by (simp add: persistBundle_def publish_def proceed_def healthy_calls Let_def eval_nat_numeral)

lemma healthy_start [healthy_rules]:
  "bn_cmd n = None \<Longrightarrow> run_state (node_start healthy_machine n) w
     = ((None, n\<lparr>bn_cmd := Some (calls w + 3)\<rparr>), w\<lparr>calls := calls w + 4, live := insert (calls w + 3) (live w)\<rparr>)"
  by (simp add: node_start_def spawn_def proceed_def healthy_tick healthy_calls healthy_fields eval_nat_numeral)

lemma healthy_stop [healthy_rules]:
  "bn_cmd n = Some pid \<Longrightarrow> run_state (node_stop healthy_machine n) w
     = ((\<lparr>pm_node = bn_id n, pm_process = Some pid\<rparr>, stopped n), w\<lparr>calls := calls w + 1, live := live w - {pid}\<rparr>)"
  by (simp add: node_stop_def healthy_tick)

lemma healthy_cleanup [healthy_rules]:
  "keepData c = False \<Longrightarrow> dataRoot c = temp_path healthy_machine n \<Longrightarrow>
     run_state (cleanupData healthy_machine c) w = ((), w\<lparr>swept := insert (Clean (dataRoot c)) (swept w)\<rparr>)"
  using cleanup_hits [of healthy_machine n]
  by (simp add: cleanupData_def temp_ok_def healthy_machine_def busy_machine_def slash_def)

lemma healthy_nodes [healthy_rules]: "bn_cmd (make_node d dr l ps ns i) = None" "bn_cmd (stopped n) = None"
  by (simp_all add: make_node_def stopped_def)

lemma bind_weak_cong: "m = m' \<Longrightarrow> State_Monad.bind m f = State_Monad.bind m' f"
  by simp

lemma proceed_weak_cong: "m = m' \<Longrightarrow> proceed m f k = proceed m' f k"
  by simp

lemmas healthy_clusters = startCluster_def make_temp_def tear_down_def stopAll_def stopNode_def restartNode_def
  waitForRESP_def waitForWritable_def waitForValue_def findLeader_def command_ok_def node_count_def

lemmas healthy_stages = and_then_def with_leader_def on_cluster_def ensure_def describe_stage_def record_scenario_def
  snapshot_stage_def catchup_stage_def failover_stage_def restart_stage_def

definition shape :: "bench_cluster \<Rightarrow> bool list \<Rightarrow> bool" where
  "shape c pat \<longleftrightarrow> map (\<lambda>n. bn_cmd n \<noteq> None) (nodes c) = pat \<and> keepData c = False \<and> (\<exists>n. dataRoot c = temp_path healthy_machine n)"

definition goes :: "stage \<Rightarrow> bool list \<Rightarrow> bool list \<Rightarrow> nat \<Rightarrow> nat \<Rightarrow> bool" where
  "goes S pat pat' n n' \<longleftrightarrow> (\<forall>c m w. shape c pat \<and> calls w = n \<longrightarrow>
     (\<exists>c' m' w'. run_state (S c m) w = ((None, c', m'), w') \<and> shape c' pat' \<and> calls w' = n'))"

lemma goes_and_then:
  assumes "goes S pat pat1 n n1" "goes T pat1 pat2 n1 n2"
  shows "goes (and_then S T) pat pat2 n n2"
  unfolding goes_def
proof (intro allI impI)
  fix c m and w :: bench_world
  assume "shape c pat \<and> calls w = n"
  with assms(1) obtain c1 m1 w1 where "run_state (S c m) w = ((None, c1, m1), w1)" "shape c1 pat1" "calls w1 = n1"
    unfolding goes_def by blast
  moreover from this(2,3) assms(2) obtain c2 m2 w2 where "run_state (T c1 m1) w1 = ((None, c2, m2), w2)" "shape c2 pat2" "calls w2 = n2"
    unfolding goes_def by blast
  ultimately show "\<exists>c' m' w'. run_state (and_then S T c m) w = ((None, c', m'), w') \<and> shape c' pat2 \<and> calls w' = n2"
    by (simp add: and_then_def)
qed

lemmas healthy_simps = healthy_rules healthy_clusters healthy_stages proceed_def Let_def upt_rec shape_def

lemma healthy_up:
  "calls w = 11 \<Longrightarrow> \<exists>c w'. run_state (startCluster healthy_machine InMemorySingle logsDir False) w = (Inr c, w') \<and> shape c [True] \<and> calls w' = 21"
  "calls w = 39 \<Longrightarrow> \<exists>c w'. run_state (startCluster healthy_machine DurableSingle logsDir False) w = (Inr c, w') \<and> shape c [True] \<and> calls w' = 51"
  "calls w = 69 \<Longrightarrow> \<exists>c w'. run_state (startCluster healthy_machine DurableThree logsDir False) w = (Inr c, w') \<and> shape c [True, True, True] \<and> calls w' = 93"
  "calls w = 113 \<Longrightarrow> \<exists>c w'. run_state (startCluster healthy_machine DurableThree logsDir False) w = (Inr c, w') \<and> shape c [True, True, True] \<and> calls w' = 137"
  by (simp_all add: healthy_simps cong: bind_weak_cong proceed_weak_cong) blast+

lemma goes_three:
  assumes "\<And>c m w a b d. nodes c = [a, b, d] \<Longrightarrow> keepData c = False \<Longrightarrow> \<exists>k. dataRoot c = temp_path healthy_machine k \<Longrightarrow> calls w = n \<Longrightarrow>
      \<exists>p q r. bn_cmd a = Some p \<and> bn_cmd b = Some q \<and> bn_cmd d = Some r \<Longrightarrow>
      \<exists>c' m' w'. run_state (S c m) w = ((None, c', m'), w') \<and> shape c' pat' \<and> calls w' = n'"
  shows "goes S [True, True, True] pat' n n'"
  unfolding goes_def
proof (intro allI impI)
  fix c m and w :: bench_world
  assume a: "shape c [True, True, True] \<and> calls w = n"
  then obtain a b d where "nodes c = [a, b, d]" "\<exists>p q r. bn_cmd a = Some p \<and> bn_cmd b = Some q \<and> bn_cmd d = Some r"
    by (auto simp: shape_def)
  with assms [of c a b d w m] a show "\<exists>c' m' w'. run_state (S c m) w = ((None, c', m'), w') \<and> shape c' pat' \<and> calls w' = n'"
    by (simp add: shape_def [of c])
qed

lemma healthy_stage:
  "goes (describe_stage healthy_machine) [True, True, True] [True, True, True] 137 142"
  "goes (snapshot_stage healthy_machine) [True, True, True] [True, True, True] 142 149"
  "goes (catchup_stage healthy_machine) [True, True, True] [True, True, True] 149 166"
  "goes (failover_stage healthy_machine) [True, True, True] [True, True, True] 166 183"
  "goes (restart_stage healthy_machine) [True, True, True] [False, False, False] 183 230"
  by (rule goes_three, clarify, simp add: healthy_simps cong: bind_weak_cong proceed_weak_cong; blast?)+

lemma healthy_deployment:
  assumes up: "\<exists>c w1. run_state (startCluster healthy_machine d logsDir False) w = (Inr c, w1) \<and> shape c pat \<and> calls w1 = n1"
    and n1: "(pat = [True] \<and> n1 \<in> {21, 51}) \<or> (pat = [True, True, True] \<and> n1 = 93)"
  shows "\<exists>m' w'. run_state (run_deployment healthy_machine logsDir False [wl] d m) w = ((None, m'), w') \<and> calls w' = n1 + 17 + length pat"
proof -
  obtain c w1 where run: "run_state (startCluster healthy_machine d logsDir False) w = (Inr c, w1)"
    and c: "shape c pat" and w1: "calls w1 = n1" using up by blast
  have data: "keepData c = False" "\<exists>k. dataRoot c = temp_path healthy_machine k" using c by (simp_all add: shape_def)
  from c n1 consider a p where "nodes c = [a]" "bn_cmd a = Some p" "pat = [True]" "n1 \<in> {21, 51}"
    | a b e p q r where "nodes c = [a, b, e]" "bn_cmd a = Some p" "bn_cmd b = Some q" "bn_cmd e = Some r" "pat = [True, True, True]" "n1 = 93"
    by (auto simp: shape_def)
  then show ?thesis
    by cases (use run w1 data in \<open>auto simp: run_deployment_def findLeader_def stopAll_def healthy_rules Let_def cong: bind_weak_cong\<close>)
qed

lemma healthy_deployments:
  assumes "calls w = 11"
  shows "\<exists>m' w'. run_state (run_deployments healthy_machine logsDir False [wl] [InMemorySingle, DurableSingle, DurableThree] m) w = ((None, m'), w')
    \<and> calls w' = 113"
proof -
  obtain m1 w1 where 1: "run_state (run_deployment healthy_machine logsDir False [wl] InMemorySingle m) w = ((None, m1), w1)" "calls w1 = 39"
    using healthy_deployment [OF healthy_up(1) [OF assms]] by force
  obtain m2 w2 where 2: "run_state (run_deployment healthy_machine logsDir False [wl] DurableSingle m1) w1 = ((None, m2), w2)" "calls w2 = 69"
    using healthy_deployment [OF healthy_up(2) [OF 1(2)]] by force
  obtain m3 w3 where 3: "run_state (run_deployment healthy_machine logsDir False [wl] DurableThree m2) w2 = ((None, m3), w3)" "calls w3 = 113"
    using healthy_deployment [OF healthy_up(3) [OF 2(2)]] by force
  show ?thesis using 1 2 3 by simp
qed

lemma healthy_scenarios:
  assumes "calls w = 113"
  shows "\<exists>m' w'. run_state (runScenarios healthy_machine logsDir False m) w = ((None, m'), w') \<and> calls w' = 230"
proof -
  obtain c w1 where up: "run_state (startCluster healthy_machine DurableThree logsDir False) w = (Inr c, w1)" "shape c [True, True, True]" "calls w1 = 137"
    using healthy_up(4) [OF assms] by blast
  let ?S = "and_then (describe_stage healthy_machine) (and_then (snapshot_stage healthy_machine) (and_then (catchup_stage healthy_machine)
      (and_then (failover_stage healthy_machine) (restart_stage healthy_machine))))"
  have "goes ?S [True, True, True] [False, False, False] 137 230"
    by (rule healthy_stage goes_and_then)+
  with up obtain c' m' w2 where s: "run_state (?S c m) w1 = ((None, c', m'), w2)" "shape c' [False, False, False]" "calls w2 = 230"
    unfolding goes_def by blast
  then obtain a b d k where "nodes c' = [a, b, d]" "bn_cmd a = None" "bn_cmd b = None" "bn_cmd d = None" "keepData c' = False"
      "dataRoot c' = temp_path healthy_machine k"
    by (auto simp: shape_def)
  then show ?thesis using up s by (auto simp: runScenarios_def tear_down_def stopAll_def healthy_rules)
qed

lemma healthy_machine_run: "fst (fst (run_state (Run healthy_machine default_options) clean_start)) = None"
proof -
  let ?logs = "Join [''benchmarks/results'', result_name healthy_machine, ''logs'']"
  let ?wl = "\<lparr>wl_name = ''get95-set5'', GetPercent = 95, SetPercent = 5, ValueSize = 64\<rparr>"
  let ?w = "\<lparr>calls = 11, live = {}, dirs = {}, swept = {}, published = Some empty_metrics\<rparr>"
  obtain m1 w1 where 1: "run_state (run_deployments healthy_machine ?logs False [?wl] [InMemorySingle, DurableSingle, DurableThree] empty_metrics) ?w
      = ((None, m1), w1)" "calls w1 = 113"
    using healthy_deployments [of ?w ?logs ?wl empty_metrics] by (auto simp del: run_deployments.simps)
  obtain m2 w2 where 2: "run_state (runScenarios healthy_machine ?logs False m1) w1 = ((None, m2), w2)" "calls w2 = 230"
    using healthy_scenarios [OF 1(2)] by blast
  show ?thesis using 1 2
    by (simp add: Run_def run_profile_def setDefaults_def ResolveProfile_def full_profile_def default_options_def clean_start_def
        healthy_rules proceed_def Let_def cong: bind_weak_cong proceed_weak_cong del: run_deployments.simps)
qed

theorem completed_run_is_complete_witness:
  "\<exists>m. published (snd (run_state (Run healthy_machine default_options) clean_start)) = Some m \<and> Completed m
     \<and> length (run_workloads m) = 4 \<and> run_scenarios m = scenario_names"
proof -
  obtain e res w' where run: "run_state (Run healthy_machine default_options) clean_start = ((e, res), w')"
    by (metis surj_pair)
  have "e = None" using healthy_machine_run run by simp
  with completed_run_is_complete [OF _ run] obtain m profile
    where m: "published w' = Some m" "Completed m" "ResolveProfile (op_profile (setDefaults default_options)) = Inr profile" "complete profile m"
    by (auto simp: clean_start_def)
  then show ?thesis
    by (auto simp: run complete_def ResolveProfile_def setDefaults_def full_profile_def default_options_def [THEN arg_cong [where f = op_profile]])
qed

end
