(* ===== verification/Load.thy ===== *)
theory Load
  imports BenchRun Client "HOL-Library.Multiset"
begin

text \<open>
  The load generator of the benchmark harness (\<^verbatim>\<open>benchmarks/harness/workload.go\<close>): the workers, which send commands in
  pipelines over the client of \<open>Client\<close> and record every reply, the collection of their records, and the summaries.
  Random draws, readings of the clock and the operations on floating-point numbers are arguments; the laws of the latter
  that the lemmas use are \<open>float_laws\<close>. Durations are nanoseconds.

  Lemmas: a worker that talks to a server without Raft records a success for every command, whatever the depth of the
  pipelines; the summaries count every success exactly once, and their percentiles are those of the nearest-rank method.
\<close>

section \<open>Workers\<close>

record 'f recordedOp =
  ro_op :: bytes
  latencyUS :: 'f
  ro_finished :: int
  ro_success :: bool

record 'f worker_env =
  draw :: "nat \<Rightarrow> nat \<Rightarrow> nat" \<comment> \<open>\<open>draw env i n\<close>: draw \<open>i\<close> of the worker's generator, below \<open>n\<close>\<close>
  now :: "nat \<Rightarrow> int" \<comment> \<open>reading \<open>t\<close> of the clock\<close>
  as_us :: "int \<Rightarrow> 'f" \<comment> \<open>\<^verbatim>\<open>float64(ns) / 1e3\<close>\<close>

definition next_command :: "'f worker_env \<Rightarrow> Workload \<Rightarrow> bytes \<Rightarrow> nat \<Rightarrow> bytes \<times> bytes list" where
  "next_command env wl value i =
     (let isGet = int (draw env i 100) < GetPercent wl; key = bench_key (draw env (i + 1) 256)
      in if isGet then (''GET'', [''GET'', key]) else (''SET'', [''SET'', key, value]))"

fun write_batch :: "'f worker_env \<Rightarrow> Workload \<Rightarrow> bytes \<Rightarrow> nat \<Rightarrow> nat \<Rightarrow> nat \<Rightarrow> writer \<Rightarrow> (bytes \<times> int) list \<Rightarrow> bool \<times> (bytes \<times> int) list \<times> writer" where
  "write_batch env wl value 0 i t w batch = (False, batch, w)"
| "write_batch env wl value (Suc k) i t w batch =
     (case next_command env wl value i of
        (op, args) \<Rightarrow>
          (let started = now env t; batch' = batch @ [(op, started)]
           in case writeCommand args w of
                (True, w') \<Rightarrow> (True, batch', w')
              | (False, w') \<Rightarrow> write_batch env wl value k (i + 2) (t + 1) w' batch'))"

fun read_batch :: "'f worker_env \<Rightarrow> int \<Rightarrow> (bytes \<times> int) list \<Rightarrow> nat \<Rightarrow> reader \<Rightarrow> 'f recordedOp list
    \<Rightarrow> client_error status option \<times> 'f recordedOp list \<times> reader" where
  "read_batch env phaseStart [] t r local = (None, local, r)"
| "read_batch env phaseStart ((op, start) # pending) t r local =
     (case readResponse r of
        (res, r') \<Rightarrow>
          (let finished = now env t;
               success = (case res of Inl _ \<Rightarrow> False | Inr response \<Rightarrow> responseOK response);
               local' = local @ [\<lparr>ro_op = op, latencyUS = as_us env (finished - start),
                                   ro_finished = finished - phaseStart, ro_success = success\<rparr>]
           in case res of
                Inl e \<Rightarrow> (Some e, local', r')
              | Inr _ \<Rightarrow> read_batch env phaseStart pending (t + 1) r' local'))"

text \<open>The loop of a worker that finds its context alive \<open>k\<close> times; \<open>depth\<close> is \<^verbatim>\<open>opts.PipelineDepth\<close>.\<close>

fun worker_loop :: "'f worker_env \<Rightarrow> Workload \<Rightarrow> bytes \<Rightarrow> nat \<Rightarrow> int \<Rightarrow> nat \<Rightarrow> nat \<Rightarrow> nat \<Rightarrow> respClient \<Rightarrow> 'f recordedOp list
    \<Rightarrow> client_error status option \<times> 'f recordedOp list \<times> respClient" where
  "worker_loop env wl value depth phaseStart 0 i t c local = (None, local, c)"
| "worker_loop env wl value depth phaseStart (Suc k) i t c local =
     (case write_batch env wl value depth i t (cw c) [] of
        (True, batch, w) \<Rightarrow> (Some (Failure WriteFailed), local, c\<lparr>cw := w\<rparr>)
      | (False, batch, w) \<Rightarrow>
          (let w' = Flush w in
           if werr w' then (Some (Failure WriteFailed), local, c\<lparr>cw := w'\<rparr>)
           else
             (case read_batch env phaseStart batch (t + depth) (cr c) local of
                (Some e, local', r) \<Rightarrow> (Some e, local', c\<lparr>cr := r, cw := w'\<rparr>)
              | (None, local', r) \<Rightarrow>
                  worker_loop env wl value depth phaseStart k (i + 2 * depth) (t + 2 * depth) (c\<lparr>cr := r, cw := w'\<rparr>) local')))"

datatype load_error = DialError bytes | ClientError "client_error status"

text \<open>What a worker sends: to \<^verbatim>\<open>errorsCh\<close> and to \<^verbatim>\<open>results\<close>.\<close>

definition run_worker :: "'f worker_env \<Rightarrow> Workload \<Rightarrow> bytes \<Rightarrow> nat \<Rightarrow> int \<Rightarrow> nat \<Rightarrow> bytes + respClient
    \<Rightarrow> load_error list \<times> 'f recordedOp list list" where
  "run_worker env wl value depth phaseStart turns dialled =
     (case dialled of
        Inl e \<Rightarrow> ([DialError e], [])
      | Inr c \<Rightarrow>
          (case worker_loop env wl value depth phaseStart turns 0 0 c [] of
             (None, local, _) \<Rightarrow> ([], [local])
           | (Some e, local, _) \<Rightarrow> ([ClientError e], [local])))"

text \<open>
  After all workers have returned, the channels are drained; \<open>errors\<close> and \<open>results\<close> are their contents in the
  order of arrival.
\<close>

definition collect_phase :: "bool \<Rightarrow> load_error list \<Rightarrow> 'f recordedOp list list \<Rightarrow> 'f recordedOp list \<times> load_error option" where
  "collect_phase expired errors results =
     (let firstErr = (case errors of [] \<Rightarrow> None | e # _ \<Rightarrow> Some e)
      in (concat results, if expired then None else firstErr))"

section \<open>Summaries\<close>

record 'f floats =
  ms :: "int \<Rightarrow> 'f" \<comment> \<open>\<^verbatim>\<open>millis\<close>\<close>
  rate :: "nat \<Rightarrow> int \<Rightarrow> 'f" \<comment> \<open>\<^verbatim>\<open>float64(n) / d.Seconds()\<close>\<close>
  fzero :: 'f
  rank :: "nat \<Rightarrow> nat \<Rightarrow> int" \<comment> \<open>\<open>rank q n\<close>: \<^verbatim>\<open>int(math.Ceil(quantile * float64(n)))\<close>, the quantile in thousandths\<close>
  bucket_count :: "int \<Rightarrow> int \<Rightarrow> int" \<comment> \<open>\<^verbatim>\<open>int(math.Ceil(float64(total) / float64(width)))\<close>\<close>

definition percentile :: "'f floats \<Rightarrow> 'f list \<Rightarrow> nat \<Rightarrow> 'f" where
  "percentile fl ordered quantile =
     (if ordered = [] then fzero fl
      else
        (let index = rank fl quantile (length ordered) - 1;
             index = (if index < 0 then 0 else index);
             index = (if int (length ordered) \<le> index then int (length ordered) - 1 else index)
         in ordered ! nat index))"

record 'f OpMetrics =
  Count :: nat
  P50US :: 'f
  P95US :: 'f
  P99US :: 'f
  P999US :: 'f

definition op_metrics :: "'f :: linorder floats \<Rightarrow> 'f list \<Rightarrow> 'f OpMetrics" where
  "op_metrics fl values =
     (let ordered = sort values in
      \<lparr>Count = length ordered, P50US = percentile fl ordered 500, P95US = percentile fl ordered 950, P99US = percentile fl ordered 990,
       P999US = percentile fl ordered 999\<rparr>)"

definition add_latency :: "'f recordedOp \<Rightarrow> (bytes, 'f list) mapping \<Rightarrow> (bytes, 'f list) mapping" where
  "add_latency record latencies =
     (if ro_success record then
        Mapping.update (ro_op record)
          ((case Mapping.lookup latencies (ro_op record) of None \<Rightarrow> [] | Some vs \<Rightarrow> vs) @ [latencyUS record]) latencies
      else latencies)"

definition summarizeOperations :: "'f :: linorder floats \<Rightarrow> 'f recordedOp list \<Rightarrow> (bytes, 'f OpMetrics) mapping" where
  "summarizeOperations fl records =
     Mapping.map_values (\<lambda>op values. op_metrics fl values)
       (fold add_latency records (Mapping.update ''SET'' [] (Mapping.update ''GET'' [] Mapping.empty)))"

record 'f IntervalMetrics =
  StartMS :: 'f
  EndMS :: 'f
  im_operations :: nat
  im_throughput :: 'f
  im_p99 :: 'f

text \<open>Go's division of integers by a positive one rounds towards zero.\<close>

definition go_div :: "int \<Rightarrow> int \<Rightarrow> int" where
  "go_div a b = sgn a * (\<bar>a\<bar> div b)"

definition add_to_bucket :: "int \<Rightarrow> 'f recordedOp \<Rightarrow> 'f list list \<Rightarrow> 'f list list" where
  "add_to_bucket width record values =
     (let index = go_div (ro_finished record) width;
          index = (if int (length values) \<le> index then int (length values) - 1 else index)
      in if 0 \<le> index \<and> ro_success record then values[nat index := values ! nat index @ [latencyUS record]] else values)"

definition interval_metrics :: "'f :: linorder floats \<Rightarrow> int \<Rightarrow> int \<Rightarrow> nat \<Rightarrow> 'f list \<Rightarrow> 'f IntervalMetrics" where
  "interval_metrics fl width total_ns i values =
     (let ordered = sort values; start = int i * width;
          stop = (if total_ns < start + width then total_ns else start + width); duration = stop - start
      in \<lparr>StartMS = ms fl start, EndMS = ms fl stop, im_operations = length ordered,
          im_throughput = (if 0 < duration then rate fl (length ordered) duration else fzero fl), im_p99 = percentile fl ordered 990\<rparr>)"

definition bucket_values :: "'f floats \<Rightarrow> 'f recordedOp list \<Rightarrow> int \<Rightarrow> int \<Rightarrow> 'f list list" where
  "bucket_values fl records width total_ns = fold (add_to_bucket width) records (replicate (nat (bucket_count fl total_ns width)) [])"

definition summarizeIntervals :: "'f :: linorder floats \<Rightarrow> 'f recordedOp list \<Rightarrow> int \<Rightarrow> int \<Rightarrow> 'f IntervalMetrics list" where
  "summarizeIntervals fl records width total_ns =
     (if width \<le> 0 \<or> total_ns \<le> 0 then []
      else
        (let values = bucket_values fl records width total_ns
         in map (\<lambda>i. interval_metrics fl width total_ns i (values ! i)) [0..<length values]))"

section \<open>A measurement\<close>

record 'f WorkloadResult =
  wr_deployment :: Deployment
  wr_workload :: Workload
  DurationMS :: "'f option" \<comment> \<open>\<open>None\<close>: not set\<close>
  wr_throughput :: "'f option"
  SuccessCount :: nat
  ErrorCount :: nat
  Operations :: "(bytes, 'f OpMetrics) mapping"
  Buckets :: "'f IntervalMetrics list"

text \<open>
  The value, the preloading, the measured phase and the end of the phase; \<open>preloaded\<close> is the outcome of \<^verbatim>\<open>preloadKeys\<close>, \<open>phase\<close> that of
  \<^verbatim>\<open>runWorkloadPhase\<close> after a warm-up whose records are dropped, \<open>elapsed\<close> the time the phase took and \<open>cancelled\<close> the error of the context.
\<close>

datatype workload_error = PreloadFailed preload_error | PhaseFailed load_error | Cancelled bytes

definition executeWorkload :: "'f :: linorder floats \<Rightarrow> Deployment \<Rightarrow> Workload \<Rightarrow> (bytes \<Rightarrow> preload_error option)
    \<Rightarrow> (bytes \<Rightarrow> 'f recordedOp list \<times> load_error option) \<Rightarrow> int \<Rightarrow> bytes option \<Rightarrow> 'f WorkloadResult \<times> workload_error option" where
  "executeWorkload fl d wl preloaded phase elapsed cancelled =
     (let result = \<lparr>wr_deployment = d, wr_workload = wl, DurationMS = None, wr_throughput = None, SuccessCount = 0, ErrorCount = 0,
                    Operations = Mapping.empty, Buckets = []\<rparr>;
          v = replicate (nat (ValueSize wl)) (CHR ''v'')
      in case preloaded v of
           Some e \<Rightarrow> (result, Some (PreloadFailed e))
         | None \<Rightarrow>
             (case phase v of
                (records, phaseErr) \<Rightarrow>
                  (let successes = length (filter ro_success records);
                       result = result\<lparr>DurationMS := Some (ms fl elapsed), Operations := summarizeOperations fl records,
                          SuccessCount := successes, ErrorCount := length (filter (Not \<circ> ro_success) records),
                          wr_throughput := (if 0 < elapsed then Some (rate fl successes elapsed) else None),
                          Buckets := summarizeIntervals fl records 100000000 elapsed\<rparr>
                   in (result, (case cancelled of Some e \<Rightarrow> Some (Cancelled e) | None \<Rightarrow> map_option PhaseFailed phaseErr)))))"

section \<open>A worker and the server\<close>

text \<open>The commands of a batch, and of a number of batches.\<close>

primrec batch_commands :: "'f worker_env \<Rightarrow> Workload \<Rightarrow> bytes \<Rightarrow> nat \<Rightarrow> nat \<Rightarrow> (bytes \<times> bytes list) list" where
  "batch_commands env wl v 0 i = []"
| "batch_commands env wl v (Suc k) i = next_command env wl v i # batch_commands env wl v k (i + 2)"

primrec worker_commands :: "'f worker_env \<Rightarrow> Workload \<Rightarrow> bytes \<Rightarrow> nat \<Rightarrow> nat \<Rightarrow> nat \<Rightarrow> (bytes \<times> bytes list) list" where
  "worker_commands env wl v depth 0 i = []"
| "worker_commands env wl v depth (Suc k) i = batch_commands env wl v depth i @ worker_commands env wl v depth k (i + 2 * depth)"

definition sound :: "writer \<Rightarrow> bytes \<Rightarrow> bool" where
  "sound w sofar \<longleftrightarrow> carries w sofar \<and> \<not> werr w \<and> room w = None"

lemma sound_write:
  assumes "sound w sofar"
  shows "\<exists>w'. writeCommand args w = (False, w') \<and> sound w' (sofar @ BuildArray (Some args))"
proof -
  obtain failed w' where wr: "writeCommand args w = (failed, w')" by fastforce
  from assms writeCommand_carries [OF _ wr, of sofar] writeCommand_room [OF wr]
  have "carries w' (sofar @ BuildArray (Some args))" "failed = werr w'" "room w' = None" by (auto simp: sound_def)
  then show ?thesis using wr by (auto simp: sound_def carries_def)
qed

lemma sound_Flush: "sound w sofar \<Longrightarrow> ready (Flush w) \<and> sent (Flush w) = sofar"
proof -
  assume "sound w sofar"
  then have "carries (Flush w) sofar" "room (Flush w) = None" by (simp_all add: sound_def Flush_carries)
  then show ?thesis using Flush_wbuf [of w] by (auto simp: carries_def ready_def stream_def)
qed

lemma ready_sound: "ready w \<Longrightarrow> sound w (sent w)"
  by (simp add: sound_def ready_def carries_def stream_def)

lemma write_batch_sends:
  assumes "sound w sofar"
  shows "\<exists>w' more. write_batch env wl v k i t w batch = (False, batch @ more, w') \<and> map fst more = map fst (batch_commands env wl v k i)
    \<and> sound w' (sofar @ request_bytes (map snd (batch_commands env wl v k i)))"
  using assms
proof (induction k arbitrary: i t w batch sofar)
  case 0
  then show ?case by (simp add: request_bytes_def)
next
  case (Suc k)
  obtain op args where c: "next_command env wl v i = (op, args)" by fastforce
  obtain w1 where w1: "writeCommand args w = (False, w1)" "sound w1 (sofar @ BuildArray (Some args))"
    using sound_write [OF Suc.prems] by blast
  obtain w' more where "write_batch env wl v k (i + 2) (t + 1) w1 (batch @ [(op, now env t)]) = (False, (batch @ [(op, now env t)]) @ more, w')"
      "map fst more = map fst (batch_commands env wl v k (i + 2))"
      "sound w' ((sofar @ BuildArray (Some args)) @ request_bytes (map snd (batch_commands env wl v k (i + 2))))"
    using Suc.IH [OF w1(2), of "i + 2" "t + 1" "batch @ [(op, now env t)]"] by blast
  then show ?case using c w1(1)
    by (intro exI [of _ w'] exI [of _ "(op, now env t) # more"]) (simp add: request_bytes_def)
qed

text \<open>Records of successes, one for each command, in order.\<close>

definition all_succeeded :: "'f recordedOp list \<Rightarrow> bytes list \<Rightarrow> bool" where
  "all_succeeded records ops \<longleftrightarrow> list_all ro_success records \<and> map ro_op records = ops"

lemma all_succeeded_append: "all_succeeded xs ops \<Longrightarrow> all_succeeded ys ops' \<Longrightarrow> all_succeeded (xs @ ys) (ops @ ops')"
  by (simp add: all_succeeded_def)

context reply_stream
begin

lemma batch_reads:
  assumes "list_all good xs" "list_all (responseOK \<circ> text_of) xs" "length xs = length pending"
  shows "\<exists>recs. read_batch env start pending t \<lparr>rbuf = concat (map text_of xs) @ rest, rfail = e\<rparr> local
      = (None, local @ recs, \<lparr>rbuf = rest, rfail = e\<rparr>) \<and> all_succeeded recs (map fst pending)"
  using assms
proof (induction pending arbitrary: xs t local)
  case Nil
  then show ?case by (simp add: all_succeeded_def)
next
  case (Cons p pending)
  obtain op st where p: "p = (op, st)" by fastforce
  obtain r xs' where xs: "xs = r # xs'" using Cons.prems(3) by (cases xs) auto
  let ?rec = "\<lparr>ro_op = op, latencyUS = as_us env (now env t - st), ro_finished = now env t - start, ro_success = True\<rparr>"
  obtain recs where "read_batch env start pending (t + 1) \<lparr>rbuf = concat (map text_of xs') @ rest, rfail = e\<rparr> (local @ [?rec])
      = (None, (local @ [?rec]) @ recs, \<lparr>rbuf = rest, rfail = e\<rparr>)" "all_succeeded recs (map fst pending)"
    using Cons.IH [of xs' "t + 1" "local @ [?rec]"] Cons.prems xs by auto
  then show ?case
    using Cons.prems xs p reads [of r "concat (map text_of xs') @ rest" e]
    by (intro exI [of _ "?rec # recs"]) (simp add: all_succeeded_def Let_def)
qed

end

lemma length_commands [simp]:
  "length (batch_commands env wl v k i) = k" "length (worker_commands env wl v depth n i) = n * depth"
proof -
  show a: "length (batch_commands env wl v k i) = k" for k i by (induction k arbitrary: i) simp_all
  show "length (worker_commands env wl v depth n i) = n * depth" by (induction n arbitrary: i) (simp_all add: a)
qed

lemma worker_loop_replies:
  assumes "list_all readable_reply rs" "list_all (responseOK \<circ> print_reply) rs" "length rs = k * depth" "ready (cw c)"
    and "cr c = \<lparr>rbuf = concat (map print_reply rs), rfail = e\<rparr>"
  shows "\<exists>recs c'. worker_loop env wl v depth start k i t c local = (None, local @ recs, c')
    \<and> all_succeeded recs (map fst (worker_commands env wl v depth k i))
    \<and> sent (cw c') = sent (cw c) @ request_bytes (map snd (worker_commands env wl v depth k i))"
  using assms
proof (induction k arbitrary: rs i t c local)
  case 0
  then show ?case by (simp add: all_succeeded_def request_bytes_def)
next
  case (Suc k)
  let ?now = "take depth rs" and ?later = "drop depth rs" and ?cmds = "batch_commands env wl v depth i"
  obtain w batch where wr: "write_batch env wl v depth i t (cw c) [] = (False, batch, w)" "map fst batch = map fst ?cmds"
      "sound w (sent (cw c) @ request_bytes (map snd ?cmds))"
    using write_batch_sends [OF ready_sound [OF Suc.prems(4)], of env wl v depth i t "[]"] by auto
  from sound_Flush [OF wr(3)] have fl: "ready (Flush w)" "sent (Flush w) = sent (cw c) @ request_bytes (map snd ?cmds)" by simp_all
  have n: "length ?now = length batch" using Suc.prems(3) arg_cong [OF wr(2), of length] by simp
  have parts: "list_all readable_reply ?now" "list_all (responseOK \<circ> print_reply) ?now" "list_all readable_reply ?later"
      "list_all (responseOK \<circ> print_reply) ?later"
    using Suc.prems(1,2) by (auto simp: list_all_iff dest: in_set_takeD in_set_dropD)
  have "concat (map print_reply rs) = concat (map print_reply ?now) @ concat (map print_reply ?later)"
    by (metis append_take_drop_id concat_append map_append)
  then obtain recs where rd: "read_batch env start batch (t + depth) (cr c) local
      = (None, local @ recs, \<lparr>rbuf = concat (map print_reply ?later), rfail = e\<rparr>)" "all_succeeded recs (map fst ?cmds)"
    using replies.batch_reads [OF parts(1,2) n, of env start "t + depth" "concat (map print_reply ?later)" e local] Suc.prems(5) wr(2) by auto
  let ?c = "c\<lparr>cr := \<lparr>rbuf = concat (map print_reply ?later), rfail = e\<rparr>, cw := Flush w\<rparr>"
  obtain recs' c' where "worker_loop env wl v depth start k (i + 2 * depth) (t + 2 * depth) ?c (local @ recs) = (None, (local @ recs) @ recs', c')"
      "all_succeeded recs' (map fst (worker_commands env wl v depth k (i + 2 * depth)))"
      "sent (cw c') = sent (Flush w) @ request_bytes (map snd (worker_commands env wl v depth k (i + 2 * depth)))"
    using Suc.IH [OF parts(3,4), of ?c "i + 2 * depth" "t + 2 * depth" "local @ recs"] Suc.prems(3) fl(1) by auto
  then show ?case using wr(1) rd fl all_succeeded_append [OF rd(2)]
    by (intro exI [of _ "recs @ recs'"] exI [of _ c']) (simp add: Let_def ready_def request_bytes_def)
qed

section \<open>What the server answers to a worker\<close>

definition draws_ok :: "'f worker_env \<Rightarrow> bool" where
  \<comment> \<open>\<^verbatim>\<open>rng.Intn(n)\<close> is below \<open>n\<close>\<close>
  "draws_ok env \<longleftrightarrow> (\<forall>i n. 0 < n \<longrightarrow> draw env i n < n)"

lemma ToUpper_GET [simp]: "ToUpper up ''GET'' = ''GET''"
  by (simp add: ToUpper_ascii upper_char_def)

lemma next_command_cases:
  assumes "draws_ok env"
  shows "\<exists>j < 256. next_command env wl v i = (''GET'', [''GET'', bench_key j]) \<or> next_command env wl v i = (''SET'', [''SET'', bench_key j, v])"
  using assms by (intro exI [of _ "draw env (i + 1) 256"]) (simp add: next_command_def draws_ok_def Let_def)

text \<open>The requests of a load: reads and writes of the benchmark keys.\<close>

definition load_request :: "bytes \<Rightarrow> bytes list \<Rightarrow> bool" where
  "load_request v req \<longleftrightarrow> (\<exists>j < 256. req = [''GET'', bench_key j] \<or> req = [''SET'', bench_key j, v])"

lemma batch_requests: "draws_ok env \<Longrightarrow> list_all (load_request v) (map snd (batch_commands env wl v k i))"
proof (induction k arbitrary: i)
  case (Suc k)
  then show ?case using next_command_cases [OF Suc.prems, of wl v i] by (auto simp: load_request_def)
qed simp

lemma worker_requests: "draws_ok env \<Longrightarrow> list_all (load_request v) (map snd (worker_commands env wl v depth k i))"
  by (induction k arbitrary: i) (simp_all add: batch_requests)

lemma bench_key_sendable: "j < 256 \<Longrightarrow> sendable (bench_key j)"
  using length_show_nat [of j 3] by (simp add: sendable_def bench_key_def maxAlloc_def)

lemma load_sendable: "sendable v \<Longrightarrow> load_request v req \<Longrightarrow> sendable_request req"
  using bench_key_sendable
  by (auto simp: load_request_def sendable_request_def sendable_args_def sendable_def [of "''SET''"] sendable_def [of "''GET''"] maxAlloc_def)

lemma responseOK_bulk [simp]: "responseOK (BuildBulkString v)"
  by (cases v) (simp_all add: responseOK_def BuildBulkString_def)

lemma load_session:
  assumes "list_all (load_request v) reqs" "spec_session (map typed (request_cmds up reqs)) m = (rs, m')"
  shows "list_all (responseOK \<circ> print_reply) rs
    \<and> (\<forall>k. m' k = m k \<or> (k \<in> bench_key ` {..<256} \<and> m' k = Some v))"
  using assms
proof (induction reqs arbitrary: m rs)
  case Nil
  then show ?case by (simp add: request_cmds_def)
next
  case (Cons req reqs)
  from Cons.prems(1) obtain j where j: "j < 256" "req = [''GET'', bench_key j] \<or> req = [''SET'', bench_key j, v]"
    by (auto simp: load_request_def)
  define c where "c = typed \<lparr>Op = ToUpper up (hd req), Args = tl req\<rparr>"
  have c: "c = GetC (bench_key j) \<or> c = SetC (bench_key j) v" using j(2) by (auto simp: c_def typed_def)
  obtain rs' where rs: "spec_session (map typed (request_cmds up reqs)) (snd (spec_step None c m)) = (rs', m')"
      "rs = fst (spec_step None c m) # rs'"
    using Cons.prems(2) by (auto simp: request_cmds_def c_def split: prod.splits)
  have k: "bench_key j \<in> bench_key ` {..<256}" using j(1) by simp
  from Cons.IH [OF _ rs(1)] Cons.prems(1)
  have ih: "list_all (responseOK \<circ> print_reply) rs'"
      "\<forall>k. m' k = snd (spec_step None c m) k \<or> (k \<in> bench_key ` {..<256} \<and> m' k = Some v)" by (auto simp: list_all_iff)
  show ?case
  proof (intro conjI allI)
    show "list_all (responseOK \<circ> print_reply) rs" using ih(1) c rs(2) by auto
    fix key
    show "m' key = m key \<or> (key \<in> bench_key ` {..<256} \<and> m' key = Some v)"
      using c k spec [OF ih(2), of key] by (cases "key = bench_key j") auto
  qed
qed

section \<open>Property of a worker\<close>

text \<open>
  C39. Whatever commands a worker draws and however deep its pipelines are, against a server without Raft it runs to
  the end of its phase without an error and has recorded one success per command, in order; the bytes it sent make the
  server's connection loop return with exactly the replies it read; and the server's store differs at most in
  benchmark keys that now hold the value of the workload.
\<close>

theorem worker_records_successes:
  assumes "draws_ok env" "sendable v" "raft_role p = None" "small_store (db_view (memdb p))"
  shows "\<exists>rets recs c q. worker_loop env wl v depth start k 0 0 (dialed (concat rets) e None) [] = (None, recs, c)
    \<and> list_all ro_success recs \<and> map ro_op recs = map fst (worker_commands env wl v depth k 0) \<and> length recs = k * depth
    \<and> handleConnection lib up \<lparr>rbuf = sent (cw c), rfail = EOF\<rparr> p = Some (Closed, rets, q)
    \<and> (\<forall>key. db_view (memdb q) key = db_view (memdb p) key \<or> (key \<in> bench_key ` {..<256} \<and> db_view (memdb q) key = Some v))"
proof -
  let ?reqs = "map snd (worker_commands env wl v depth k 0)"
  have load: "list_all (load_request v) ?reqs" by (rule worker_requests [OF assms(1)])
  then have ok: "list_all sendable_request ?reqs" using load_sendable [OF assms(2)] by (auto simp: list_all_iff)
  obtain rs m where s: "spec_session (map typed (request_cmds up ?reqs)) (db_view (memdb p)) = (rs, m)" by fastforce
  have rs: "list_all readable_reply rs" "length rs = k * depth"
    using spec_session_small [OF assms(4) request_cmds_small [OF ok] s] by (simp_all add: request_cmds_def)
  note answers = load_session [OF load s]
  let ?c = "dialed (concat (map print_reply rs)) e None"
  obtain recs c where "worker_loop env wl v depth start k 0 0 ?c [] = (None, recs, c)"
      "all_succeeded recs (map fst (worker_commands env wl v depth k 0))" "sent (cw c) = request_bytes ?reqs"
    using worker_loop_replies [OF rs(1) _ rs(2), of ?c e env wl v start 0 0 "[]"] answers by auto
  moreover from this(2) have "length recs = k * depth" unfolding all_succeeded_def by (metis length_commands(2) length_map)
  moreover obtain q where "handleConnection lib up \<lparr>rbuf = request_bytes ?reqs, rfail = EOF\<rparr> p = Some (Closed, map print_reply rs, q)"
    "db_view (memdb q) = m"
    using handleConnection_local [OF ok assms(3), of lib up] s by auto
  ultimately show ?thesis using answers unfolding all_succeeded_def by metis
qed

definition counting_env :: "int worker_env" where
  "counting_env = \<lparr>draw = (\<lambda>i n. i mod n), now = (\<lambda>t. int t * 1000), as_us = (\<lambda>ns. ns div 1000)\<rparr>"

definition half_reads :: Workload where
  "half_reads = \<lparr>wl_name = ''half'', GetPercent = 2, SetPercent = 98, ValueSize = 1\<rparr>"

theorem worker_records_successes_witness:
  "\<exists>rets recs c. worker_loop counting_env half_reads ''v'' 2 0 1 0 0 (dialed (concat rets) EOF None) [] = (None, recs, c)
    \<and> list_all ro_success recs \<and> map ro_op recs = [''GET'', ''SET'']"
proof -
  let ?p = "\<lparr>raft_role = None, machine = \<lparr>fsm_db = empty_db, leaderAdminAddr = []\<rparr>\<rparr>"
    and ?lib = "\<lparr>lib_apply = \<lambda>_ p. (FutureError, p), lib_snapshot = \<lambda>_. None\<rparr>"
  have d: "draws_ok counting_env" by (simp add: draws_ok_def counting_env_def)
  have v: "sendable ''v''" by (simp add: sendable_def maxAlloc_def)
  have sm: "small_store (db_view (memdb ?p))" by (simp add: small_store_def memdb_def empty_db_def lookup_empty ran_def)
  have ops: "map fst (worker_commands counting_env half_reads ''v'' 2 1 0) = [''GET'', ''SET'']"
    by (simp add: counting_env_def half_reads_def next_command_def numeral_2_eq_2)
  have r: "raft_role ?p = None" by simp
  from worker_records_successes [OF d v r sm, of half_reads 2 0 1 EOF ?lib id] obtain rets recs c
    where "worker_loop counting_env half_reads ''v'' 2 0 1 0 0 (dialed (concat rets) EOF None) [] = (None, recs, c)"
      "list_all ro_success recs" "map ro_op recs = [''GET'', ''SET'']"
    unfolding ops by (elim exE conjE)
  then show ?thesis by (intro exI [of _ rets] exI [of _ recs] exI [of _ c] conjI)
qed

section \<open>The summaries\<close>

text \<open>
  What the lemmas use of floating-point arithmetic: multiplication by a positive number and rounding are monotone, and a
  positive quotient rounds up to at least one.
\<close>

definition float_laws :: "'f floats \<Rightarrow> bool" where
  "float_laws fl \<longleftrightarrow> (\<forall>q q' n. q \<le> q' \<longrightarrow> rank fl q n \<le> rank fl q' n) \<and> (\<forall>a b. 0 < a \<longrightarrow> 0 < b \<longrightarrow> 1 \<le> bucket_count fl a b)"

text \<open>The position of a percentile: the rank, kept within the list.\<close>

definition position :: "'f floats \<Rightarrow> nat \<Rightarrow> nat \<Rightarrow> nat" where
  "position fl q n = nat (min (int n - 1) (max 0 (rank fl q n - 1)))"

lemma percentile_position: "xs \<noteq> [] \<Longrightarrow> percentile fl xs q = xs ! position fl q (length xs) \<and> position fl q (length xs) < length xs"
proof -
  assume ne: "xs \<noteq> []"
  let ?n = "int (length xs)" and ?r = "rank fl q (length xs) - 1"
  have n: "0 < ?n" using ne by simp
  have "(let index = (if r < 0 then 0 else r) in if n \<le> index then n - 1 else index) = min (n - 1) (max 0 r)" if "0 < n" for n r :: int
    using that by (simp add: Let_def min_def max_def)
  note this [OF n, of ?r]
  moreover have "0 \<le> min (?n - 1) (max 0 ?r)" "min (?n - 1) (max 0 ?r) < ?n" using n by linarith+
  ultimately show ?thesis using ne by (simp add: percentile_def position_def Let_def nat_less_iff)
qed

lemma position_mono: "float_laws fl \<Longrightarrow> q \<le> q' \<Longrightarrow> position fl q n \<le> position fl q' n"
  unfolding float_laws_def position_def by (intro nat_mono min.mono max.mono diff_mono) auto

lemma percentile_mono:
  assumes "float_laws fl" "q \<le> q'" "sorted xs"
  shows "percentile fl xs q \<le> percentile fl xs q'"
proof (cases "xs = []")
  case True
  then show ?thesis by (simp add: percentile_def)
next
  case False
  then show ?thesis using percentile_position position_mono [OF assms(1,2)] assms(3) by (metis sorted_nth_mono)
qed

text \<open>The element at position \<open>i\<close> of the sorted list: more than \<open>i\<close> elements are at most it, at most \<open>i\<close> are below it.\<close>

lemma nearest_rank:
  fixes xs :: "'f :: linorder list"
  assumes "i < length xs" "x = sort xs ! i"
  shows "i < length (filter (\<lambda>y. y \<le> x) xs)" "length (filter (\<lambda>y. y < x) xs) \<le> i"
proof -
  let ?s = "sort xs"
  have i: "i < length ?s" using assms(1) by simp
  have count: "length (filter P xs) = length (filter P ?s)" for P
    by (metis filter_sort length_sort)
  have split: "?s = take (Suc i) ?s @ drop (Suc i) ?s" "?s = take i ?s @ drop i ?s" by simp_all
  have "length (filter (\<lambda>y. y \<le> x) (take (Suc i) ?s)) = Suc i"
    using i assms(2) by (subst filter_True) (auto simp: in_set_conv_nth intro!: sorted_nth_mono)
  moreover have "length (filter (\<lambda>y. y \<le> x) ?s) = length (filter (\<lambda>y. y \<le> x) (take (Suc i) ?s)) + length (filter (\<lambda>y. y \<le> x) (drop (Suc i) ?s))"
    by (metis split(1) filter_append length_append)
  ultimately show "i < length (filter (\<lambda>y. y \<le> x) xs)" using count by simp
  have "x \<le> y" if "y \<in> set (drop i ?s)" for y
    using that assms(2) i by (auto simp: in_set_conv_nth intro!: sorted_nth_mono)
  then have "filter (\<lambda>y. y < x) (drop i ?s) = []" by (auto simp: filter_empty_conv not_less)
  moreover have "length (filter (\<lambda>y. y < x) ?s) = length (filter (\<lambda>y. y < x) (take i ?s)) + length (filter (\<lambda>y. y < x) (drop i ?s))"
    by (metis split(2) filter_append length_append)
  moreover have "length (filter (\<lambda>y. y < x) (take i ?s)) \<le> i" by (metis length_filter_le length_take le_trans min.cobounded2)
  ultimately show "length (filter (\<lambda>y. y < x) xs) \<le> i" using count by simp
qed

text \<open>The latencies of the successes of one command, in the order of the records.\<close>

definition latencies_of :: "bytes \<Rightarrow> 'f recordedOp list \<Rightarrow> 'f list" where
  "latencies_of op records = map latencyUS (filter (\<lambda>r. ro_success r \<and> ro_op r = op) records)"

lemma fold_latencies:
  "Mapping.lookup (fold add_latency records latencies) op =
     (case Mapping.lookup latencies op of
        None \<Rightarrow> if latencies_of op records = [] then None else Some (latencies_of op records)
      | Some vs \<Rightarrow> Some (vs @ latencies_of op records))"
proof (induction records arbitrary: latencies)
  case Nil
  then show ?case by (simp add: latencies_of_def split: option.split)
next
  case (Cons r records)
  show ?case
    using Cons.IH [of "add_latency r latencies"]
    by (auto simp: add_latency_def latencies_of_def lookup_update' split: option.splits)
qed

lemma summarizeOperations_lookup:
  "op \<in> {''GET'', ''SET''} \<Longrightarrow> Mapping.lookup (summarizeOperations fl records) op = Some (op_metrics fl (latencies_of op records))"
  by (auto simp: summarizeOperations_def lookup_map_values fold_latencies lookup_update' lookup_empty)

lemma counts_add_up:
  assumes "list_all (\<lambda>r. ro_op r \<in> {''GET'', ''SET''}) records"
  shows "length (latencies_of ''GET'' records) + length (latencies_of ''SET'' records) = length (filter ro_success records)"
  using assms by (induction records) (auto simp: latencies_of_def)

lemma length_add_to_bucket [simp]: "length (add_to_bucket width r vss) = length vss"
  by (simp add: add_to_bucket_def Let_def)

lemma mset_add_to_bucket:
  assumes "vss \<noteq> []" "0 < width" "0 \<le> ro_finished r"
  shows "mset (concat (add_to_bucket width r vss)) = mset (concat vss) + (if ro_success r then {#latencyUS r#} else {#})"
proof -
  have upd: "mset (concat (vss[i := vss ! i @ [x]])) = add_mset x (mset (concat vss))" if "i < length vss" for i x
    using that by (induction vss arbitrary: i) (auto split: nat.split)
  define j where "j = (if int (length vss) \<le> go_div (ro_finished r) width then int (length vss) - 1 else go_div (ro_finished r) width)"
  have "0 \<le> go_div (ro_finished r) width" using assms(2,3) by (simp add: go_div_def sgn_if pos_imp_zdiv_nonneg_iff)
  then have "0 \<le> j" "nat j < length vss" using assms(1) by (auto simp: j_def nat_less_iff Suc_le_eq)
  then show ?thesis using upd [of "nat j" "latencyUS r"] by (simp add: add_to_bucket_def Let_def flip: j_def)
qed

lemma mset_buckets:
  assumes "vss \<noteq> []" "0 < width" "list_all (\<lambda>r. 0 \<le> ro_finished r) records"
  shows "mset (concat (fold (add_to_bucket width) records vss)) = mset (concat vss) + mset (map latencyUS (filter ro_success records))"
  using assms
proof (induction records arbitrary: vss)
  case (Cons r records)
  have "add_to_bucket width r vss \<noteq> []" using Cons.prems(1) by (metis length_0_conv length_add_to_bucket)
  then show ?case using Cons.IH [of "add_to_bucket width r vss"] mset_add_to_bucket [OF Cons.prems(1,2)] Cons.prems by simp
qed simp

lemma length_bucket_values: "length (bucket_values fl records width total_ns) = nat (bucket_count fl total_ns width)"
proof -
  have "length (fold (add_to_bucket width) records vss) = length vss" for vss by (induction records arbitrary: vss) simp_all
  then show ?thesis by (simp add: bucket_values_def)
qed

lemma sum_operations:
  assumes "float_laws fl" "0 < width" "0 < total_ns" "list_all (\<lambda>r. 0 \<le> ro_finished r) records"
  shows "sum_list (map im_operations (summarizeIntervals fl records width total_ns)) = length (filter ro_success records)"
proof -
  let ?vss = "bucket_values fl records width total_ns"
  have "1 \<le> bucket_count fl total_ns width" using assms(1-3) by (simp add: float_laws_def)
  then have "replicate (nat (bucket_count fl total_ns width)) [] \<noteq> []" by simp
  from mset_buckets [OF this assms(2,4)] have "mset (concat ?vss) = mset (map latencyUS (filter ro_success records))"
    by (simp add: bucket_values_def)
  then have "length (concat ?vss) = length (filter ro_success records)" by (metis length_map mset_eq_length)
  moreover have "map im_operations (summarizeIntervals fl records width total_ns) = map length ?vss"
    using assms(2,3) by (auto simp: summarizeIntervals_def interval_metrics_def Let_def intro: nth_equalityI)
  ultimately show ?thesis by (simp add: length_concat)
qed

text \<open>The intervals follow each other from zero to the end when the number of buckets is the exact one.\<close>

lemma intervals_tile:
  assumes "0 < width" "0 < total_ns" "bucket_count fl total_ns width = n" "(n - 1) * width < total_ns" "total_ns \<le> n * width"
  shows "let bs = summarizeIntervals fl records width total_ns in
    bs \<noteq> [] \<and> StartMS (hd bs) = ms fl 0 \<and> EndMS (last bs) = ms fl total_ns \<and> (\<forall>i. Suc i < length bs \<longrightarrow> EndMS (bs ! i) = StartMS (bs ! Suc i))"
proof -
  let ?vss = "bucket_values fl records width total_ns"
  have n: "0 < n" using assms(1,2,5) by (smt (verit) mult_nonneg_nonneg mult_nonpos_nonneg)
  have len: "length ?vss = nat n" using assms(3) by (simp add: length_bucket_values)
  have bs: "summarizeIntervals fl records width total_ns = map (\<lambda>i. interval_metrics fl width total_ns i (?vss ! i)) [0..<nat n]"
    using assms(1,2) len by (simp add: summarizeIntervals_def Let_def)
  have "EndMS (interval_metrics fl width total_ns i xs) = StartMS (interval_metrics fl width total_ns (Suc i) ys)" if "Suc i < nat n" for i xs ys
  proof -
    have "(int i + 1) * width \<le> (n - 1) * width" using that assms(1) by (intro mult_right_mono) auto
    then have "int i * width + width < total_ns" using assms(4) by (simp add: algebra_simps)
    then show ?thesis by (simp add: interval_metrics_def Let_def algebra_simps)
  qed
  moreover have "int (nat n - 1) = n - 1" using n by simp
  then have "EndMS (interval_metrics fl width total_ns (nat n - 1) xs) = ms fl total_ns" for xs
    using assms(5) by (simp add: interval_metrics_def Let_def algebra_simps)
  moreover have "last [0..<nat n] = nat n - 1" "hd [0..<nat n] = 0" "[0..<nat n] \<noteq> []" using n by simp_all
  ultimately show ?thesis
    unfolding bs by (simp add: Let_def hd_map last_map) (simp add: interval_metrics_def Let_def)
qed

text \<open>
  What it means for a value to be the nearest-rank percentile of some latencies, the quantile in thousandths:
  \<open>position\<close> is the rank minus one, kept within the list.
\<close>

definition is_percentile :: "'f :: linorder floats \<Rightarrow> nat \<Rightarrow> 'f list \<Rightarrow> 'f \<Rightarrow> bool" where
  "is_percentile fl q xs v \<longleftrightarrow> v \<in> set xs
    \<and> position fl q (length xs) < length (filter (\<lambda>y. y \<le> v) xs) \<and> length (filter (\<lambda>y. y < v) xs) \<le> position fl q (length xs)"

lemma percentile_nearest:
  assumes "xs \<noteq> []"
  shows "is_percentile fl q xs (percentile fl (sort xs) q)"
proof -
  let ?i = "position fl q (length xs)"
  have "sort xs \<noteq> []" using assms by (metis length_0_conv length_sort)
  from percentile_position [OF this, of fl q] have p: "percentile fl (sort xs) q = sort xs ! ?i" "?i < length xs" by simp_all
  then have "percentile fl (sort xs) q \<in> set xs" by (metis length_sort nth_mem set_sort)
  then show ?thesis using nearest_rank [OF p(2,1)] by (simp add: is_percentile_def)
qed

section \<open>Property of the summaries\<close>

text \<open>
  C40. The summaries of a measurement lose nothing: for records of reads and writes, the counts of the two commands and the
  counts of the intervals each add up to the number of successes that is reported, which with the errors makes up all records;
  the four reported percentiles of a command are ordered, and each, the 50th, the 95th, the 99th and the 99.9th, is the
  nearest-rank percentile of the command's successful latencies: with \<open>i\<close> the rounded rank for its quantile minus one, kept within
  the list, more than \<open>i\<close> of the latencies are at most it and at most \<open>i\<close> are below it, and it is one of them.
\<close>

theorem summaries_account_for_all:
  assumes "float_laws fl" "list_all (\<lambda>r. ro_op r \<in> {''GET'', ''SET''} \<and> 0 \<le> ro_finished r) records" "0 < elapsed"
    and "executeWorkload fl d wl preloaded (\<lambda>_. (records, phaseErr)) elapsed cancelled = (result, err)"
    and "preloaded (replicate (nat (ValueSize wl)) (CHR ''v'')) = None"
  shows "(\<exists>get set. Mapping.lookup (Operations result) ''GET'' = Some get \<and> Mapping.lookup (Operations result) ''SET'' = Some set
      \<and> Count get + Count set = SuccessCount result)
    \<and> sum_list (map im_operations (Buckets result)) = SuccessCount result
    \<and> SuccessCount result + ErrorCount result = length records
    \<and> (\<forall>op \<in> {''GET'', ''SET''}. \<forall>m xs. Mapping.lookup (Operations result) op = Some m \<and> xs = latencies_of op records \<longrightarrow>
         Count m = length xs \<and> P50US m \<le> P95US m \<and> P95US m \<le> P99US m \<and> P99US m \<le> P999US m
         \<and> (xs \<noteq> [] \<longrightarrow> is_percentile fl 500 xs (P50US m) \<and> is_percentile fl 950 xs (P95US m)
              \<and> is_percentile fl 990 xs (P99US m) \<and> is_percentile fl 999 xs (P999US m)))"
proof -
  let ?m = "\<lambda>op. op_metrics fl (latencies_of op records)"
  have res: "Operations result = summarizeOperations fl records" "SuccessCount result = length (filter ro_success records)"
      "ErrorCount result = length (filter (Not \<circ> ro_success) records)" "Buckets result = summarizeIntervals fl records 100000000 elapsed"
    using assms(4,5) by (auto simp: executeWorkload_def Let_def)
  have "Count (?m ''GET'') + Count (?m ''SET'') = SuccessCount result"
    using counts_add_up [of records] assms(2) res(2) by (simp add: op_metrics_def list_all_iff Let_def)
  moreover have "sum_list (map im_operations (Buckets result)) = SuccessCount result"
    using sum_operations [OF assms(1) _ assms(3), of 100000000 records] assms(2) res by (simp add: list_all_iff)
  moreover have "SuccessCount result + ErrorCount result = length records"
    using sum_length_filter_compl [of ro_success records] res by (simp add: o_def)
  moreover have "P50US (?m op) \<le> P95US (?m op) \<and> P95US (?m op) \<le> P99US (?m op) \<and> P99US (?m op) \<le> P999US (?m op)" for op
    by (simp add: op_metrics_def Let_def percentile_mono [OF assms(1)])
  moreover have "Count (?m op) = length (latencies_of op records)" for op by (simp add: op_metrics_def Let_def)
  moreover have "is_percentile fl 500 xs (P50US (?m op)) \<and> is_percentile fl 950 xs (P95US (?m op))
      \<and> is_percentile fl 990 xs (P99US (?m op)) \<and> is_percentile fl 999 xs (P999US (?m op))"
    if "xs = latencies_of op records" "xs \<noteq> []" for op xs
    using percentile_nearest [OF that(2), of fl] that(1) by (simp add: op_metrics_def Let_def)
  ultimately show ?thesis using summarizeOperations_lookup [of _ fl records] res(1) by auto
qed

definition exact_arith :: "int floats" where
  "exact_arith = \<lparr>ms = (\<lambda>d. d div 1000000), rate = (\<lambda>n d. int n * 1000000000 div d), fzero = 0,
     rank = (\<lambda>q n. (int q * int n + 999) div 1000), bucket_count = (\<lambda>a b. (a + b - 1) div b)\<rparr>"

definition three_records :: "int recordedOp list" where
  "three_records =
     [\<lparr>ro_op = ''GET'', latencyUS = 70, ro_finished = 5000000, ro_success = True\<rparr>,
      \<lparr>ro_op = ''SET'', latencyUS = 90, ro_finished = 120000000, ro_success = False\<rparr>,
      \<lparr>ro_op = ''GET'', latencyUS = 40, ro_finished = 260000000, ro_success = True\<rparr>]"

lemma exact_arith_laws: "float_laws exact_arith"
proof -
  have "(int q * int n + 999) div 1000 \<le> (int q' * int n + 999) div 1000" if "q \<le> q'" for q q' n
    using that by (intro zdiv_mono1) (auto intro: mult_right_mono)
  moreover have "1 \<le> (a + b - 1) div b" if "0 < a" "0 < b" for a b :: int
    using that zdiv_mono1 [of b "a + b - 1" b] by simp
  ultimately show ?thesis by (auto simp: float_laws_def exact_arith_def)
qed

theorem summaries_account_for_all_witness:
  "case executeWorkload exact_arith DurableSingle half_reads (\<lambda>_. None) (\<lambda>_. (three_records, None)) 250000000 None of
     (result, err) \<Rightarrow> SuccessCount result = 2 \<and> ErrorCount result = 1 \<and> sum_list (map im_operations (Buckets result)) = 2
       \<and> (\<exists>m. Mapping.lookup (Operations result) ''GET'' = Some m \<and> is_percentile exact_arith 500 [70, 40] (P50US m)
           \<and> is_percentile exact_arith 999 [70, 40] (P999US m))"
proof -
  let ?e = "executeWorkload exact_arith DurableSingle half_reads (\<lambda>_. None) (\<lambda>_. (three_records, None)) 250000000 None"
  have n: "SuccessCount (fst ?e) = 2" "ErrorCount (fst ?e) = 1"
    by (simp_all add: executeWorkload_def three_records_def Let_def)
  have "list_all (\<lambda>r. ro_op r \<in> {''GET'', ''SET''} \<and> 0 \<le> ro_finished r) three_records" by (simp add: three_records_def)
  note all = summaries_account_for_all [OF exact_arith_laws this _ surjective_pairing [of ?e]]
  have "latencies_of ''GET'' three_records = [70, 40]" by (simp add: latencies_of_def three_records_def)
  with all n show ?thesis by (auto simp: case_prod_unfold)
qed

end
