(* ===== verification/BenchCompare.thy ===== *)
theory BenchCompare
  imports Load
begin

text \<open>
  The comparison of two benchmark runs (\<^verbatim>\<open>benchmarks/harness/compare.go\<close>). The contents of the result files are an argument, as
  far as the comparison reads them; so are the operations on floating-point numbers. The lemmas say when a comparison is
  marked as comparable, which changes it lists, and that two complete runs of one profile have the same metrics.
\<close>

section \<open>Strings\<close>

text \<open>\<^verbatim>\<open>strings.Split(s, "\n")\<close>\<close>

fun split_lines :: "bytes \<Rightarrow> bytes list" where
  "split_lines [] = [[]]"
| "split_lines (c # s) =
     (if c = CHR 0x0A then [] # split_lines s
      else (case split_lines s of [] \<Rightarrow> [[c]] | l # ls \<Rightarrow> (c # l) # ls))"

text \<open>\<^verbatim>\<open>strings.Fields\<close>: \<open>cur\<close> is the field that is being read.\<close>

function fields_from :: "bytes \<Rightarrow> bytes \<Rightarrow> bytes list" where
  "fields_from [] cur = (if cur = [] then [] else [cur])"
| "fields_from (c # s) cur =
     (case find (HasPrefix (c # s)) space_seqs of
        Some p \<Rightarrow> (if cur = [] then [] else [cur]) @ fields_from (drop (max 1 (length p)) (c # s)) []
      | None \<Rightarrow> (let w = max 1 (snd (DecodeRune (c # s))) in fields_from (drop w (c # s)) (cur @ take w (c # s))))"
  by pat_completeness auto
termination
  by (relation "measure (length \<circ> fst)") (auto simp: max_def)

definition Fields :: "bytes \<Rightarrow> bytes list" where
  "Fields s = fields_from s []"

definition filesystemIdentity :: "bytes \<Rightarrow> bytes" where
  "filesystemIdentity v =
     (let lines = split_lines (TrimSpace v)
      in if length lines < 2 then TrimSpace v
         else
           (let fields = Fields (last lines)
            in if length fields < 2 then TrimSpace v else hd fields @ '' '' @ last fields))"

section \<open>Results\<close>

record 'p Metadata =
  md_schema :: int
  GitDirty :: bool
  GoVersion :: bytes
  md_os :: bytes
  Architecture :: bytes
  CPUCount :: int
  Filesystem :: bytes
  RandomSeed :: int
  md_profile :: bytes
  HotRequestLogging :: bool
  Parameters :: 'p

record 'f SnapshotResult =
  sn_duration :: 'f
  ForegroundThroughputChange :: 'f
  MaximumP99US :: 'f

record 'f result_metrics =
  rm_schema :: int
  rm_completed :: bool
  rm_workloads :: "'f WorkloadResult list"
  SnapshotUnderLoad :: "'f SnapshotResult option"
  FollowerCatchup :: "'f option" \<comment> \<open>the durations of the recoveries\<close>
  LeaderFailover :: "'f option"
  SnapshotLogReplay :: "'f option"
  FullClusterRestart :: "'f option"

definition value_prefix :: "Deployment \<Rightarrow> Workload \<Rightarrow> bytes" where
  "value_prefix d wl = deployment_name d @ ''/'' @ wl_name wl @ ''/'' @ show_int (ValueSize wl) @ ''B''"

definition p99_of :: "'f floats \<Rightarrow> 'f WorkloadResult \<Rightarrow> bytes \<Rightarrow> 'f" where
  "p99_of fl r op = (case Mapping.lookup (Operations r) op of None \<Rightarrow> fzero fl | Some m \<Rightarrow> P99US m)"

definition workload_values :: "'f floats \<Rightarrow> 'f WorkloadResult \<Rightarrow> (bytes \<times> 'f \<times> bytes) list" where
  "workload_values fl r =
     (let prefix = value_prefix (wr_deployment r) (wr_workload r) in
      [(prefix @ ''/throughput'', (case wr_throughput r of None \<Rightarrow> fzero fl | Some x \<Rightarrow> x), ''ops/s''),
       (prefix @ ''/GET-p99'', p99_of fl r ''GET'', ''us''), (prefix @ ''/SET-p99'', p99_of fl r ''SET'', ''us'')])"

definition scenario_values :: "'f result_metrics \<Rightarrow> (bytes \<times> 'f \<times> bytes) list" where
  "scenario_values m =
     (case SnapshotUnderLoad m of
        None \<Rightarrow> []
      | Some s \<Rightarrow> [(''scenario/snapshot/duration'', sn_duration s, ''ms''),
                   (''scenario/snapshot/throughput-impact'', ForegroundThroughputChange s, ''percent''),
                   (''scenario/snapshot/max-p99'', MaximumP99US s, ''us'')]) @
     concat (map (\<lambda>(name, v). case v of None \<Rightarrow> [] | Some d \<Rightarrow> [(''scenario/'' @ name, d, ''ms'')])
       [(''follower-catchup'', FollowerCatchup m), (''leader-failover'', LeaderFailover m),
        (''snapshot-log-replay'', SnapshotLogReplay m), (''full-cluster-restart'', FullClusterRestart m)])"

definition comparisonValues :: "'f floats \<Rightarrow> 'f result_metrics \<Rightarrow> (bytes, 'f \<times> bytes) mapping" where
  "comparisonValues fl m =
     fold (\<lambda>(k, v). Mapping.update k v) (concat (map (workload_values fl) (rm_workloads m)) @ scenario_values m) Mapping.empty"

definition sameMetricKeys :: "(bytes, 'f) mapping \<Rightarrow> (bytes, 'f) mapping \<Rightarrow> bool" where
  "sameMetricKeys left right \<longleftrightarrow> Mapping.size left = Mapping.size right \<and> (\<forall>k \<in> Mapping.keys left. k \<in> Mapping.keys right)"

section \<open>The comparison\<close>

datatype load_failure = ResultUnreadable bytes | UnsupportedSchema int int

definition SchemaVersion :: int where
  "SchemaVersion = 1"

definition loadResult :: "(bytes \<Rightarrow> bytes + 'p Metadata \<times> 'f result_metrics) \<Rightarrow> bytes \<Rightarrow> load_failure + 'p Metadata \<times> 'f result_metrics" where
  "loadResult files dir =
     (case files dir of
        Inl e \<Rightarrow> Inl (ResultUnreadable e)
      | Inr (metadata, results) \<Rightarrow>
          if md_schema metadata \<noteq> SchemaVersion \<or> rm_schema results \<noteq> SchemaVersion
          then Inl (UnsupportedSchema (md_schema metadata) (rm_schema results))
          else Inr (metadata, results))"

record 'f MetricComparison =
  mc_name :: bytes
  BaselineValue :: 'f
  CandidateValue :: 'f
  AbsoluteChange :: 'f
  PercentChange :: "'f option"
  mc_unit :: bytes

record 'f Comparison =
  Comparable :: bool
  Warnings :: "bytes list"
  Changes :: "'f MetricComparison list"

text \<open>A check: the difference it looks for, whether it makes the runs incomparable, and the warning.\<close>

definition checks :: "'f floats \<Rightarrow> 'p Metadata \<times> 'f result_metrics \<Rightarrow> 'p Metadata \<times> 'f result_metrics \<Rightarrow> (bool \<times> bool \<times> bytes) list" where
  "checks fl baseline candidate =
     (case (baseline, candidate) of ((bm, bx), (cm, cx)) \<Rightarrow>
      [(md_os bm \<noteq> md_os cm \<or> Architecture bm \<noteq> Architecture cm \<or> CPUCount bm \<noteq> CPUCount cm, True,
        ''host OS, architecture, or CPU count differs''),
       (GoVersion bm \<noteq> GoVersion cm, True, ''Go versions differ''),
       (RandomSeed bm \<noteq> RandomSeed cm, True, ''random seeds differ''),
       (HotRequestLogging bm \<noteq> HotRequestLogging cm, True, ''hot-path request logging settings differ''),
       (filesystemIdentity (Filesystem bm) \<noteq> filesystemIdentity (Filesystem cm), True, ''storage devices or mount points differ''),
       (Parameters bm \<noteq> Parameters cm, True, ''benchmark duration, warm-up, concurrency, or pipeline parameters differ''),
       (md_profile bm \<noteq> md_profile cm, True, ''benchmark profiles differ''),
       (GitDirty bm \<or> GitDirty cm, False, ''at least one run used a dirty worktree''),
       (\<not> rm_completed bx \<or> \<not> rm_completed cx, True, ''at least one run is incomplete''),
       (\<not> sameMetricKeys (comparisonValues fl bx) (comparisonValues fl cx), True, ''result metric sets differ'')])"

record 'f arith =
  f_sub :: "'f \<Rightarrow> 'f \<Rightarrow> 'f"
  f_percent :: "'f \<Rightarrow> 'f \<Rightarrow> 'f" \<comment> \<open>\<^verbatim>\<open>absolute / base * 100\<close>\<close>

definition metric_change :: "'f floats \<Rightarrow> 'f arith \<Rightarrow> (bytes, 'f \<times> bytes) mapping \<Rightarrow> (bytes, 'f \<times> bytes) mapping \<Rightarrow> bytes \<Rightarrow> 'f MetricComparison" where
  "metric_change fl ar baselineValues candidateValues key =
     (case (Mapping.lookup baselineValues key, Mapping.lookup candidateValues key) of
        (Some (b, u), Some (c, _)) \<Rightarrow>
          \<lparr>mc_name = key, BaselineValue = b, CandidateValue = c, AbsoluteChange = f_sub ar c b,
           PercentChange = (if b \<noteq> fzero fl then Some (f_percent ar (f_sub ar c b) b) else None), mc_unit = u\<rparr>
      | _ \<Rightarrow> \<lparr>mc_name = key, BaselineValue = fzero fl, CandidateValue = fzero fl, AbsoluteChange = fzero fl, PercentChange = None, mc_unit = []\<rparr>)"

definition common_keys :: "(bytes, 'v) mapping \<Rightarrow> (bytes, 'v) mapping \<Rightarrow> bytes list" where
  "common_keys left right = filter (\<lambda>k. Mapping.lookup right k \<noteq> None) (Mapping.ordered_keys left)"

text \<open>\<open>written\<close> is the error with which the directory and the two files of the comparison are written.\<close>

definition Compare :: "'f floats \<Rightarrow> 'f arith \<Rightarrow> (bytes \<Rightarrow> bytes + 'p Metadata \<times> 'f result_metrics) \<Rightarrow> bytes \<Rightarrow> bytes
    \<Rightarrow> bytes option \<Rightarrow> (bool \<times> load_failure) + 'f Comparison \<times> bytes option" where
  "Compare fl ar files baselineDir candidateDir written =
     (case loadResult files baselineDir of
        Inl e \<Rightarrow> Inl (True, e)
      | Inr baseline \<Rightarrow>
          (case loadResult files candidateDir of
             Inl e \<Rightarrow> Inl (False, e)
           | Inr candidate \<Rightarrow>
               (let found = filter fst (checks fl baseline candidate);
                    bv = comparisonValues fl (snd baseline); cv = comparisonValues fl (snd candidate)
                in Inr (\<lparr>Comparable = list_all (\<lambda>(_, decisive, _). \<not> decisive) found, Warnings = map (snd \<circ> snd) found,
                        Changes = map (metric_change fl ar bv cv) (common_keys bv cv)\<rparr>, written))))"

section \<open>Metrics of a run\<close>

abbreviation metric_list :: "'f floats \<Rightarrow> 'f result_metrics \<Rightarrow> (bytes \<times> 'f \<times> bytes) list" where
  "metric_list fl m \<equiv> concat (map (workload_values fl) (rm_workloads m)) @ scenario_values m"

lemma keys_fold_update: "Mapping.keys (fold (\<lambda>(k, v). Mapping.update k v) xs t) = Mapping.keys t \<union> fst ` set xs"
  by (induction xs arbitrary: t) auto

lemma keys_comparisonValues: "Mapping.keys (comparisonValues fl m) = fst ` set (metric_list fl m)"
  by (simp add: comparisonValues_def keys_fold_update image_Un)

lemma finite_metrics [simp]: "finite (Mapping.keys (comparisonValues fl m))"
  by (simp add: keys_comparisonValues)

lemma sameMetricKeys_iff:
  assumes "finite (Mapping.keys left)" "finite (Mapping.keys right)"
  shows "sameMetricKeys left right \<longleftrightarrow> Mapping.keys left = Mapping.keys right"
proof -
  have "sameMetricKeys left right \<longleftrightarrow> card (Mapping.keys left) = card (Mapping.keys right) \<and> Mapping.keys left \<subseteq> Mapping.keys right"
    by (auto simp: sameMetricKeys_def Mapping.size_def)
  then show ?thesis using card_subset_eq [OF assms(2)] by auto
qed

lemma common_keys_sorted:
  assumes "finite (Mapping.keys left)"
  shows "common_keys left right = sorted_list_of_set (Mapping.keys left \<inter> Mapping.keys right)"
proof (rule sorted_distinct_set_unique)
  have s: "Mapping.ordered_keys left = sorted_list_of_set (Mapping.keys left)" using assms by (simp add: ordered_keys_def)
  show "sorted (common_keys left right)" "distinct (common_keys left right)"
    by (simp_all add: common_keys_def s sorted_filter [of id, simplified])
  show "set (common_keys left right) = set (sorted_list_of_set (Mapping.keys left \<inter> Mapping.keys right))"
    using assms by (auto simp: common_keys_def s keys_dom_lookup domIff)
qed simp_all

text \<open>The names of the metrics depend only on the workloads and on the scenarios that have a result.\<close>

lemma same_steps_same_metrics:
  assumes "map (\<lambda>r. (wr_deployment r, wr_workload r)) (rm_workloads m) = map (\<lambda>r. (wr_deployment r, wr_workload r)) (rm_workloads m')"
    and "(SnapshotUnderLoad m = None) = (SnapshotUnderLoad m' = None)" "(FollowerCatchup m = None) = (FollowerCatchup m' = None)"
      "(LeaderFailover m = None) = (LeaderFailover m' = None)" "(SnapshotLogReplay m = None) = (SnapshotLogReplay m' = None)"
      "(FullClusterRestart m = None) = (FullClusterRestart m' = None)"
  shows "Mapping.keys (comparisonValues fl m) = Mapping.keys (comparisonValues fl m')"
proof -
  let ?names = "\<lambda>d wl. {value_prefix d wl @ ''/throughput'', value_prefix d wl @ ''/GET-p99'', value_prefix d wl @ ''/SET-p99''}"
  have w: "fst ` set (workload_values fl r) = ?names (wr_deployment r) (wr_workload r)" for r
    by (auto simp: workload_values_def Let_def)
  have ws: "fst ` set (concat (map (workload_values fl) rs)) = (\<Union>(d, wl) \<in> set (map (\<lambda>r. (wr_deployment r, wr_workload r)) rs). ?names d wl)"
    for rs
    by (induction rs) (auto simp: w image_Un)
  have snap: "fst ` set (case v of None \<Rightarrow> [] | Some s \<Rightarrow> [(a, sn_duration s, x), (b, ForegroundThroughputChange s, y), (c, MaximumP99US s, z)])
      = (if v = None then {} else {a, b, c})" for v a b c x y z
    by (cases v) auto
  have rec: "fst ` set (case v of None \<Rightarrow> [] | Some d \<Rightarrow> [(a, d, x)]) = (if v = None then {} else {a})" for v a x
    by (cases v) auto
  have "fst ` set (scenario_values m) = fst ` set (scenario_values m')"
    unfolding scenario_values_def set_append image_Un snap list.map concat.simps prod.case rec assms(2-6) ..
  then show ?thesis unfolding keys_comparisonValues set_append image_Un ws assms(1) by simp
qed

section \<open>Property of a comparison\<close>

text \<open>The hosts, the settings and the results of two runs agree in what a comparison needs.\<close>

definition alike :: "'f floats \<Rightarrow> 'p Metadata \<times> 'f result_metrics \<Rightarrow> 'p Metadata \<times> 'f result_metrics \<Rightarrow> bool" where
  "alike fl baseline candidate \<longleftrightarrow>
     (case (baseline, candidate) of ((bm, bx), (cm, cx)) \<Rightarrow>
        md_os bm = md_os cm \<and> Architecture bm = Architecture cm \<and> CPUCount bm = CPUCount cm \<and> GoVersion bm = GoVersion cm
      \<and> RandomSeed bm = RandomSeed cm \<and> HotRequestLogging bm = HotRequestLogging cm
      \<and> filesystemIdentity (Filesystem bm) = filesystemIdentity (Filesystem cm) \<and> Parameters bm = Parameters cm
      \<and> md_profile bm = md_profile cm \<and> rm_completed bx \<and> rm_completed cx
      \<and> Mapping.keys (comparisonValues fl bx) = Mapping.keys (comparisonValues fl cx))"

lemma checks_alike: "list_all (\<lambda>(_, decisive, _). \<not> decisive) (filter fst (checks fl baseline candidate)) \<longleftrightarrow> alike fl baseline candidate"
proof -
  obtain bm bx cm cx where e: "baseline = (bm, bx)" "candidate = (cm, cx)" by (metis surj_pair)
  have "list_all (\<lambda>(_, decisive, _). \<not> decisive) (filter fst xs) \<longleftrightarrow> list_all (\<lambda>(found, decisive, _). found \<longrightarrow> \<not> decisive) xs"
    for xs :: "(bool \<times> bool \<times> bytes) list"
    by (auto simp: list_all_iff)
  then show ?thesis
    by (simp only: e checks_def alike_def prod.case sameMetricKeys_iff [OF finite_metrics finite_metrics]) 
      (simp only: list.pred_inject prod.case simp_thms de_Morgan_disj conj_assoc)
qed

lemma metric_change_values:
  assumes "k \<in> Mapping.keys bv" "k \<in> Mapping.keys cv"
  shows "\<exists>b u c u'. Mapping.lookup bv k = Some (b, u) \<and> Mapping.lookup cv k = Some (c, u')
    \<and> metric_change fl ar bv cv k = \<lparr>mc_name = k, BaselineValue = b, CandidateValue = c, AbsoluteChange = f_sub ar c b,
        PercentChange = (if b \<noteq> fzero fl then Some (f_percent ar (f_sub ar c b) b) else None), mc_unit = u\<rparr>"
  using assms by (auto simp: keys_dom_lookup metric_change_def)

text \<open>
  A comparison is exact: two readable results are marked as comparable exactly if the hosts, the settings and the
  profiles agree, both runs are complete and have the same metrics; otherwise there is a warning. The changes are
  listed once per metric that both runs have, in the order of the names, with the values of the two runs, so for
  comparable runs no metric of either is left out.
\<close>

lemma comparison_exact:
  assumes "Compare fl ar files b c written = Inr (cmp, err)" "loadResult files b = Inr baseline" "loadResult files c = Inr candidate"
  defines "bv \<equiv> comparisonValues fl (snd baseline)" and "cv \<equiv> comparisonValues fl (snd candidate)"
  shows "Comparable cmp \<longleftrightarrow> alike fl baseline candidate" "\<not> Comparable cmp \<Longrightarrow> Warnings cmp \<noteq> []"
    "map mc_name (Changes cmp) = sorted_list_of_set (Mapping.keys bv \<inter> Mapping.keys cv)"
    "Comparable cmp \<Longrightarrow> set (map mc_name (Changes cmp)) = Mapping.keys bv \<union> Mapping.keys cv"
    "ch \<in> set (Changes cmp) \<Longrightarrow> \<exists>u u'. Mapping.lookup bv (mc_name ch) = Some (BaselineValue ch, u)
       \<and> Mapping.lookup cv (mc_name ch) = Some (CandidateValue ch, u') \<and> AbsoluteChange ch = f_sub ar (CandidateValue ch) (BaselineValue ch)"
proof -
  have cmp: "Comparable cmp = list_all (\<lambda>(_, decisive, _). \<not> decisive) (filter fst (checks fl baseline candidate))"
      "Warnings cmp = map (snd \<circ> snd) (filter fst (checks fl baseline candidate))"
      "Changes cmp = map (metric_change fl ar bv cv) (sorted_list_of_set (Mapping.keys bv \<inter> Mapping.keys cv))"
    using assms(1-3) common_keys_sorted [of bv cv] by (auto simp: Compare_def Let_def bv_def cv_def)
  show a: "Comparable cmp \<longleftrightarrow> alike fl baseline candidate" unfolding cmp(1) by (rule checks_alike)
  show "\<not> Comparable cmp \<Longrightarrow> Warnings cmp \<noteq> []" unfolding cmp(1,2) by (cases "filter fst (checks fl baseline candidate)") auto
  have fin: "finite (Mapping.keys bv \<inter> Mapping.keys cv)" by (simp add: bv_def)
  have name: "mc_name (metric_change fl ar bv cv k) = k" for k by (simp add: metric_change_def split: option.split prod.split)
  then show names: "map mc_name (Changes cmp) = sorted_list_of_set (Mapping.keys bv \<inter> Mapping.keys cv)" by (simp add: cmp(3) o_def)
  show "Comparable cmp \<Longrightarrow> set (map mc_name (Changes cmp)) = Mapping.keys bv \<union> Mapping.keys cv"
    unfolding names a using fin by (auto simp: alike_def bv_def cv_def split: prod.splits)
  assume "ch \<in> set (Changes cmp)"
  then obtain k where "k \<in> Mapping.keys bv" "k \<in> Mapping.keys cv" "ch = metric_change fl ar bv cv k" using fin by (auto simp: cmp(3))
  with metric_change_values [OF this(1,2), of fl ar]
  show "\<exists>u u'. Mapping.lookup bv (mc_name ch) = Some (BaselineValue ch, u)
       \<and> Mapping.lookup cv (mc_name ch) = Some (CandidateValue ch, u') \<and> AbsoluteChange ch = f_sub ar (CandidateValue ch) (BaselineValue ch)" by auto
qed

end
