(* ===== verification/BenchTools.thy ===== *)
theory BenchTools
  imports BenchCompare
begin

text \<open>
  What the benchmark harness finds out about its surroundings (\<^verbatim>\<open>benchmarks/harness/cluster.go\<close>, \<^verbatim>\<open>run.go\<close>): addresses for the nodes,
  the disk counters of a process, the nearest directory that exists, the description of a cluster. Outcomes of calls of
  the operating system are arguments.

  Lemmas: reserved addresses are distinct and found after as many calls as are needed; counters are read back as they were
  printed and their difference never wraps around; the search for a directory ends; the description of a node is the
  configuration the node gets.
\<close>

section \<open>Addresses\<close>

text \<open>
  The loop of \<^verbatim>\<open>reservePorts\<close> over the outcomes of \<^verbatim>\<open>net.Listen\<close>; the addresses seen are those of the listeners kept open.
  \<open>None\<close>: the outcomes are used up and the loop is still going.
\<close>

fun reserve_loop :: "nat \<Rightarrow> bytes list \<Rightarrow> (bytes + bytes) list \<Rightarrow> (bytes + bytes list) option" where
  "reserve_loop wanted ports outcomes =
     (if wanted \<le> length ports then Some (Inr ports)
      else
        (case outcomes of
           [] \<Rightarrow> None
         | Inl e # _ \<Rightarrow> Some (Inl e)
         | Inr address # rest \<Rightarrow>
             if address \<in> set ports then reserve_loop wanted ports rest else reserve_loop wanted (ports @ [address]) rest))"

definition reservePorts :: "nat \<Rightarrow> (bytes + bytes) list \<Rightarrow> (bytes + bytes list) option" where
  "reservePorts wanted outcomes = reserve_loop wanted [] outcomes"

declare reserve_loop.simps [simp del]

lemma reserve_loop_ports:
  assumes "reserve_loop wanted ports outcomes = Some (Inr result)" "distinct ports" "length ports \<le> wanted"
  shows "length result = wanted \<and> distinct result \<and> set result \<subseteq> set ports \<union> {a. Inr a \<in> set outcomes}"
  using assms
proof (induction wanted ports outcomes rule: reserve_loop.induct)
  case (1 wanted ports outcomes)
  show ?case
  proof (cases "wanted \<le> length ports")
    case True
    then have "result = ports" using "1.prems"(1) by (subst (asm) reserve_loop.simps) simp
    then show ?thesis using True "1.prems"(2,3) by simp
  next
    case False
    with "1.prems"(1) obtain a rest where o: "outcomes = Inr a # rest"
      by (auto simp: reserve_loop.simps [of wanted ports outcomes] split: list.splits sum.splits)
    show ?thesis
    proof (cases "a \<in> set ports")
      case True
      then show ?thesis using "1.IH"(1) [OF False o] "1.prems" False o by (fastforce simp: reserve_loop.simps [of wanted ports "_ # _"])
    next
      case new: False
      then have "reserve_loop wanted (ports @ [a]) rest = Some (Inr result)"
        using "1.prems"(1) False o by (simp add: reserve_loop.simps [of wanted ports "_ # _"])
      from "1.IH"(2) [OF False o refl new this] show ?thesis using "1.prems"(2) new False o by fastforce
    qed
  qed
qed

text \<open>An operating system that does not hand out an address that is in use: one call per address.\<close>

lemma reserve_fresh:
  assumes "distinct (ports @ as)" "length as = k"
  shows "reserve_loop (length ports + k) ports (map Inr as @ later) = Some (Inr (ports @ as))"
  using assms
proof (induction as arbitrary: ports k)
  case Nil
  then show ?case by (subst reserve_loop.simps) simp
next
  case (Cons a as)
  then show ?case using Cons.IH [of "ports @ [a]" "length as"] by (subst reserve_loop.simps) auto
qed

section \<open>Disk counters\<close>

record diskCounters =
  readBytes :: uint64
  writeBytes :: uint64
  counters_ok :: bool

text \<open>One line of \<^verbatim>\<open>/proc/<pid>/io\<close>; the flags are \<^verbatim>\<open>foundRead\<close> and \<^verbatim>\<open>foundWrite\<close>.\<close>

definition counter_line :: "bytes \<Rightarrow> diskCounters \<times> bool \<times> bool \<Rightarrow> diskCounters \<times> bool \<times> bool" where
  "counter_line l =
     (\<lambda>(counters, foundRead, foundWrite).
        (case Fields l of
           [name, number] \<Rightarrow>
             (case ParseUint64 number of
                None \<Rightarrow> (counters, foundRead, foundWrite)
              | Some v \<Rightarrow>
                  if name = ''read_bytes:'' then (counters\<lparr>readBytes := v\<rparr>, True, foundWrite)
                  else if name = ''write_bytes:'' then (counters\<lparr>writeBytes := v\<rparr>, foundRead, True)
                  else (counters, foundRead, foundWrite))
         | _ \<Rightarrow> (counters, foundRead, foundWrite)))"

text \<open>\<open>file\<close> is \<open>None\<close> if the file cannot be opened, else its lines and the error of the scanner.\<close>

definition readDiskCounters :: "(bytes list \<times> bytes option) option \<Rightarrow> diskCounters" where
  "readDiskCounters file =
     (let zero = \<lparr>readBytes = 0, writeBytes = 0, counters_ok = False\<rparr> in
      case file of
        None \<Rightarrow> zero
      | Some (ls, err) \<Rightarrow>
          (case fold counter_line ls (zero, False, False) of
             (counters, foundRead, foundWrite) \<Rightarrow> counters\<lparr>counters_ok := (err = None \<and> foundRead \<and> foundWrite)\<rparr>))"

definition subtractCounter :: "uint64 \<Rightarrow> uint64 \<Rightarrow> uint64" where
  "subtractCounter stop start = (if stop < start then 0 else stop - start)"

lemma subtractCounter_exact: "unat (subtractCounter stop start) = unat stop - unat start"
  by (simp add: subtractCounter_def word_less_nat_alt unat_sub word_le_nat_alt not_less)

lemma fields_from_word:
  assumes "list_all printable s"
  shows "fields_from (s @ rest) cur = fields_from rest (cur @ s)"
  using assms
proof (induction s arbitrary: cur)
  case (Cons c s)
  have "no_front space_seqs (c # s @ rest)" using Cons.prems no_front_printable by simp
  moreover have "[] \<notin> set space_seqs" by (simp add: space_seqs_def)
  ultimately have "find (HasPrefix (c # s @ rest)) space_seqs = None" by (auto simp: find_None_iff no_front_def)
  moreover have "snd (DecodeRune (c # s @ rest)) = 1" using Cons.prems by (simp add: DecodeRune_def printable_def Let_def)
  ultimately show ?case using Cons by simp
qed simp

lemma Fields_two:
  assumes "list_all printable s" "list_all printable t" "s \<noteq> []" "t \<noteq> []"
  shows "Fields (s @ CHR 0x20 # t) = [s, t]"
proof -
  have "find (HasPrefix (CHR 0x20 # t)) space_seqs = Some [CHR 0x20]" by (simp add: space_seqs_def HasPrefix_def)
  then have "fields_from (CHR 0x20 # t) s = s # fields_from t []" using assms(3) by simp
  then show ?thesis using fields_from_word [OF assms(1), of "CHR 0x20 # t" "[]"] fields_from_word [OF assms(2), of "[]" "[]"] assms(4)
    by (simp add: Fields_def)
qed

text \<open>The counters are read as the system prints them, whatever other lines there are in front.\<close>

lemma counters_read_back:
  assumes "r < 2 ^ 64" "w < 2 ^ 64"
  shows "readDiskCounters (Some (ls @ [''read_bytes:'' @ CHR 0x20 # show_nat r, ''write_bytes:'' @ CHR 0x20 # show_nat w], None)) =
    \<lparr>readBytes = of_nat r, writeBytes = of_nat w, counters_ok = True\<rparr>"
proof -
  have digits: "list_all printable (show_nat n)" for n using set_show_nat_digit digit_printable by (auto simp: list_all_iff)
  have "Fields (''read_bytes:'' @ CHR 0x20 # show_nat r) = [''read_bytes:'', show_nat r]"
      "Fields (''write_bytes:'' @ CHR 0x20 # show_nat w) = [''write_bytes:'', show_nat w]"
    by (rule Fields_two; simp add: digits printable_def)+
  then have "counter_line (''read_bytes:'' @ CHR 0x20 # show_nat r) (c, fr, fw) = (c\<lparr>readBytes := of_nat r\<rparr>, True, fw)"
      "counter_line (''write_bytes:'' @ CHR 0x20 # show_nat w) (c, fr, fw) = (c\<lparr>writeBytes := of_nat w\<rparr>, fr, True)" for c fr fw
    using assms by (simp_all add: counter_line_def ParseUint64_show_nat del: append_Cons append.simps)
  moreover obtain c fr fw where "fold counter_line ls (\<lparr>readBytes = 0, writeBytes = 0, counters_ok = False\<rparr>, False, False) = (c, fr, fw)"
    by (metis surj_pair)
  ultimately show ?thesis unfolding readDiskCounters_def Let_def option.case prod.case fold_append o_apply fold_simps
    by (simp only: prod.case) (cases c, simp)
qed

section \<open>An existing directory\<close>

partial_function (option) existing_loop :: "(bytes \<Rightarrow> bool) \<Rightarrow> bytes \<Rightarrow> bytes option" where
  "existing_loop stat current =
     (if stat current then Some current
      else if Dir current = current then Some ''.''
      else existing_loop stat (Dir current))"

definition existingPath :: "(bytes \<Rightarrow> bool) \<Rightarrow> bytes \<Rightarrow> bytes option" where
  "existingPath stat path = (if TrimSpace path = [] then Some ''.'' else existing_loop stat (Clean path))"

lemma existing_loop_ends:
  assumes "normal rt es"
  shows "\<exists>r. existing_loop stat (render rt es) = Some r \<and> (r = ''.'' \<or> (stat r \<and> (\<exists>k. r = render rt (take k es))))"
  using assms
proof (induction es rule: rev_induct)
  case Nil
  have "Dir (render rt []) = render rt []"
    using Dir_snoc [of "[]" "[]"] by (cases rt) (simp_all add: Dir_def Clean_def render_def components_def clean_step_def rooted_def HasPrefix_def slash_def)
  then show ?case by (subst existing_loop.simps) auto
next
  case (snoc e es)
  let ?p = "render rt (es @ [e])"
  have d: "Dir ?p = render rt es" by (rule Dir_render [OF snoc.prems])
  have "components ?p = es @ [e]" "components (render rt es) = es"
    using components_render [OF snoc.prems] components_render [OF normal_butlast [OF snoc.prems]] by auto
  then have ne: "Dir ?p \<noteq> ?p" unfolding d by (metis append_self_conv list.discI)
  obtain r where r: "existing_loop stat (render rt es) = Some r" "r = ''.'' \<or> (stat r \<and> (\<exists>k. r = render rt (take k es)))"
    using snoc.IH [OF normal_butlast [OF snoc.prems]] by blast
  show ?case
  proof (cases "stat ?p")
    case True
    then show ?thesis by (subst existing_loop.simps) (auto intro: exI [of _ "Suc (length es)"])
  next
    case False
    have "\<exists>k. r = render rt (take k (es @ [e]))" if "r = render rt (take k es)" for k
      using that by (intro exI [of _ "min k (length es)"]) (simp add: min_def)
    then show ?thesis using False ne r by (subst existing_loop.simps) (auto simp: d)
  qed
qed

text \<open>The search ends, with the nearest directory above the path that exists or with the current one.\<close>

lemma existingPath_ends:
  "\<exists>r. existingPath stat path = Some r \<and> (r = ''.'' \<or> (stat r \<and> (\<exists>k. r = render (rooted path) (take k (components path)))))"
  using existing_loop_ends [OF components_normal [of path], of stat] by (auto simp: existingPath_def Clean_def)

section \<open>The description of a cluster\<close>

record NodeConfiguration =
  nc_id :: bytes
  nc_resp :: bytes
  nc_admin :: bytes
  nc_raft :: bool
  nc_raft_addr :: bytes
  nc_advertise :: bytes
  nc_data :: bytes
  nc_bootstrap :: bool
  nc_join :: bytes
  nc_logging :: bool

definition describe_node :: "Deployment \<Rightarrow> bench_node \<Rightarrow> NodeConfiguration" where
  "describe_node d n =
     (let raft = (d \<noteq> InMemorySingle) in
      \<lparr>nc_id = bn_id n, nc_resp = respAddr n, nc_admin = adminAddr n, nc_raft = raft,
       nc_raft_addr = (if raft then raftAddr n else []), nc_advertise = (if raft then raftAddr n else []),
       nc_data = bn_dataDir n, nc_bootstrap = bn_bootstrap n, nc_join = bn_joinAddr n, nc_logging = False\<rparr>)"

definition describeCluster :: "bench_cluster \<Rightarrow> Deployment \<times> NodeConfiguration list" where
  "describeCluster c = (deployment c, map (describe_node (deployment c)) (nodes c))"

definition shortSHA :: "bytes \<Rightarrow> bytes" where
  "shortSHA sha = (if 12 < length sha then take 12 sha else if sha = [] then ''unknown'' else sha)"

lemma shortSHA_length: "shortSHA sha \<noteq> [] \<and> length (shortSHA sha) \<le> 12"
  by (auto simp: shortSHA_def)

text \<open>What the results say of a node with Raft is what the server reads from its command line.\<close>

lemma description_matches:
  assumes "d \<noteq> InMemorySingle" "InitDBConfig_args (node_args d n) = Inr config"
    and "TrimSpace (bn_joinAddr n) = bn_joinAddr n" "TrimSpace (raftAddr n) = raftAddr n"
  shows "nc_raft (describe_node d n) = EnableRaft config \<and> nc_bootstrap (describe_node d n) = Bootstrap config
    \<and> nc_join (describe_node d n) = JoinAddr config \<and> nc_raft_addr (describe_node d n) = RaftAddr config"
  using assms by (auto simp: node_args_parsed describe_node_def InitDBConfig_def node_flags_def Let_def)

end
