(* ===== verification/Spec2Isabelle.thy ===== *)
theory Spec2Isabelle
  imports Daemon Durability Locks Recovery Announce Joining BenchResults BenchTools
begin

text \<open>
  \<^bold>\<open>SkiffDB: a verification development.\<close>

  SkiffDB is a key-value server that speaks the RESP protocol and can replicate its store with the
  HashiCorp Raft library. Paths below are relative to \<^verbatim>\<open>src/\<close>.

  \<^bold>\<open>The program's parts and how they interact.\<close>
  A client connection (\<^verbatim>\<open>src/server/resp_server.go\<close>) feeds bytes to the request parser
  (\<^verbatim>\<open>src/resp/parser.go\<close>); each request becomes a command (\<^verbatim>\<open>src/core/cmd_executor.go\<close>), which runs on the
  local store (\<^verbatim>\<open>src/core/memdb.go\<close>) or, for a write with Raft enabled, is encoded as JSON and submitted to
  the Raft log; replies are built by \<^verbatim>\<open>src/resp/util.go\<close>. The state machine in \<^verbatim>\<open>src/core/raft.go\<close> applies log
  entries on every node and takes, persists and restores snapshots. A node joins a cluster through the
  admin RPC (\<^verbatim>\<open>src/server/raft_server.go\<close>), which registers it without a vote and promotes it after catch-up.
  At start-up a node resolves its identity (\<^verbatim>\<open>src/core/raft_identity.go\<close>), opens its durable stores
  (\<^verbatim>\<open>src/core/raft_storage.go\<close>), checks configuration and intent, and bootstraps, joins or reopens.

  \<^bold>\<open>Theories and what they model.\<close>
  \<^item> \<open>Prelude\<close>, \<open>Strconv\<close>, \<open>Utf8\<close>, \<open>GoStrings\<close>, \<open>Filepath\<close>: byte strings, 64-bit integers, and the parts of Go's
    \<^verbatim>\<open>strconv\<close>, \<^verbatim>\<open>unicode/utf8\<close>, \<^verbatim>\<open>strings\<close> and \<^verbatim>\<open>path/filepath\<close> that the sources use.
  \<^item> \<open>Json\<close>, \<open>JsonDecode\<close>, \<open>JsonPrefix\<close>, \<open>JsonIndent\<close>: Go's \<^verbatim>\<open>encoding/json\<close> as far as it is used: the scanner
    with its depth limit, string literals, storing into structures, one \<^verbatim>\<open>Decode\<close> on a stream, printing.
  \<^item> \<open>RespUtil\<close>: the reply builders of \<^verbatim>\<open>src/resp/util.go\<close>.
  \<^item> \<open>Parser\<close>: \<^verbatim>\<open>ParseRESPCommand\<close> and all it calls; the reader is the bytes still to come and the error
    after them, the context is the source's \<^verbatim>\<open>ParserContext\<close>.
  \<^item> \<open>MemDB\<close>: the store as a record holding a mapping; one definition per method; each method holds the
    lock for its whole body, so each is one atomic step.
  \<^item> \<open>CmdExecutor\<close>: \<^verbatim>\<open>Cmd\<close>, \<^verbatim>\<open>BuildCmd\<close>, \<^verbatim>\<open>IsWriteOp\<close>, \<^verbatim>\<open>executeOnDB\<close>, and an abstract specification over typed
    commands.
  \<^item> \<open>Fsm\<close>: \<^verbatim>\<open>fsm.Apply\<close>, \<^verbatim>\<open>Snapshot\<close>, \<^verbatim>\<open>Persist\<close>, \<^verbatim>\<open>Restore\<close>; its state is the store and the variable
    \<^verbatim>\<open>leaderAdminAddr\<close>.
  \<^item> \<open>Replication\<close>: \<^verbatim>\<open>RaftEnabled\<close>, \<^verbatim>\<open>IsLeader\<close>, \<^verbatim>\<open>ExecuteLocally\<close>, \<^verbatim>\<open>ApplyCmdViaRaft\<close>, \<^verbatim>\<open>SaveSnapshot\<close>, the leader
    announcements, and a cluster as a step relation over one committed log.
  \<^item> \<open>RespServer\<close>: \<^verbatim>\<open>executeRESPCmd\<close> and the loop of \<^verbatim>\<open>handleConnection\<close>.
  \<^item> \<open>Client\<close>: the RESP client of the benchmark harness (\<^verbatim>\<open>benchmarks/harness/client.go\<close>) with its buffered writer, and
    \<^verbatim>\<open>preloadKeys\<close> of \<^verbatim>\<open>workload.go\<close>.
  \<^item> \<open>Durability\<close>: a leading server process together with the cluster: where an acknowledged write stands in the
    log and in the store of every node.
  \<^item> \<open>Sessions\<close>: any number of connections at once, each step of \<^verbatim>\<open>handleConnection\<close> and \<^verbatim>\<open>executeRESPCmd\<close> that other
    goroutines can observe being one step of a relation.
  \<^item> \<open>Daemon\<close>: \<^verbatim>\<open>main\<close>, \<^verbatim>\<open>InitRaft\<close> and \<^verbatim>\<open>InitRESPTCPServer\<close>: start-up as a function, the running process as a state
    machine with the four goroutines, the wait group, the signal, the listener, the pending calls of the admin
    server, the lock \<^verbatim>\<open>raftNodeMu\<close>, the failures of the environment and the connections.
  \<^item> \<open>Membership\<close>: \<^verbatim>\<open>JoinClusterWithProgress\<close>, the progress table and the cluster reports.
  \<^item> \<open>Config\<close>, \<open>AdminServer\<close>: the configuration and its accessors; the RPC handler, its conversions and the
    joining client \<^verbatim>\<open>joinCluster\<close>.
  \<^item> \<open>Joining\<close>: \<^verbatim>\<open>joinCluster\<close> in conversation with the handler on the leader, whose state goes on from request to request.
  \<^item> \<open>Storage\<close>, \<open>Identity\<close>, \<open>RaftStart\<close>: data directories and stores, the identity file, and
    \<^verbatim>\<open>StartRaft\<close>, \<^verbatim>\<open>Close\<close> and \<^verbatim>\<open>ShutdownRaft\<close> with the checks they make.
  \<^item> \<open>NodeCycle\<close>, \<open>Recovery\<close>: a node over several processes: the identity file across starts; the snapshot policy of
    \<^verbatim>\<open>initRaftNodeWithDB\<close> on a disk whose snapshots may be lost and whose log is truncated; the snapshot store
    counts only snapshots with readable metadata when it removes old ones.
  \<^item> \<open>Announce\<close>: the two goroutines of \<^verbatim>\<open>observeClusterLeaderChange\<close> with their channels.
  \<^item> \<open>Flags\<close>, \<open>Deploy\<close>: the command line as Go's \<^verbatim>\<open>flag\<close> package reads it for \<^verbatim>\<open>InitDBConfig\<close>, and what the commands of the
    README come to.
  \<^item> \<open>BenchCluster\<close>, \<open>BenchRun\<close>: the benchmark harness as a driver of servers (\<^verbatim>\<open>benchmarks/harness/cluster.go\<close>, \<^verbatim>\<open>run.go\<close>,
    \<^verbatim>\<open>profile.go\<close>): the nodes of a deployment and their command lines; starting, probing, stopping and cleaning up of
    clusters; the scenarios and the run, in a state monad over the processes, directories and results.
  \<^item> \<open>BenchLogic\<close>, \<open>BenchSafety\<close>, \<open>BenchResults\<close>: weakest preconditions and frames for it; what a run leaves behind and what
    it publishes.
  \<^item> \<open>Load\<close>, \<open>BenchCompare\<close>, \<open>BenchTools\<close>: the workers that put load on a server and the summaries of what they record
    (\<^verbatim>\<open>workload.go\<close>), the comparison of two results (\<^verbatim>\<open>compare.go\<close>), addresses, disk counters and descriptions.
  \<^item> \<open>Locks\<close>: the lock operations, shared accesses and waits of every operation, as programs that any number of
    goroutines run beside the one in which the Raft library calls the state machine.

  \<^bold>\<open>Interfaces.\<close> \<open>kv_store\<close> (what the executor needs of a store), \<open>command_engine\<close> (what replication needs of
  the executor), \<open>raft_fsm\<close> (what Raft needs of a state machine), \<open>progress_tracker\<close> (what joining needs
  of the progress table), \<open>reply_stream\<close> (what a client needs of the server's replies), \<open>winding_down\<close> (what a
  shutdown needs of the goroutines), \<open>world_frame\<close> (what the harness's waiting and probing leaves unchanged) and \<open>lock_discipline\<close> (what freedom from deadlocks and races needs of the
  programs) are locales; each is interpreted on the model's own definitions.

  \<^bold>\<open>What the lemmas show.\<close> Requests: the parser reads back what a client prints, always consumes input,
  never indexes out of range. Execution: \<^verbatim>\<open>executeOnDB\<close> refines a map specification; errors change
  nothing; counters wrap at 64 bits. Connections: pipelined requests are answered in order as the
  specification says; the loop returns when the input ends; the harness's client reads back exactly these
  replies, and preloading fills the store; concurrent connections to a server without Raft are linearizable; every reply is well formed,
  except an error of \<^verbatim>\<open>SAVE\<close> with a line feed in it.
  The process: \<^verbatim>\<open>main\<close> returns only after a signal and with Raft closed; a shutdown ends under a scheduler that is weakly
  fair to each goroutine, where calls of the admin server and sections under \<^verbatim>\<open>raftNodeMu\<close> are taken to end.
  Replication: log entries have the effect
  of the command for valid UTF-8, snapshots restore exactly, a snapshot plus the rest of the log equals the whole
  log, torn snapshots are refused, replicas with equal applied index agree, acknowledged writes are
  applied and survive. Membership: no vote before catch-up, promotion afterwards, no duplicates or take-overs; a join
  of a new node completes within the retry limit. Locking: no deadlock, no race on the store, the progress table and
  the node variable. Restarts: a node comes back under its identity; the trailing log reaches back to the three newest
  snapshots as long as they are not further apart than the threshold.
  Start-up: the identity file is installed atomically and found again, every failure releases what was
  opened, a running node is a member under its own name; a data directory serves one identity. The harness: its command
  lines are accepted at the first start and after a stop, a run leaves no process and no data behind, results marked as
  completed are complete, its workers record a success for every command they send to a server without Raft, the
  summaries count each success once, a comparison marks as comparable exactly the runs that agree. Some theorems record behaviour that the
  sources do not intend: a panic on a bulk header, the loss of synchronisation after an empty argument, the change
  of binary values by the log encoding, the leader address that is never learnt, the identity
  \<^verbatim>\<open>/\<close>, writes that bypass Raft after the admin server failed, a Raft node left open when the client address
  is taken, an unguarded variable, a goroutine that can stay behind, a log that can be too short for the oldest snapshot, and for one that
  outlived a snapshot with unreadable metadata, an error text that breaks the framing of replies, commands of the README that
  are answered as unsupported, a README whose three nodes share one data directory.

  \<^bold>\<open>Parameters and their contracts.\<close> The Raft library, gRPC, the retry library, the file system, bbolt, the
  clock, the Unicode upper-case table and, for the harness, the operating system and the servers are arguments. What is assumed of them is stated by
  \<open>raft_contract\<close>, \<open>commits\<close>, \<open>member_contract\<close>, \<open>retry_contract\<close> and \<open>retry_complete\<close>, each of which has a concrete instance; that all
  nodes see one log is built into \<open>cluster_step\<close>.

  \<^bold>\<open>Fuel and termination.\<close> The JSON scanner recurses on fuel; \<open>parse_stable\<close> shows that twice the length of
  the text plus one is always enough, and that amount is what it gets. The connection loop is a partial function; that it returns
  is proved, and \<open>serve_alone\<close> ties it to the steps of \<open>Sessions\<close>. The waiting loops of the harness recurse on the number of rounds before their deadline. The wait for a configuration recurses on the events of its \<^verbatim>\<open>select\<close>. Everything else is
  total by structure or by a measure.

  \<^bold>\<open>Not modelled.\<close> Log output, the contents of error messages beyond their kind and data, running out of
  memory below the allocation limit, the sockets themselves, the generated protobuf code, and of the
  benchmark harness command line, the warm-up, the sampling of memory, the analysis of a snapshot and the rendering of tables; its clock
  and its floating-point operations are arguments. Handlers of
  the admin RPC run to completion one at a time in \<open>Membership\<close>; that the source's locks make them so is what \<open>Locks\<close>
  is about. In \<open>Daemon\<close> only the life of the admin server is modelled and
  its calls are counted, not executed. The programs of \<open>Locks\<close> follow the locks of an
  operation, not its data: the branches it may take are arguments.
\<close>

section \<open>Joining through a follower\<close>

text \<open>
  C32. A follower cannot redirect a joining node: whatever the cluster has been through, a join
  request that reaches a node which is not the leader is answered with an empty leader address, and the
  client's retry callback then replaces its join address by the empty string.
\<close>

theorem redirect_loses_address:
  assumes "cluster_reach c" "raftState lib (raft nd) \<noteq> Leader" "dial (JoinAddr config)"
    and "GetRaftId config \<noteq> []" "GetRaftAdvertiseAddr config \<noteq> []"
  shows "\<exists>err. sendRequest dial
      (\<lambda>_ req. fst (JoinClusterRPC lib (leaderAdminAddr (node c i)) clock req (Some nd))) aidx config = Some err
    \<and> JoinAddr (onRetry err config) = []"
proof -
  have "leaderAdminAddr (node c i) = []"
    using cluster_reach_inv [OF assms(1)] by (simp add: cluster_inv_def node_ok_def)
  then show ?thesis
    using client_on_follower [of dial config lib nd "[]" clock aidx] assms(2-5) by (simp add: onRetry_def)
qed

definition follower_lib :: "leader_raft member_lib" where
  "follower_lib = leader_lib\<lparr>raftState := (\<lambda>_. Follower)\<rparr>"

theorem redirect_loses_address_witness:
  "\<exists>err. sendRequest (\<lambda>_. True)
      (\<lambda>_ req. fst (JoinClusterRPC follower_lib (leaderAdminAddr (node cluster_start 0)) int req (Some example_node))) 0
      (first_config\<lparr>JoinAddr := ''h:50051''\<rparr>) = Some err
    \<and> JoinAddr (onRetry err (first_config\<lparr>JoinAddr := ''h:50051''\<rparr>)) = []"
  by (rule redirect_loses_address [OF cluster_reach.start])
    (simp_all add: follower_lib_def GetRaftId_def GetRaftAdvertiseAddr_def first_config_facts TrimSpace_printable printable_def)

end
